(* ===== verification/Prelude.thy ===== *)
theory Prelude
  imports Main
    "HOL-Library.Word"
    "HOL-Library.Char_ord"
    "HOL-Library.List_Lexorder"
    "HOL-Library.Multiset"
begin

text \<open>
  Shared vocabulary of the development: machine integers and byte strings, the fixed-radix
  digit strings behind both the big-endian encodings and the zero-padded file names, Go's
  decimal formatting and parsing, \<open>sort.Slice\<close>, \<open>sort.Search\<close>, \<open>range\<close> over a map, and
  chunking. Nothing here models a file of the repository; it is the part of the Go language
  and standard library that several components use.
\<close>

named_theorems codec \<open>lengths and inverses of the byte-level encoders\<close>

section \<open>Machine integers and byte strings\<close>

type_synonym byte = "8 word"
type_synonym u64 = "64 word"
type_synonym i64 = "64 word"

text \<open>
  A Go \<open>int64\<close> is a 64-bit word read by \<open>sint\<close>; a \<open>float64\<close> that is only stored, copied and
  serialised is its IEEE 754 bit pattern (\<open>math.Float64bits\<close>).
\<close>

type_synonym f64 = "64 word"

definition string_bytes :: "string \<Rightarrow> byte list" where
  "string_bytes s = map (\<lambda>c. word_of_nat (of_char c)) s"

definition bytes_string :: "byte list \<Rightarrow> string" where
  "bytes_string bs = map (\<lambda>b. char_of (unat b)) bs"

lemma length_string_bytes [simp, codec]: "length (string_bytes s) = length s"
  by (simp add: string_bytes_def)

lemma bytes_string_bytes [simp, codec]: "bytes_string (string_bytes s) = s"
proof -
  have "char_of (unat (word_of_nat (of_char c) :: byte)) = c" for c
    by (simp add: unat_of_nat)
  then show ?thesis
    by (simp add: string_bytes_def bytes_string_def comp_def)
qed

section \<open>Fixed-width digit strings\<close>

text \<open>\<open>radix b n x\<close>: the \<open>n\<close> digits of \<open>x\<close> in base \<open>b\<close>, most significant first.\<close>

fun radix :: "nat \<Rightarrow> nat \<Rightarrow> nat \<Rightarrow> nat list" where
  "radix b 0 x = []"
| "radix b (Suc n) x = (x div b ^ n) mod b # radix b n x"

definition unradix :: "nat \<Rightarrow> nat list \<Rightarrow> nat" where
  "unradix b ds = foldl (\<lambda>a d. a * b + d) 0 ds"

lemma length_radix [simp, codec]: "length (radix b n x) = n"
  by (induction n) auto

lemma radix_digits: "0 < b \<Longrightarrow> \<forall>d \<in> set (radix b n x). d < b"
  by (induction n) auto

lemma foldl_radix:
  "foldl (\<lambda>a d. a * b + d) a ds = a * b ^ length ds + unradix b ds"
proof (induction ds arbitrary: a)
  case Nil
  show ?case by (simp add: unradix_def)
next
  case (Cons d ds)
  have "foldl (\<lambda>a d. a * b + d) a (d # ds) = (a * b + d) * b ^ length ds + unradix b ds"
    by (simp add: Cons.IH)
  moreover have "unradix b (d # ds) = d * b ^ length ds + unradix b ds"
    using Cons.IH [of d] by (simp add: unradix_def)
  ultimately show ?case by (simp add: algebra_simps)
qed

lemma unradix_Nil [simp]: "unradix b [] = 0"
  by (simp add: unradix_def)

lemma unradix_Cons: "unradix b (d # ds) = d * b ^ length ds + unradix b ds"
  using foldl_radix [of b d ds] by (simp add: unradix_def)

lemma unradix_radix [codec]: "unradix b (radix b n x) = x mod b ^ n"
proof (induction n)
  case 0
  show ?case by simp
next
  case (Suc n)
  have "unradix b (radix b (Suc n) x) = (x div b ^ n) mod b * b ^ n + x mod b ^ n"
    by (simp add: unradix_Cons Suc.IH)
  also have "\<dots> = x mod (b ^ n * b)"
    by (simp add: mod_mult2_eq)
  finally show ?case by (simp add: mult.commute)
qed

lemma unradix_bound: "\<forall>d \<in> set ds. d < b \<Longrightarrow> unradix b ds < b ^ length ds"
proof (induction ds)
  case Nil
  then show ?case by simp
next
  case (Cons d ds)
  then have "unradix b ds < b ^ length ds" and "Suc d \<le> b" by auto
  moreover have "Suc d * b ^ length ds \<le> b * b ^ length ds"
    using \<open>Suc d \<le> b\<close> by (rule mult_le_mono1)
  ultimately show ?case by (simp add: unradix_Cons)
qed

text \<open>Equal length: lexicographic order on the digits is the order of the numbers.\<close>

lemma radix_less_iff:
  fixes b :: nat
  assumes "\<forall>d \<in> set ds. d < b" and "\<forall>e \<in> set es. e < b" and "length ds = length es"
  shows "ds < es \<longleftrightarrow> unradix b ds < unradix b es"
  using assms(3,1,2)
proof (induction ds es rule: list_induct2)
  case Nil
  then show ?case by simp
next
  case (Cons d ds e es)
  have bd: "unradix b ds < b ^ length ds" "unradix b es < b ^ length ds"
    using Cons.prems Cons.hyps unradix_bound by fastforce+
  have step: "d < e \<Longrightarrow> d * b ^ length ds + b ^ length ds \<le> e * b ^ length ds" for d e :: nat
    by (metis Suc_leI add.commute mult_Suc mult_le_mono1)
  consider "d < e" | "d = e" | "e < d" by arith
  then show ?case
  proof cases
    case 1
    with step [of d e] bd Cons.hyps show ?thesis by (simp add: unradix_Cons)
  next
    case 2
    with Cons show ?thesis by (simp add: unradix_Cons)
  next
    case 3
    with step [of e d] bd Cons.hyps show ?thesis by (simp add: unradix_Cons)
  qed
qed

lemma radix_mono_iff:
  assumes "x < b ^ n" and "y < b ^ n"
  shows "radix b n x < radix b n y \<longleftrightarrow> x < y"
proof (cases "b = 0")
  case True
  with assms show ?thesis by (cases n) auto
next
  case False
  then show ?thesis
    using radix_less_iff [of "radix b n x" b "radix b n y"] assms
    by (simp add: radix_digits unradix_radix)
qed

lemma map_strict_mono_less:
  fixes f :: "'a::linorder \<Rightarrow> 'b::linorder"
  assumes "\<forall>x \<in> set xs \<union> set ys. \<forall>y \<in> set xs \<union> set ys. (f x < f y) = (x < y)"
  shows "map f xs < map f ys \<longleftrightarrow> xs < ys"
  using assms
proof (induction xs arbitrary: ys)
  case Nil
  then show ?case by (cases ys) auto
next
  case (Cons x xs)
  show ?case
  proof (cases ys)
    case Nil
    then show ?thesis by simp
  next
    case ys: (Cons y zs)
    have "f x < f y \<longleftrightarrow> x < y" and "f y < f x \<longleftrightarrow> y < x"
      using Cons.prems ys by simp_all
    then have "f x = f y \<longleftrightarrow> x = y" by (metis linorder_neq_iff)
    moreover have "map f xs < map f zs \<longleftrightarrow> xs < zs"
      using Cons.prems ys by (intro Cons.IH) simp
    ultimately show ?thesis using \<open>f x < f y \<longleftrightarrow> x < y\<close> ys by simp
  qed
qed

section \<open>Big-endian integers\<close>

text \<open>
  \<open>encoding/binary\<close>'s \<open>BigEndian.AppendUint16\<close>, \<open>PutUint32\<close>, \<open>AppendUint64\<close> and the
  matching readers, for any width of a whole number of bytes.
\<close>

definition be_bytes :: "nat \<Rightarrow> nat \<Rightarrow> byte list" where
  "be_bytes n x = map word_of_nat (radix 256 n x)"

definition be_value :: "byte list \<Rightarrow> nat" where
  "be_value bs = unradix 256 (map unat bs)"

lemma length_be_bytes [simp, codec]: "length (be_bytes n x) = n"
  by (simp add: be_bytes_def)

lemma unat_byte_of_nat: "d < 256 \<Longrightarrow> unat (word_of_nat d :: byte) = d"
  by (simp add: unat_of_nat)

lemma be_value_bytes [codec]: "be_value (be_bytes n x) = x mod 256 ^ n"
proof -
  have "map (unat \<circ> (word_of_nat :: nat \<Rightarrow> byte)) (radix 256 n x) = radix 256 n x"
    using radix_digits [of 256 n x] by (intro map_idI) (simp add: unat_byte_of_nat)
  then show ?thesis by (simp add: be_value_def be_bytes_def unradix_radix)
qed

lemma be_value_bound: "be_value bs < 256 ^ length bs"
proof -
  have "\<forall>d \<in> set (map unat bs). d < (256::nat)"
    using unsigned_less [where 'b = 8 and 'a = nat] by auto
  from unradix_bound [OF this] show ?thesis by (simp add: be_value_def)
qed

text \<open>The byte order of big-endian keys of one width is the order of the numbers.\<close>

lemma be_bytes_mono_iff:
  assumes "x < 256 ^ n" and "y < 256 ^ n"
  shows "be_bytes n x < be_bytes n y \<longleftrightarrow> x < y"
proof -
  have "\<forall>d \<in> set (radix 256 n x) \<union> set (radix 256 n y). d < 256"
    using radix_digits [of 256 n] by auto
  then have "map (word_of_nat :: nat \<Rightarrow> byte) (radix 256 n x) < map word_of_nat (radix 256 n y)
      \<longleftrightarrow> radix 256 n x < radix 256 n y"
    by (intro map_strict_mono_less) (simp add: word_less_nat_alt unat_byte_of_nat)
  then show ?thesis
    using assms by (simp add: be_bytes_def radix_mono_iff)
qed

section \<open>Decimal numbers as text\<close>

definition digit_char :: "nat \<Rightarrow> char" where
  "digit_char d = char_of (48 + d)"

definition char_digit :: "char \<Rightarrow> nat option" where
  "char_digit c = (let n = of_char c :: nat in if 48 \<le> n \<and> n \<le> 57 then Some (n - 48) else None)"

lemma of_char_digit_char: "d < 10 \<Longrightarrow> of_char (digit_char d) = (48 + d :: nat)"
  by (simp add: digit_char_def)

lemma digit_char_zero [simp]: "digit_char 0 = CHR ''0''"
  by code_simp

lemma char_digit_char [simp]: "d < 10 \<Longrightarrow> char_digit (digit_char d) = Some d"
  by (simp add: char_digit_def of_char_digit_char)

lemma digit_char_less_iff: "d < 10 \<Longrightarrow> e < 10 \<Longrightarrow> digit_char d < digit_char e \<longleftrightarrow> d < e"
  by (simp add: less_char_def of_char_digit_char)

text \<open>\<open>%d\<close> of a non-negative number.\<close>

fun dec_digits :: "nat \<Rightarrow> nat list" where
  "dec_digits n = (if n < 10 then [n] else dec_digits (n div 10) @ [n mod 10])"

declare dec_digits.simps [simp del]

definition fmt_nat :: "nat \<Rightarrow> string" where
  "fmt_nat n = map digit_char (dec_digits n)"

definition fmt_int :: "int \<Rightarrow> string" where
  "fmt_int z = (if z < 0 then CHR ''-'' # fmt_nat (nat (- z)) else fmt_nat (nat z))"

text \<open>\<open>%0wd\<close>: zeroes between the sign and the digits, up to width \<open>w\<close>.\<close>

definition fmt_pad_nat :: "nat \<Rightarrow> nat \<Rightarrow> string" where
  "fmt_pad_nat w n = replicate (w - length (dec_digits n)) CHR ''0'' @ fmt_nat n"

definition fmt_pad :: "nat \<Rightarrow> int \<Rightarrow> string" where
  "fmt_pad w z = (if z < 0 then CHR ''-'' # fmt_pad_nat (w - 1) (nat (- z)) else fmt_pad_nat w (nat z))"

text \<open>\<open>strconv.Atoi\<close>: an optional sign, then digits; a value outside \<open>int64\<close> is an error.\<close>

fun parse_digits :: "nat \<Rightarrow> string \<Rightarrow> nat option" where
  "parse_digits acc [] = Some acc"
| "parse_digits acc (c # cs) =
     (case char_digit c of None \<Rightarrow> None | Some d \<Rightarrow> parse_digits (acc * 10 + d) cs)"

definition atoi_nat :: "string \<Rightarrow> nat option" where
  "atoi_nat s = (if s = [] then None else parse_digits 0 s)"

definition atoi :: "string \<Rightarrow> int option" where
  "atoi s =
     (case s of
        [] \<Rightarrow> None
      | c # cs \<Rightarrow>
          let neg = (c = CHR ''-'');
              ds = (if neg \<or> c = CHR ''+'' then cs else s)
          in case atoi_nat ds of
               None \<Rightarrow> None
             | Some n \<Rightarrow>
                 let z = (if neg then - int n else int n)
                 in if - (2 ^ 63) \<le> z \<and> z < 2 ^ 63 then Some z else None)"

lemma dec_digits_bound: "\<forall>d \<in> set (dec_digits n). d < 10"
proof (induction n rule: dec_digits.induct)
  case (1 n)
  then show ?case by (subst dec_digits.simps) auto
qed

lemma unradix_snoc: "unradix b (ds @ [d]) = unradix b ds * b + d"
  by (simp add: unradix_def)

lemma unradix_dec_digits [simp]: "unradix 10 (dec_digits n) = n"
proof (induction n rule: dec_digits.induct)
  case (1 n)
  show ?case
  proof (cases "n < 10")
    case True
    then show ?thesis by (subst dec_digits.simps) (simp add: unradix_def)
  next
    case False
    with "1.IH" have "unradix 10 (dec_digits (n div 10)) = n div 10" by simp
    with False show ?thesis by (subst dec_digits.simps) (simp add: unradix_snoc)
  qed
qed

lemma dec_digits_nonempty [simp]: "dec_digits n \<noteq> []"
  by (subst dec_digits.simps) simp

lemma hd_dec_digits: "0 < n \<Longrightarrow> hd (dec_digits n) \<noteq> 0"
proof (induction n rule: dec_digits.induct)
  case (1 n)
  show ?case
  proof (cases "n < 10")
    case True
    with "1.prems" show ?thesis by (subst dec_digits.simps) simp
  next
    case False
    with "1.IH" have "hd (dec_digits (n div 10)) \<noteq> 0" by simp
    with False show ?thesis by (subst dec_digits.simps) simp
  qed
qed

lemma length_dec_digits: "n < 10 ^ w \<Longrightarrow> 0 < w \<Longrightarrow> length (dec_digits n) \<le> w"
proof (induction n arbitrary: w rule: dec_digits.induct)
  case (1 n)
  show ?case
  proof (cases "n < 10")
    case True
    with "1.prems" show ?thesis by (subst dec_digits.simps) simp
  next
    case False
    have "w \<noteq> Suc 0" using False "1.prems"(1) by auto
    then obtain v where w: "w = Suc v" and v: "0 < v" using "1.prems"(2) by (cases w) auto
    have "n div 10 < 10 ^ v"
      using "1.prems"(1) w by (simp add: div_less_iff_less_mult mult.commute)
    with "1.IH" [OF False, of v] v have "length (dec_digits (n div 10)) \<le> v" by simp
    with False w show ?thesis by (subst dec_digits.simps) simp
  qed
qed

lemma parse_digits_map:
  "\<forall>d \<in> set ds. d < 10 \<Longrightarrow>
   parse_digits acc (map digit_char ds) = Some (foldl (\<lambda>a d. a * 10 + d) acc ds)"
  by (induction ds arbitrary: acc) auto

lemma atoi_nat_fmt_nat [simp]: "atoi_nat (fmt_nat n) = Some n"
proof -
  have "foldl (\<lambda>a d. a * 10 + d) 0 (dec_digits n) = n"
    using unradix_dec_digits [of n] by (simp only: unradix_def)
  then show ?thesis
    by (simp add: atoi_nat_def fmt_nat_def parse_digits_map dec_digits_bound)
qed

lemma parse_digits_zeros:
  "parse_digits 0 (replicate k CHR ''0'' @ s) = parse_digits 0 s"
  by (induction k) (simp_all add: char_digit_def)

lemma fmt_nat_cons:
  obtains d ds where "fmt_nat n = digit_char d # ds" "d < 10" "0 < n \<Longrightarrow> 0 < d"
proof -
  obtain d ds where ds: "dec_digits n = d # ds" by (cases "dec_digits n") auto
  have "d < 10" using dec_digits_bound [of n] ds by simp
  moreover have "0 < n \<Longrightarrow> 0 < d" using hd_dec_digits [of n] ds by simp
  ultimately show thesis using ds by (intro that [of d "map digit_char ds"]) (simp_all add: fmt_nat_def)
qed

lemma digit_char_not_sign:
  "d < 10 \<Longrightarrow> digit_char d \<noteq> CHR ''-'' \<and> digit_char d \<noteq> CHR ''+''"
  using of_char_digit_char [of d] by fastforce

lemma atoi_fmt_nat: "n < 2 ^ 63 \<Longrightarrow> atoi (fmt_nat n) = Some (int n)"
proof -
  assume n: "n < 2 ^ 63"
  obtain d ds where s: "fmt_nat n = digit_char d # ds" and d: "d < 10"
    by (rule fmt_nat_cons)
  have "atoi_nat (digit_char d # ds) = Some n" using s atoi_nat_fmt_nat [of n] by simp
  moreover have "int n < 2 ^ 63" using n by (simp add: zless_nat_eq_int_zless [symmetric])
  ultimately show ?thesis
    unfolding s using digit_char_not_sign [OF d] by (simp add: atoi_def Let_def)
qed

text \<open>The zero-padded form of a number that fits its width is its radix-10 digit string.\<close>

lemma radix_snoc: "radix b (Suc n) x = radix b n (x div b) @ [x mod b]"
  by (induction n) (simp_all add: div_mult2_eq [symmetric])

lemma radix_unradix: "\<forall>d \<in> set ds. d < b \<Longrightarrow> radix b (length ds) (unradix b ds) = ds"
proof (induction ds rule: rev_induct)
  case Nil
  show ?case by simp
next
  case (snoc d ds)
  then show ?case by (simp add: unradix_snoc radix_snoc del: radix.simps)
qed

lemma radix_pad: "0 < b \<Longrightarrow> x < b ^ m \<Longrightarrow> radix b (k + m) x = replicate k 0 @ radix b m x"
proof (induction k)
  case 0
  show ?case by simp
next
  case (Suc k)
  have "b ^ m \<le> b ^ (k + m)" using Suc.prems(1) by (simp add: power_increasing)
  with Suc show ?case by simp
qed

lemma replicate_zero_radix:
  assumes "\<forall>d \<in> set ds. d < b" and "0 < b"
  shows "radix b (k + length ds) (unradix b ds) = replicate k 0 @ ds"
  using radix_pad [OF assms(2) unradix_bound [OF assms(1)]] radix_unradix [OF assms(1)] by simp

lemma fmt_pad_nat_radix:
  assumes "n < 10 ^ w" and "0 < w"
  shows "fmt_pad_nat w n = map digit_char (radix 10 w n)"
proof -
  let ?ds = "dec_digits n"
  have len: "length ?ds \<le> w" using assms by (rule length_dec_digits)
  have "radix 10 ((w - length ?ds) + length ?ds) (unradix 10 ?ds) = replicate (w - length ?ds) 0 @ ?ds"
    using dec_digits_bound by (intro replicate_zero_radix) auto
  with len have "radix 10 w n = replicate (w - length ?ds) 0 @ ?ds" by simp
  then show ?thesis
    by (simp add: fmt_pad_nat_def fmt_nat_def digit_char_zero)
qed

text \<open>String order on padded names is the order of the numbers.\<close>

lemma fmt_pad_nat_less_iff:
  assumes "m < 10 ^ w" and "n < 10 ^ w" and "0 < w"
  shows "fmt_pad_nat w m < fmt_pad_nat w n \<longleftrightarrow> m < n"
proof -
  have "\<forall>d \<in> set (radix 10 w m) \<union> set (radix 10 w n). d < 10"
    using radix_digits [of 10 w] by auto
  then have "map digit_char (radix 10 w m) < map digit_char (radix 10 w n)
      \<longleftrightarrow> radix 10 w m < radix 10 w n"
    by (intro map_strict_mono_less) (simp add: digit_char_less_iff)
  with assms show ?thesis by (simp add: fmt_pad_nat_radix radix_mono_iff)
qed

lemma fmt_pad_nat_value: "atoi_nat (fmt_pad_nat w n) = Some n"
proof -
  have "fmt_nat n \<noteq> []" by (simp add: fmt_nat_def)
  then have "atoi_nat (fmt_pad_nat w n) = atoi_nat (fmt_nat n)"
    by (simp add: atoi_nat_def fmt_pad_nat_def parse_digits_zeros)
  then show ?thesis by simp
qed

lemma fmt_pad_nat_inj: "fmt_pad_nat w m = fmt_pad_nat w n \<Longrightarrow> m = n"
  by (metis fmt_pad_nat_value option.inject)

section \<open>Results\<close>

text \<open>A Go result with an error is a sum, the error on the left; \<open>sbind\<close> is the early return.\<close>

fun sbind :: "'e + 'a \<Rightarrow> ('a \<Rightarrow> 'e + 'b) \<Rightarrow> 'e + 'b" where
  "sbind (Inl e) f = Inl e"
| "sbind (Inr x) f = f x"

lemma sbind_Inr_iff: "sbind m f = Inr y \<longleftrightarrow> (\<exists>x. m = Inr x \<and> f x = Inr y)"
  by (cases m) auto

section \<open>Sorting and searching\<close>

text \<open>
  \<open>sort.Slice\<close> leaves the order of elements that compare equal open, so the definitions that
  sort take the sorting function as an argument and the theorems assume only its documented
  contract: the result is a permutation in which no element is less than an earlier one.
\<close>

definition is_sort :: "('a \<Rightarrow> 'a \<Rightarrow> bool) \<Rightarrow> ('a list \<Rightarrow> 'a list) \<Rightarrow> bool" where
  "is_sort lt srt \<longleftrightarrow> (\<forall>xs. mset (srt xs) = mset xs \<and> sorted_wrt (\<lambda>x y. \<not> lt y x) (srt xs))"

lemma is_sort_mset: "is_sort lt srt \<Longrightarrow> mset (srt xs) = mset xs"
  by (simp add: is_sort_def)

lemma is_sort_set: "is_sort lt srt \<Longrightarrow> set (srt xs) = set xs"
  by (metis is_sort_mset set_mset_mset)

lemma is_sort_sorted: "is_sort lt srt \<Longrightarrow> sorted_wrt (\<lambda>x y. \<not> lt y x) (srt xs)"
  by (simp add: is_sort_def)

lemma is_sort_distinct: "is_sort lt srt \<Longrightarrow> distinct (srt xs) \<longleftrightarrow> distinct xs"
  by (metis is_sort_mset mset_eq_imp_distinct_iff)

lemma is_sort_length: "is_sort lt srt \<Longrightarrow> length (srt xs) = length xs"
  by (metis is_sort_mset size_mset)

text \<open>Insertion sort meets the contract for every strict weak order.\<close>

fun insort_by :: "('a \<Rightarrow> 'a \<Rightarrow> bool) \<Rightarrow> 'a \<Rightarrow> 'a list \<Rightarrow> 'a list" where
  "insort_by lt x [] = [x]"
| "insort_by lt x (y # ys) = (if lt y x then y # insort_by lt x ys else x # y # ys)"

definition isort :: "('a \<Rightarrow> 'a \<Rightarrow> bool) \<Rightarrow> 'a list \<Rightarrow> 'a list" where
  "isort lt xs = foldr (insort_by lt) xs []"

definition strict_weak :: "('a \<Rightarrow> 'a \<Rightarrow> bool) \<Rightarrow> bool" where
  "strict_weak lt \<longleftrightarrow> (\<forall>x y. lt x y \<longrightarrow> \<not> lt y x) \<and>
     (\<forall>x y z. \<not> lt x y \<longrightarrow> \<not> lt y z \<longrightarrow> \<not> lt x z)"

lemma mset_insort_by: "mset (insort_by lt x xs) = add_mset x (mset xs)"
  by (induction xs) auto

lemma sorted_insort_by:
  assumes "strict_weak lt"
  shows "sorted_wrt (\<lambda>x y. \<not> lt y x) xs \<Longrightarrow> sorted_wrt (\<lambda>x y. \<not> lt y x) (insort_by lt x xs)"
proof (induction xs)
  case Nil
  show ?case by simp
next
  case (Cons y ys)
  have "set (insort_by lt x ys) = insert x (set ys)"
    using mset_insort_by [of lt x ys] by (metis set_mset_add_mset_insert set_mset_mset)
  moreover have "lt y x \<Longrightarrow> \<not> lt x y"
    using assms unfolding strict_weak_def by blast
  moreover have "\<not> lt y x \<Longrightarrow> \<not> lt z y \<Longrightarrow> \<not> lt z x" for z
    using assms unfolding strict_weak_def by blast
  ultimately show ?case using Cons by auto
qed

lemma isort_is_sort: "strict_weak lt \<Longrightarrow> is_sort lt (isort lt)"
proof -
  assume lt: "strict_weak lt"
  have "mset (foldr (insort_by lt) xs []) = mset xs" for xs
    by (induction xs) (simp_all add: mset_insort_by)
  moreover have "sorted_wrt (\<lambda>x y. \<not> lt y x) (foldr (insort_by lt) xs [])" for xs
    by (induction xs) (simp_all add: sorted_insort_by [OF lt])
  ultimately show ?thesis by (simp add: is_sort_def isort_def)
qed

lemma strict_weak_key:
  fixes key :: "'a \<Rightarrow> 'b::linorder"
  shows "strict_weak (\<lambda>x y. key x < key y)"
  by (auto simp: strict_weak_def)

text \<open>\<open>sort.Search\<close>: the standard library's binary search for the first index satisfying \<open>f\<close>.\<close>

function search_loop :: "(nat \<Rightarrow> bool) \<Rightarrow> nat \<Rightarrow> nat \<Rightarrow> nat" where
  "search_loop f i j =
     (if i < j then
        let h = (i + j) div 2
        in if \<not> f h then search_loop f (h + 1) j else search_loop f i h
      else i)"
  by pat_completeness auto
termination
  by (relation "measure (\<lambda>(f, i, j). j - i)") auto

declare search_loop.simps [simp del]

definition sort_search :: "nat \<Rightarrow> (nat \<Rightarrow> bool) \<Rightarrow> nat" where
  "sort_search n f = search_loop f 0 n"

lemma search_loop_spec:
  assumes "\<And>k l. k \<le> l \<Longrightarrow> f k \<Longrightarrow> l < n \<Longrightarrow> f l"
  shows "i \<le> j \<Longrightarrow> j \<le> n \<Longrightarrow> \<forall>k<i. \<not> f k \<Longrightarrow> \<forall>k. j \<le> k \<and> k < n \<longrightarrow> f k \<Longrightarrow>
    search_loop f i j \<le> n \<and> (\<forall>k < search_loop f i j. \<not> f k) \<and>
    (\<forall>k. search_loop f i j \<le> k \<and> k < n \<longrightarrow> f k)"
  using assms
proof (induction f i j rule: search_loop.induct)
  case (1 f i j)
  show ?case
  proof (cases "i < j")
    case False
    then have "search_loop f i j = i" by (simp add: search_loop.simps [of f i j])
    with False "1.prems" show ?thesis by simp
  next
    case True
    define h where "h = (i + j) div 2"
    have h: "i \<le> h" "h < j" using True by (auto simp: h_def)
    show ?thesis
    proof (cases "f h")
      case True
      have "\<forall>k. h \<le> k \<and> k < n \<longrightarrow> f k" using True "1.prems"(5) by blast
      with "1.IH"(2) [OF \<open>i < j\<close> h_def] True h "1.prems" show ?thesis
        by (simp add: search_loop.simps [of f i j] h_def [symmetric] Let_def)
    next
      case False
      have "\<forall>k < h + 1. \<not> f k"
        using False "1.prems"(2,5) h by (metis less_Suc_eq_le Suc_eq_plus1 order_less_le_trans)
      with "1.IH"(1) [OF \<open>i < j\<close> h_def] False h "1.prems" show ?thesis
        by (simp add: search_loop.simps [of f i j] h_def [symmetric] Let_def)
    qed
  qed
qed

text \<open>On a list whose elements satisfy \<open>P\<close> from some point on, cutting at the found index is filtering.\<close>

lemma drop_sort_search:
  assumes "sorted_wrt (\<lambda>x y. P x \<longrightarrow> P y) xs"
  shows "drop (sort_search (length xs) (\<lambda>i. P (xs ! i))) xs = filter P xs"
proof -
  let ?f = "\<lambda>i. P (xs ! i)" and ?k = "sort_search (length xs) (\<lambda>i. P (xs ! i))"
  have mono: "P (xs ! l)" if "k \<le> l" "P (xs ! k)" "l < length xs" for k l
  proof (cases "k = l")
    case True
    with that show ?thesis by simp
  next
    case False
    with that have "k < l" by simp
    with that assms show ?thesis by (simp add: sorted_wrt_iff_nth_less)
  qed
  have "?k \<le> length xs \<and> (\<forall>i < ?k. \<not> ?f i) \<and> (\<forall>i. ?k \<le> i \<and> i < length xs \<longrightarrow> ?f i)"
    unfolding sort_search_def
  proof (rule search_loop_spec)
    show "?f l" if "k \<le> l" "?f k" "l < length xs" for k l
      using that by (rule mono)
  qed auto
  then have k: "?k \<le> length xs" "\<forall>i < ?k. \<not> ?f i" "\<forall>i. ?k \<le> i \<and> i < length xs \<longrightarrow> ?f i"
    by blast+
  have "filter P (take ?k xs) = []"
    using k(1,2) by (auto simp: filter_empty_conv in_set_conv_nth)
  moreover have "filter P (drop ?k xs) = drop ?k xs"
    using k(3) by (auto simp: filter_id_conv in_set_conv_nth)
  ultimately show ?thesis
    by (metis append_take_drop_id filter_append self_append_conv2)
qed

section \<open>Ranging over a map\<close>

text \<open>
  Go visits the entries of a map in an unspecified order. A definition that ranges over a map
  takes the order \<open>ks\<close> in which the runtime visits the keys; the theorems hold for every \<open>ks\<close>
  that \<open>ranges\<close> over the map.
\<close>

definition ranges :: "'k list \<Rightarrow> ('k \<rightharpoonup> 'v) \<Rightarrow> bool" where
  "ranges ks m \<longleftrightarrow> distinct ks \<and> set ks = dom m"

definition visit :: "'k list \<Rightarrow> ('k \<rightharpoonup> 'v) \<Rightarrow> 'v list" where
  "visit ks m = List.map_filter m ks"

lemma visit_Nil [simp]: "visit [] m = []"
  by (simp add: visit_def List.map_filter_def)

lemma visit_Cons [simp]:
  "visit (k # ks) m = (case m k of None \<Rightarrow> visit ks m | Some v \<Rightarrow> v # visit ks m)"
  by (simp add: visit_def List.map_filter_def split: option.split)

lemma set_visit: "set (visit ks m) = {v. \<exists>k \<in> set ks. m k = Some v}"
  by (induction ks) (auto split: option.splits)

lemma set_visit_ranges: "ranges ks m \<Longrightarrow> set (visit ks m) = ran m"
  by (auto simp: set_visit ranges_def ran_def)

lemma ranges_exist: "\<exists>ks. ranges ks m" for m :: "'k::finite \<rightharpoonup> 'v"
  using finite_distinct_list [of "dom m"] by (auto simp: ranges_def)

lemma filter_visit:
  assumes "ranges ks m" and only: "\<And>k' x. m k' = Some x \<Longrightarrow> P x \<Longrightarrow> k' = k"
  shows "filter P (visit ks m) = (case m k of Some x \<Rightarrow> if P x then [x] else [] | None \<Rightarrow> [])"
proof -
  have none: "filter P (visit ks' m) = []" if "k \<notin> set ks'" for ks'
    using that only by (induction ks') (auto split: option.splits)
  have "filter P (visit ks' m) = (case m k of Some x \<Rightarrow> if P x then [x] else [] | None \<Rightarrow> [])"
    if "distinct ks'" "k \<in> set ks'" for ks'
    using that
  proof (induction ks')
    case (Cons k' ks')
    show ?case
    proof (cases "k' = k")
      case True
      with Cons.prems none [of ks'] show ?thesis by (auto split: option.splits)
    next
      case False
      with Cons show ?thesis by (auto split: option.splits dest: only)
    qed
  qed simp
  moreover have "m k = None" if "k \<notin> set ks"
    using that assms(1) by (auto simp: ranges_def)
  ultimately show ?thesis
    using assms(1) none [of ks] by (cases "k \<in> set ks") (auto simp: ranges_def)
qed

text \<open>\<open>map[string]struct{}\<close> as a set of strings, listed by \<open>sort.Strings\<close>.\<close>

definition sorted_strings :: "string list \<Rightarrow> string list" where
  "sorted_strings ss = sort (remdups ss)"

lemma sorted_strings [simp]:
  "set (sorted_strings ss) = set ss" "sorted (sorted_strings ss)" "distinct (sorted_strings ss)"
  by (simp_all add: sorted_strings_def)

lemma option_ext: "(\<And>x. a = Some x \<longleftrightarrow> b = Some x) \<Longrightarrow> a = b"
  by (cases a; cases b) auto

lemma sint_inj: "sint a = sint b \<longleftrightarrow> a = b" for a b :: "'a::len word"
  using word_eq_iff_signed by blast

section \<open>Sorted association lists\<close>

text \<open>Keys in strictly increasing order; such a list is determined by the map it stands for.\<close>

abbreviation (input) keys_sorted :: "('k::linorder \<times> 'v) list \<Rightarrow> bool" where
  "keys_sorted kvs \<equiv> sorted_wrt (<) (map fst kvs)"

lemma keys_sorted_unique:
  assumes "keys_sorted xs" and "keys_sorted ys" and "map_of xs = map_of ys"
  shows "xs = ys"
proof -
  have d: "distinct (map fst xs)" "distinct (map fst ys)"
    using assms(1,2) by (simp_all add: strict_sorted_iff)
  then have "set xs = set ys" using assms(3) by (simp add: map_of_inject_set)
  moreover have "inj_on fst (set xs \<union> set ys)"
    using d(1) calculation by (simp add: distinct_map)
  ultimately show ?thesis
    using assms(1,2) d by (intro map_sorted_distinct_set_unique [of fst]) (simp_all add: strict_sorted_iff)
qed

end
