(* ===== verification/GoTime.thy ===== *)
theory GoTime
  imports Prelude
begin

text \<open>
  \<open>time.ParseDuration\<close> and the functions of \<open>strings\<close> and \<open>strconv\<close> that the configuration and the query
  API use on their text inputs. Nothing here models a file of the repository. Floating-point text and
  arithmetic, and the Unicode classes of \<open>strings.TrimSpace\<close>, are the fields of \<open>num_env\<close>.
\<close>

record num_env =
  neParseFloat :: "string \<Rightarrow> f64 option"        \<comment> \<open>\<open>strconv.ParseFloat(s, 64)\<close>\<close>
  neScale :: "f64 \<Rightarrow> nat \<Rightarrow> i64"                \<comment> \<open>\<open>int64(f * float64(n))\<close>\<close>
  neFrac :: "nat \<Rightarrow> nat \<Rightarrow> nat \<Rightarrow> nat"           \<comment> \<open>\<open>uint64(float64(f) * (float64(unit) / 10^k))\<close>\<close>
  neTrimSpace :: "string \<Rightarrow> string"
  neQuote :: "string \<Rightarrow> string"                 \<comment> \<open>\<open>%q\<close>\<close>

section \<open>Instants\<close>

text \<open>A \<open>time.Time\<close> is its instant, in nanoseconds since the Unix epoch; \<open>zeroTime\<close> is that of \<open>time.Time{}\<close>.\<close>

type_synonym time = int

definition zeroTime :: time where
  "zeroTime = - 62135596800 * 10 ^ 9"

text \<open>\<open>time.Unix(sec, nsec)\<close> and \<open>Time.UnixMilli\<close>, an \<open>int64\<close>.\<close>

definition unixTime :: "i64 \<Rightarrow> i64 \<Rightarrow> time" where
  "unixTime sec nsec = sint sec * 10 ^ 9 + sint nsec"

definition milliOf :: "time \<Rightarrow> i64" where
  "milliOf t = word_of_int (t div 10 ^ 6)"

section \<open>Suffixes\<close>

definition cutSuffix :: "string \<Rightarrow> string \<Rightarrow> string option" where
  "cutSuffix s suf =
     (if length suf \<le> length s \<and> drop (length s - length suf) s = suf then Some (take (length s - length suf) s) else None)"

lemma cutSuffix_append [simp]: "cutSuffix (s @ suf) suf = Some s"
  by (simp add: cutSuffix_def)

lemma cutSuffix_Some: "cutSuffix s suf = Some t \<longleftrightarrow> s = t @ suf"
  by (auto simp: cutSuffix_def) (metis append_take_drop_id)

section \<open>Durations\<close>

definition second :: nat where "second = 10 ^ 9"
definition minute :: nat where "minute = 60 * second"
definition hour :: nat where "hour = 60 * minute"

text \<open>The units, with the two spellings of micro in UTF-8.\<close>

definition durationUnits :: "(string \<times> nat) list" where
  "durationUnits =
     [(''ns'', 1), (''us'', 1000), ([CHR 0xC2, CHR 0xB5, CHR ''s''], 1000), ([CHR 0xCE, CHR 0xBC, CHR ''s''], 1000),
      (''ms'', 10 ^ 6), (''s'', second), (''m'', minute), (''h'', hour)]"

definition is_digit :: "char \<Rightarrow> bool" where
  "is_digit c \<longleftrightarrow> char_digit c \<noteq> None"

definition digit_val :: "char \<Rightarrow> nat" where
  "digit_val c = (case char_digit c of None \<Rightarrow> 0 | Some d \<Rightarrow> d)"

text \<open>\<open>leadingInt\<close>: the number before the first other character; \<open>None\<close> when it exceeds \<open>1 << 63\<close>.\<close>

fun leadingInt :: "nat \<Rightarrow> string \<Rightarrow> (nat \<times> string) option" where
  "leadingInt x [] = Some (x, [])"
| "leadingInt x (c # cs) =
     (if \<not> is_digit c then Some (x, c # cs)
      else if x > 2 ^ 63 div 10 then None
      else let x = x * 10 + digit_val c in if x > 2 ^ 63 then None else leadingInt x cs)"

text \<open>\<open>leadingFraction\<close>: digits that no longer fit are dropped; \<open>k\<close> counts those kept.\<close>

fun leadingFraction :: "nat \<Rightarrow> nat \<Rightarrow> bool \<Rightarrow> string \<Rightarrow> nat \<times> nat \<times> string" where
  "leadingFraction x k overflow [] = (x, k, [])"
| "leadingFraction x k overflow (c # cs) =
     (if \<not> is_digit c then (x, k, c # cs)
      else if overflow \<or> x > (2 ^ 63 - 1) div 10 \<or> x * 10 + digit_val c > 2 ^ 63 then leadingFraction x k True cs
      else leadingFraction (x * 10 + digit_val c) (Suc k) False cs)"

definition takeUnit :: "string \<Rightarrow> string \<times> string" where
  "takeUnit s = (takeWhile (\<lambda>c. \<not> (c = CHR ''.'' \<or> is_digit c)) s, dropWhile (\<lambda>c. \<not> (c = CHR ''.'' \<or> is_digit c)) s)"

text \<open>One \<open>number unit\<close> pair: its nanoseconds and the rest.\<close>

definition parseTerm :: "num_env \<Rightarrow> string \<Rightarrow> (nat \<times> string) option" where
  "parseTerm N s =
     (case s of
        [] \<Rightarrow> None
      | c # _ \<Rightarrow>
          if \<not> (c = CHR ''.'' \<or> is_digit c) then None
          else case leadingInt 0 s of
            None \<Rightarrow> None
          | Some (v, s1) \<Rightarrow>
              let pre = (length s1 \<noteq> length s);
                  (f, k, s2) = (case s1 of
                     [] \<Rightarrow> (0, 0, s1)
                   | c # cs \<Rightarrow> if c = CHR ''.'' then leadingFraction 0 0 False cs else (0, 0, s1));
                  post = (case s1 of [] \<Rightarrow> False | c # cs \<Rightarrow> c = CHR ''.'' \<and> length s2 \<noteq> length cs);
                  (u, rest) = takeUnit s2
              in if \<not> pre \<and> \<not> post \<or> u = '''' then None
                 else case map_of durationUnits u of
                   None \<Rightarrow> None
                 | Some unit \<Rightarrow>
                     if v > 2 ^ 63 div unit then None
                     else let d = v * unit + (if f > 0 then neFrac N f k unit else 0)
                          in if f > 0 \<and> d > 2 ^ 63 then None else Some (d, rest))"

text \<open>
  The loop consumes input in every round; the length of the input is fuel enough (\<open>parseTerms_fuel\<close>).
  The sum is a \<open>uint64\<close>.
\<close>

fun parseTerms :: "num_env \<Rightarrow> nat \<Rightarrow> nat \<Rightarrow> string \<Rightarrow> nat option" where
  "parseTerms N fuel d [] = Some d"
| "parseTerms N 0 d (c # cs) = None"
| "parseTerms N (Suc fuel) d (c # cs) =
     (case parseTerm N (c # cs) of
        None \<Rightarrow> None
      | Some (v, rest) \<Rightarrow> let d = (d + v) mod 2 ^ 64 in if d > 2 ^ 63 then None else parseTerms N fuel d rest)"

definition goParseDuration :: "num_env \<Rightarrow> string \<Rightarrow> i64 option" where
  "goParseDuration N s =
     (let neg = (s \<noteq> '''' \<and> hd s = CHR ''-'');
          s = (if s \<noteq> '''' \<and> (hd s = CHR ''-'' \<or> hd s = CHR ''+'') then tl s else s)
      in if s = ''0'' then Some 0
         else if s = '''' then None
         else case parseTerms N (length s) 0 s of
           None \<Rightarrow> None
         | Some d \<Rightarrow>
             if neg then Some (- word_of_nat d)
             else if d > 2 ^ 63 - 1 then None else Some (word_of_nat d))"

subsection \<open>The fuel is enough\<close>

lemma leadingInt_shorter: "leadingInt x s = Some (v, r) \<Longrightarrow> length r \<le> length s"
  by (induction x s rule: leadingInt.induct) (auto simp: Let_def split: if_splits)

lemma leadingFraction_shorter: "leadingFraction x k ov s = (f, k', r) \<Longrightarrow> length r \<le> length s"
  by (induction x k ov s rule: leadingFraction.induct) (auto split: if_splits)

lemma takeUnit_shorter: "takeUnit s = (u, r) \<Longrightarrow> length u + length r = length s"
  by (auto simp: takeUnit_def) (metis length_append takeWhile_dropWhile_id)

lemma parseTerm_shorter:
  assumes "parseTerm N s = Some (v, r)"
  shows "length r < length s"
proof -
  obtain c cs where s: "s = c # cs" using assms by (cases s) (auto simp: parseTerm_def)
  obtain v1 s1 where l: "leadingInt 0 s = Some (v1, s1)"
    using assms by (auto simp: parseTerm_def s split: if_splits option.splits)
  define fks where "fks = (case s1 of
       [] \<Rightarrow> (0, 0, s1) | c # cs \<Rightarrow> if c = CHR ''.'' then leadingFraction 0 0 False cs else (0, 0, s1))"
  obtain f k s2 where fks': "fks = (f, k, s2)" by (metis prod.exhaust)
  have "length s2 \<le> length s1"
  proof (cases s1)
    case Nil
    then show ?thesis using fks' by (simp add: fks_def)
  next
    case (Cons c' cs')
    then show ?thesis using fks' leadingFraction_shorter [of 0 0 False cs' f k s2]
      by (auto simp: fks_def split: if_splits)
  qed
  moreover obtain u rest where u: "takeUnit s2 = (u, rest)" by fastforce
  moreover have "u \<noteq> ''''" "r = rest"
    using assms l fks' u unfolding fks_def
    by (auto simp: parseTerm_def s Let_def split: if_splits option.splits)
  ultimately show ?thesis using leadingInt_shorter [OF l] takeUnit_shorter [OF u] by (cases u) auto
qed

lemma parseTerms_fuel: "length s \<le> n \<Longrightarrow> length s \<le> m \<Longrightarrow> parseTerms N n d s = parseTerms N m d s"
proof (induction n arbitrary: d s m)
  case 0
  then show ?case by (cases m) auto
next
  case (Suc n)
  show ?case
  proof (cases s)
    case (Cons c cs)
    then obtain m' where m: "m = Suc m'" using Suc.prems by (cases m) auto
    show ?thesis
    proof (cases "parseTerm N s")
      case (Some vr)
      obtain v r where vr: "vr = (v, r)" by fastforce
      have "length r < length s" using parseTerm_shorter Some vr by blast
      then have "parseTerms N n ((d + v) mod 2 ^ 64) r = parseTerms N m' ((d + v) mod 2 ^ 64) r"
        using Suc.prems m by (intro Suc.IH) simp_all
      then show ?thesis using Some vr Cons m by (simp add: Let_def)
    qed (use Cons m in simp)
  qed simp
qed

section \<open>A concrete instance\<close>

text \<open>A \<open>num_env\<close> for concrete inputs: no number has a fraction, and nothing is trimmed or quoted.\<close>

definition plain_num :: num_env where
  "plain_num =
     \<lparr>neParseFloat = \<lambda>s. map_option word_of_int (atoi s), neScale = \<lambda>f n. f * word_of_nat n, neFrac = \<lambda>f k unit. f * unit div 10 ^ k,
      neTrimSpace = \<lambda>s. s, neQuote = \<lambda>s. s\<rparr>"

end
