(* ===== verification/LabelsApi.thy ===== *)
theory LabelsApi
  imports Prelude "HOL-Library.Product_Lexorder"
begin

text \<open>
  The Prometheus packages \<open>model/labels\<close> and \<open>storage\<close> are not part of the repository. The type
  of label sets is a type variable \<open>'l\<close> and its operations are the fields of a record that every
  definition using them takes as an argument. The documented laws the code relies on are the
  predicate \<open>labels_ok\<close>; the sorted association lists at the end of the theory satisfy it and
  serve as the concrete instance in the witnesses.
\<close>

section \<open>The operations\<close>

record 'l labels_api =
  lget :: "'l \<Rightarrow> string \<Rightarrow> string"                        \<comment> \<open>\<open>Labels.Get\<close>\<close>
  lrange :: "'l \<Rightarrow> (string \<times> string) list"                \<comment> \<open>the calls made by \<open>Labels.Range\<close>, in order\<close>
  lequal :: "'l \<Rightarrow> 'l \<Rightarrow> bool"                             \<comment> \<open>\<open>labels.Equal\<close>\<close>
  lhash :: "'l \<Rightarrow> u64"                                    \<comment> \<open>\<open>Labels.Hash\<close>\<close>
  lcompare :: "'l \<Rightarrow> 'l \<Rightarrow> int"                            \<comment> \<open>\<open>labels.Compare\<close>\<close>
  lempty :: "'l"                                          \<comment> \<open>\<open>labels.EmptyLabels\<close>\<close>
  lbuild :: "'l \<Rightarrow> (string \<times> string) list \<Rightarrow> 'l"          \<comment> \<open>\<open>NewBuilder\<close>, one \<open>Set\<close> per pair, \<open>Labels\<close>\<close>
  lscratch :: "(string \<times> string) list \<Rightarrow> 'l"              \<comment> \<open>\<open>NewScratchBuilder\<close>, one \<open>Add\<close> per pair, \<open>Labels\<close>\<close>

text \<open>A matcher is opaque but for the name and the predicate \<open>Matches\<close>, which the code calls.\<close>

datatype match_type = MatchEqual | MatchNotEqual | MatchRegexp | MatchNotRegexp

record matcher =
  mType :: match_type
  mName :: string
  mValue :: string
  mMatches :: "string \<Rightarrow> bool"

section \<open>The documented laws\<close>

text \<open>
  \<open>Set\<close> with an empty value deletes the label; a later \<open>Set\<close> of a name replaces an earlier one.
\<close>

definition set_label :: "(string \<rightharpoonup> string) \<Rightarrow> string \<times> string \<Rightarrow> (string \<rightharpoonup> string)" where
  "set_label m kv = (if snd kv = '''' then m(fst kv := None) else m(fst kv \<mapsto> snd kv))"

definition label_map :: "'l labels_api \<Rightarrow> 'l \<Rightarrow> string \<rightharpoonup> string" where
  "label_map L l = map_of (lrange L l)"

definition labels_ok :: "'l labels_api \<Rightarrow> bool" where
  "labels_ok L \<longleftrightarrow>
     (\<forall>l n. lget L l n = (case label_map L l n of None \<Rightarrow> '''' | Some v \<Rightarrow> v)) \<and>
     (\<forall>a b. lequal L a b \<longleftrightarrow> lrange L a = lrange L b) \<and>
     (\<forall>a b. lrange L a = lrange L b \<longrightarrow> lhash L a = lhash L b) \<and>
     (\<forall>a b. lcompare L a b < 0 \<longleftrightarrow> lrange L a < lrange L b) \<and>
     lrange L (lempty L) = [] \<and>
     (\<forall>l kvs. distinct (map fst (lrange L l)) \<longrightarrow> distinct (map fst (lrange L (lbuild L l kvs)))) \<and>
     (\<forall>l kvs. distinct (map fst (lrange L l)) \<longrightarrow>
        label_map L (lbuild L l kvs) = foldl set_label (label_map L l) kvs) \<and>
     (\<forall>kvs. lrange L (lscratch L kvs) = kvs)"

text \<open>The laws one at a time, for use with a hypothesis \<open>labels_ok L\<close>.\<close>

lemma lget_law: "labels_ok L \<Longrightarrow> lget L l n = (case label_map L l n of None \<Rightarrow> '''' | Some v \<Rightarrow> v)"
  by (simp add: labels_ok_def)

lemma lequal_law: "labels_ok L \<Longrightarrow> lequal L a b \<longleftrightarrow> lrange L a = lrange L b"
  by (simp add: labels_ok_def)

lemma lhash_law: "labels_ok L \<Longrightarrow> lequal L a b \<Longrightarrow> lhash L a = lhash L b"
  unfolding labels_ok_def by blast

lemma lcompare_law: "labels_ok L \<Longrightarrow> lcompare L a b < 0 \<longleftrightarrow> lrange L a < lrange L b"
  unfolding labels_ok_def by blast

lemma lempty_law: "labels_ok L \<Longrightarrow> lrange L (lempty L) = []"
  by (simp add: labels_ok_def)

lemma lbuild_distinct_law:
  "labels_ok L \<Longrightarrow> distinct (map fst (lrange L l)) \<Longrightarrow> distinct (map fst (lrange L (lbuild L l kvs)))"
  by (simp add: labels_ok_def)

lemma lbuild_law:
  "labels_ok L \<Longrightarrow> distinct (map fst (lrange L l)) \<Longrightarrow>
   label_map L (lbuild L l kvs) = foldl set_label (label_map L l) kvs"
  by (simp add: labels_ok_def)

lemma lscratch_law: "labels_ok L \<Longrightarrow> lrange L (lscratch L kvs) = kvs"
  by (simp add: labels_ok_def)

lemmas labels_laws =
  lget_law lequal_law lcompare_law lempty_law lbuild_distinct_law lbuild_law lscratch_law

lemma lequal_refl: "labels_ok L \<Longrightarrow> lequal L a a"
  by (simp add: lequal_law)

lemma lequal_sym: "labels_ok L \<Longrightarrow> lequal L a b \<Longrightarrow> lequal L b a"
  by (simp add: lequal_law)

lemma lequal_trans: "labels_ok L \<Longrightarrow> lequal L a b \<Longrightarrow> lequal L b c \<Longrightarrow> lequal L a c"
  by (simp add: lequal_law)

lemma lequal_cong: "labels_ok L \<Longrightarrow> lequal L a b \<Longrightarrow> lequal L a c \<longleftrightarrow> lequal L b c"
  by (simp add: lequal_law)

lemma lget_nonempty:
  "labels_ok L \<Longrightarrow> lget L l n \<noteq> '''' \<Longrightarrow> label_map L l n = Some (lget L l n)"
  by (simp add: lget_law split: option.splits)

text \<open>The order used by \<open>sort.Slice\<close> over series.\<close>

definition label_less :: "'l labels_api \<Rightarrow> 'l \<Rightarrow> 'l \<Rightarrow> bool" where
  "label_less L a b \<longleftrightarrow> lcompare L a b < 0"

lemma strict_weak_label_less: "labels_ok L \<Longrightarrow> strict_weak (label_less L)"
  by (auto simp: label_less_def lcompare_law strict_weak_def)

section \<open>Sorted association lists as label sets\<close>

definition put_label :: "(string \<times> string) list \<Rightarrow> string \<times> string \<Rightarrow> (string \<times> string) list" where
  "put_label l kv =
     (let rest = filter (\<lambda>p. fst p \<noteq> fst kv) l
      in if snd kv = '''' then rest else insort_key fst kv rest)"

definition list_labels :: "((string \<times> string) list \<Rightarrow> u64) \<Rightarrow> (string \<times> string) list labels_api" where
  "list_labels h =
     \<lparr> lget = (\<lambda>l n. case map_of l n of None \<Rightarrow> '''' | Some v \<Rightarrow> v),
       lrange = (\<lambda>l. l),
       lequal = (\<lambda>a b. a = b),
       lhash = h,
       lcompare = (\<lambda>a b. if a < b then -1 else if a = b then 0 else 1),
       lempty = [],
       lbuild = foldl put_label,
       lscratch = (\<lambda>kvs. kvs) \<rparr>"

text \<open>A simple hash for the witnesses.\<close>

definition poly_hash :: "(string \<times> string) list \<Rightarrow> u64" where
  "poly_hash l = foldl (\<lambda>a c. a * 31 + word_of_nat (of_char c)) 7 (concat (map (\<lambda>(n, v). n @ v) l))"

lemma map_of_insort_key:
  "fst kv \<notin> fst ` set l \<Longrightarrow> map_of (insort_key fst kv l) = (map_of l)(fst kv \<mapsto> snd kv)"
  by (induction l) (auto simp: fun_eq_iff)

lemma map_of_filter_neq: "map_of (filter (\<lambda>p. fst p \<noteq> n) l) = (map_of l)(n := None)"
  by (induction l) (auto simp: fun_eq_iff)

lemma map_of_put_label: "map_of (put_label l kv) = set_label (map_of l) kv"
proof -
  have "fst kv \<notin> fst ` set (filter (\<lambda>p. fst p \<noteq> fst kv) l)" by auto
  from map_of_insort_key [OF this] show ?thesis
    by (simp add: put_label_def set_label_def Let_def map_of_filter_neq)
qed

lemma distinct_insort_key_fst:
  "distinct (map fst (insort_key fst kv l)) \<longleftrightarrow> fst kv \<notin> fst ` set l \<and> distinct (map fst l)"
  by (induction l) (auto simp: set_insort_key)

lemma distinct_put_label: "distinct (map fst l) \<Longrightarrow> distinct (map fst (put_label l kv))"
proof -
  assume "distinct (map fst l)"
  then have "distinct (map fst (filter (\<lambda>p. fst p \<noteq> fst kv) l))"
    by (induction l) auto
  then show ?thesis
    by (auto simp: put_label_def Let_def distinct_insort_key_fst)
qed

lemma list_labels_ok: "labels_ok (list_labels h)"
proof -
  have "map_of (foldl put_label l kvs) = foldl set_label (map_of l) kvs" for l kvs
    by (induction kvs arbitrary: l) (simp_all add: map_of_put_label)
  moreover have "distinct (map fst (foldl put_label l kvs))" if "distinct (map fst l)" for l kvs
    using that by (induction kvs arbitrary: l) (simp_all add: distinct_put_label)
  ultimately show ?thesis by (simp add: labels_ok_def list_labels_def label_map_def)
qed

end
