(* ===== verification/StoreApi.thy ===== *)
theory StoreApi
  imports LabelsApi
begin

text \<open>
  \<open>internal/store/interfaces.go\<close>: the data exchanged between the stores and their clients, and
  the two interfaces the clients use. \<open>SeriesSet\<close> and \<open>Appender\<close> are locales: their \<open>fixes\<close> are the
  methods the clients call, their \<open>assumes\<close> the laws the providers keep. The locales are
  interpreted in the theories of the providers.
\<close>

section \<open>Samples and series\<close>

record sample =
  sT :: i64
  sV :: f64

record 'l series =
  srLabels :: "'l"
  srSamples :: "sample list"

text \<open>A Go \<open>error\<close>: \<open>None\<close> is \<open>nil\<close>.\<close>

type_synonym err = "string option"

section \<open>The \<open>SeriesSet\<close> interface\<close>

text \<open>
  \<open>for ss.Next() { ... ss.At() ... }\<close> collects a series set. The loop need not end for an
  arbitrary implementation, and \<open>At\<close> may panic, so the result is an option.
\<close>

partial_function (option) drain :: "('s \<Rightarrow> bool \<times> 's) \<Rightarrow> ('s \<Rightarrow> 'x option) \<Rightarrow> 's \<Rightarrow> 'x list option" where
  "drain nxt at s =
     (if fst (nxt s) then
        Option.bind (at (snd (nxt s)))
          (\<lambda>x. Option.bind (drain nxt at (snd (nxt s))) (\<lambda>xs. Some (x # xs)))
      else Some [])"

locale series_set =
  fixes nxt :: "'s \<Rightarrow> bool \<times> 's"
    and at :: "'s \<Rightarrow> 'x option"
    and rest :: "'s \<Rightarrow> 'x list"
    and inv :: "'s \<Rightarrow> bool"
  assumes next_end: "inv s \<Longrightarrow> rest s = [] \<Longrightarrow> \<not> fst (nxt s)"
    and next_more: "inv s \<Longrightarrow> rest s = x # xs \<Longrightarrow>
      fst (nxt s) \<and> at (snd (nxt s)) = Some x \<and> rest (snd (nxt s)) = xs"
    and next_inv: "inv s \<Longrightarrow> inv (snd (nxt s))"
begin

lemma drain_rest: "inv s \<Longrightarrow> drain nxt at s = Some (rest s)"
proof (induction "rest s" arbitrary: s)
  case Nil
  then show ?case by (simp add: drain.simps [of nxt at s] next_end)
next
  case (Cons x xs)
  from next_more [OF Cons.prems Cons.hyps(2) [symmetric]]
  have "fst (nxt s)" "at (snd (nxt s)) = Some x" "rest (snd (nxt s)) = xs" by blast+
  moreover from this Cons.hyps(1) [of "snd (nxt s)"] next_inv [OF Cons.prems]
  have "drain nxt at (snd (nxt s)) = Some xs" by simp
  ultimately show ?case using Cons.hyps(2) [symmetric] by (simp add: drain.simps [of nxt at s])
qed

end

section \<open>The \<open>Appender\<close> interface\<close>

text \<open>
  The method table of an appender whose state is \<open>'a\<close>. \<open>Append\<close> also takes and returns a series
  reference, which no store of the repository reads and every one returns as 0.
\<close>

record ('a, 'l) appender_ops =
  apAppend :: "'a \<Rightarrow> 'l \<Rightarrow> i64 \<Rightarrow> f64 \<Rightarrow> err \<times> 'a"
  apCommit :: "'a \<Rightarrow> err \<times> 'a"
  apRollback :: "'a \<Rightarrow> err \<times> 'a"

record 'l pendingSample =
  pLabels :: "'l"
  pT :: i64
  pV :: f64

abbreviation pending :: "'l \<Rightarrow> i64 \<Rightarrow> f64 \<Rightarrow> 'l pendingSample" where
  "pending l t v \<equiv> \<lparr>pLabels = l, pT = t, pV = v\<rparr>"

text \<open>Appending a batch stops at the first error.\<close>

fun append_batch :: "('a, 'l) appender_ops \<Rightarrow> 'a \<Rightarrow> 'l pendingSample list \<Rightarrow> err \<times> 'a" where
  "append_batch ops a [] = (None, a)"
| "append_batch ops a (p # ps) =
     (case apAppend ops a (pLabels p) (pT p) (pV p) of
        (Some e, a') \<Rightarrow> (Some e, a')
      | (None, a') \<Rightarrow> append_batch ops a' ps)"

locale appender =
  fixes ops :: "('a, 'l) appender_ops"
    and pend :: "'a \<Rightarrow> 'l pendingSample list"
  assumes append_ok: "fst (apAppend ops a l t v) = None"
    and append_pend: "pend (snd (apAppend ops a l t v)) = pend a @ [pending l t v]"
    and commit_pend: "fst (apCommit ops a) = None \<Longrightarrow> pend (snd (apCommit ops a)) = []"
    and rollback_ok: "fst (apRollback ops a) = None"
    and rollback_pend: "pend (snd (apRollback ops a)) = []"
begin

lemma append_step:
  obtains a' where "apAppend ops a l t v = (None, a')" "pend a' = pend a @ [pending l t v]"
  using append_ok [of a l t v] append_pend [of a l t v] by (metis prod.collapse)

lemma append_batch_ok: "fst (append_batch ops a ps) = None"
proof (induction ps arbitrary: a)
  case (Cons p ps)
  obtain a' where "apAppend ops a (pLabels p) (pT p) (pV p) = (None, a')" by (rule append_step)
  with Cons show ?case by simp
qed simp

lemma append_batch_pend: "pend (snd (append_batch ops a ps)) = pend a @ ps"
proof (induction ps arbitrary: a)
  case (Cons p ps)
  obtain a' where "apAppend ops a (pLabels p) (pT p) (pV p) = (None, a')"
    "pend a' = pend a @ [pending (pLabels p) (pT p) (pV p)]" by (rule append_step)
  with Cons show ?case by simp
qed simp

end

text \<open>
  An appender of a store: besides the batch there is the store itself (with its head and its log),
  which only \<open>Commit\<close> changes.
\<close>

locale store_appender = appender ops pend
  for ops :: "('a, 'l) appender_ops" and pend :: "'a \<Rightarrow> 'l pendingSample list" +
  fixes store :: "'a \<Rightarrow> 's"
  assumes append_store: "store (snd (apAppend ops a l t v)) = store a"
    and rollback_store: "store (snd (apRollback ops a)) = store a"
begin

lemma append_batch_store: "store (snd (append_batch ops a ps)) = store a"
proof (induction ps arbitrary: a)
  case (Cons p ps)
  obtain a' where "apAppend ops a (pLabels p) (pT p) (pV p) = (None, a')" by (rule append_step)
  with Cons append_store [of a "pLabels p" "pT p" "pV p"] show ?case by simp
qed simp

end

section \<open>Selecting and filtering\<close>

text \<open>\<open>matchesAll\<close>, \<open>filterSamples\<close> and \<open>hasOverlap\<close> of memstore.go, shared by all local stores.\<close>

fun matchesAll :: "'l labels_api \<Rightarrow> 'l \<Rightarrow> matcher list \<Rightarrow> bool" where
  "matchesAll L lset [] = True"
| "matchesAll L lset (m # ms) =
     (if \<not> mMatches m (lget L lset (mName m)) then False else matchesAll L lset ms)"

fun filterSamples :: "sample list \<Rightarrow> i64 \<Rightarrow> i64 \<Rightarrow> sample list" where
  "filterSamples [] mint maxt = []"
| "filterSamples (s # ss) mint maxt =
     (if sint (sT s) \<ge> sint mint \<and> sint (sT s) \<le> sint maxt then s # filterSamples ss mint maxt
      else filterSamples ss mint maxt)"

fun hasOverlap :: "sample list \<Rightarrow> i64 \<Rightarrow> i64 \<Rightarrow> bool" where
  "hasOverlap [] mint maxt = False"
| "hasOverlap (s # ss) mint maxt =
     (if sint (sT s) \<ge> sint mint \<and> sint (sT s) \<le> sint maxt then True else hasOverlap ss mint maxt)"

definition in_range :: "i64 \<Rightarrow> i64 \<Rightarrow> sample \<Rightarrow> bool" where
  "in_range mint maxt s \<longleftrightarrow> sint mint \<le> sint (sT s) \<and> sint (sT s) \<le> sint maxt"

lemma filterSamples_filter: "filterSamples ss mint maxt = filter (in_range mint maxt) ss"
  by (induction ss) (auto simp: in_range_def)

lemma hasOverlap_iff: "hasOverlap ss mint maxt \<longleftrightarrow> filterSamples ss mint maxt \<noteq> []"
  by (induction ss) auto

lemma matchesAll_cong:
  "labels_ok L \<Longrightarrow> lequal L a b \<Longrightarrow> matchesAll L a ms \<longleftrightarrow> matchesAll L b ms"
  by (induction ms) (simp_all add: lget_law label_map_def lequal_law)

text \<open>
  What a query over a store promises, as a specification over the map from label sets to the
  samples the store holds: each series of the answer carries exactly the in-range samples of
  its label set, no label set occurs twice, and every matching label set with a sample in range
  is answered.
\<close>

definition select_spec ::
  "'l labels_api \<Rightarrow> matcher list \<Rightarrow> i64 \<Rightarrow> i64 \<Rightarrow> ('l \<Rightarrow> sample list) \<Rightarrow> 'l series list \<Rightarrow> bool" where
  "select_spec L ms mint maxt content R \<longleftrightarrow>
     (\<forall>r \<in> set R. matchesAll L (srLabels r) ms \<and> srSamples r \<noteq> [] \<and>
        srSamples r = filter (in_range mint maxt) (content (srLabels r))) \<and>
     distinct (map (\<lambda>r. lrange L (srLabels r)) R) \<and>
     (\<forall>l. matchesAll L l ms \<longrightarrow> filter (in_range mint maxt) (content l) \<noteq> [] \<longrightarrow>
        (\<exists>r \<in> set R. lequal L (srLabels r) l))"

lemma select_spec_perm:
  assumes "mset R' = mset R" and "select_spec L ms mint maxt content R"
  shows "select_spec L ms mint maxt content R'"
proof -
  have sets: "set R' = set R" using assms(1) by (metis set_mset_mset)
  have "mset (map (\<lambda>r. lrange L (srLabels r)) R') = mset (map (\<lambda>r. lrange L (srLabels r)) R)"
    using assms(1) by simp
  then have "distinct (map (\<lambda>r. lrange L (srLabels r)) R') \<longleftrightarrow> distinct (map (\<lambda>r. lrange L (srLabels r)) R)"
    by (rule mset_eq_imp_distinct_iff)
  with assms(2) show ?thesis unfolding select_spec_def sets by blast
qed

text \<open>The order in which \<open>Select\<close> sorts, and the sortedness it gives.\<close>

definition series_less :: "'l labels_api \<Rightarrow> 'l series \<Rightarrow> 'l series \<Rightarrow> bool" where
  "series_less L a b \<longleftrightarrow> lcompare L (srLabels a) (srLabels b) < 0"

lemma strict_weak_series_less: "labels_ok L \<Longrightarrow> strict_weak (series_less L)"
  by (auto simp: series_less_def lcompare_law strict_weak_def)

lemma sorted_series:
  "labels_ok L \<Longrightarrow> is_sort (series_less L) srt \<Longrightarrow> sorted (map (\<lambda>r. lrange L (srLabels r)) (srt R))"
  using is_sort_sorted [of "series_less L" srt R]
  by (simp add: sorted_map sorted_wrt_map series_less_def lcompare_law not_less)

end
