(* ===== verification/Sessions.thy ===== *)
theory Sessions
  imports GoTime StoreApi "HOL-Library.Signed_Division"
begin

text \<open>
  \<open>internal/sessions\<close>: the per-session event store. Its database, bbolt, is not part of the
  repository: the operations of its buckets that the code calls are the fields of a record, their
  documented behaviour is the predicate \<open>bbolt_ok\<close>, and sorted association lists are the instance
  of the witnesses. The JSON form of the two stored structs is a codec in the same way.
\<close>

section \<open>Sessions and events\<close>

record session =
  ssID :: string
  ssUserID :: string
  ssModel :: string
  ssCWD :: string
  ssLastEventName :: string
  ssLastToolName :: string
  ssFirstSeen :: time
  ssLastSeen :: time
  ssEventCount :: i64

definition zeroSession :: session where
  "zeroSession =
     \<lparr>ssID = '''', ssUserID = '''', ssModel = '''', ssCWD = '''', ssLastEventName = '''', ssLastToolName = '''',
      ssFirstSeen = zeroTime, ssLastSeen = zeroTime, ssEventCount = 0\<rparr>"

record event =
  evSessionID :: string
  evName :: string
  evToolName :: string
  evModel :: string
  evTimestamp :: time
  evAttrs :: "string \<rightharpoonup> string"
  evBody :: string

section \<open>The database\<close>

record ('bk, 'r, 'v) bbolt_api =
  bkNew :: 'bk                                                \<comment> \<open>an empty bucket\<close>
  bkGet :: "'bk \<Rightarrow> byte list \<Rightarrow> 'v option"                    \<comment> \<open>\<open>Bucket.Get\<close>\<close>
  bkPut :: "'bk \<Rightarrow> byte list \<Rightarrow> 'v \<Rightarrow> string + 'bk"             \<comment> \<open>\<open>Bucket.Put\<close>\<close>
  bkDelete :: "'bk \<Rightarrow> byte list \<Rightarrow> string + 'bk"               \<comment> \<open>\<open>Bucket.Delete\<close>, \<open>Cursor.Delete\<close>\<close>
  bkPairs :: "'bk \<Rightarrow> (byte list \<times> 'v) list"                 \<comment> \<open>the order of \<open>ForEach\<close> and of cursors\<close>
  ntNew :: 'r                                                 \<comment> \<open>a bucket without nested buckets\<close>
  ntBucket :: "'r \<Rightarrow> byte list \<Rightarrow> 'bk option"                 \<comment> \<open>\<open>Bucket.Bucket\<close>\<close>
  ntCreate :: "'r \<Rightarrow> byte list \<Rightarrow> string + 'r"                \<comment> \<open>\<open>CreateBucketIfNotExists\<close>\<close>
  ntStore :: "'r \<Rightarrow> byte list \<Rightarrow> 'bk \<Rightarrow> 'r"                   \<comment> \<open>the effect of writes to a nested bucket\<close>
  ntDelete :: "'r \<Rightarrow> byte list \<Rightarrow> string + 'r"                \<comment> \<open>\<open>DeleteBucket\<close>\<close>

definition bbolt_ok :: "('bk, 'r, 'v) bbolt_api \<Rightarrow> bool" where
  "bbolt_ok B \<longleftrightarrow>
     bkPairs B (bkNew B) = [] \<and>
     (\<forall>b. keys_sorted (bkPairs B b)) \<and>
     (\<forall>b k. bkGet B b k = map_of (bkPairs B b) k) \<and>
     (\<forall>b k v b'. bkPut B b k v = Inr b' \<longrightarrow> map_of (bkPairs B b') = (map_of (bkPairs B b))(k \<mapsto> v)) \<and>
     (\<forall>b k b'. bkDelete B b k = Inr b' \<longrightarrow> map_of (bkPairs B b') = (map_of (bkPairs B b))(k := None)) \<and>
     (\<forall>k. ntBucket B (ntNew B) k = None) \<and>
     (\<forall>r k r'. ntCreate B r k = Inr r' \<longrightarrow>
        (\<exists>b. ntBucket B r' = (ntBucket B r)(k \<mapsto> b) \<and>
           (case ntBucket B r k of None \<Rightarrow> bkPairs B b = [] | Some b0 \<Rightarrow> b = b0))) \<and>
     (\<forall>r k b. ntBucket B (ntStore B r k b) = (ntBucket B r)(k \<mapsto> b)) \<and>
     (\<forall>r k r'. ntDelete B r k = Inr r' \<longrightarrow> ntBucket B r' = (ntBucket B r)(k := None))"

text \<open>The two buckets of the file.\<close>

record ('bk, 'r) sessDb =
  dbSessions :: 'bk
  dbEvents :: 'r

text \<open>\<open>json.Marshal\<close> and \<open>json.Unmarshal\<close> on the two structs; \<open>None\<close> is an error.\<close>

record 'v session_codec =
  scMarshalSession :: "session \<Rightarrow> 'v option"
  scUnmarshalSession :: "'v \<Rightarrow> session option"
  scMarshalEvent :: "event \<Rightarrow> 'v option"
  scUnmarshalEvent :: "'v \<Rightarrow> event option"

text \<open>
  The transactions of \<open>db.Update\<close>: an error of the function, or of the final write (an argument),
  rolls everything back.
\<close>

definition txUpdate :: "err \<Rightarrow> ('d \<Rightarrow> string + 'd) \<Rightarrow> 'd \<Rightarrow> err \<times> 'd" where
  "txUpdate commit f db =
     (case f db of
        Inl e \<Rightarrow> (Some e, db)
      | Inr db' \<Rightarrow> (case commit of Some e \<Rightarrow> (Some e, db) | None \<Rightarrow> (None, db')))"

section \<open>The store\<close>

record bboltConfig =
  bcPath :: string
  bcRetention :: int
  bcMaxEventsPerSession :: int
  bcRetentionInterval :: int

record ('bk, 'r) bboltStore =
  bsDb :: "('bk, 'r) sessDb"
  bsRetention :: int
  bsMaxEvents :: int
  bsInterval :: "int option"        \<comment> \<open>the period of the retention loop, when it runs\<close>
  bsClosed :: bool

definition retentionInterval :: "bboltConfig \<Rightarrow> int" where
  "retentionInterval cfg =
     (if bcRetentionInterval cfg \<le> 0 then max (min (bcRetention cfg sdiv 10) (5 * 60 * 10 ^ 9)) (60 * 10 ^ 9)
      else bcRetentionInterval cfg)"

text \<open>
  \<open>db\<close> is the content of the file, \<open>None\<close> when it has no buckets yet; \<open>openErr\<close> and \<open>initErr\<close> are
  the outcomes of opening it and of the transaction that creates the buckets.
\<close>

definition newBBoltStore ::
  "('bk, 'r, 'v) bbolt_api \<Rightarrow> err \<Rightarrow> err \<Rightarrow> bboltConfig \<Rightarrow> ('bk, 'r) sessDb option \<Rightarrow> string + ('bk, 'r) bboltStore" where
  "newBBoltStore B openErr initErr cfg db =
     (if bcPath cfg = '''' then Inl ''bbolt store: path must not be empty''
      else if bcMaxEventsPerSession cfg \<le> 0 then Inl ''bbolt store: max_events_per_session must be positive''
      else case openErr of
        Some e \<Rightarrow> Inl (''opening bbolt at '' @ bcPath cfg @ '': '' @ e)
      | None \<Rightarrow>
          (case initErr of
             Some e \<Rightarrow> Inl (''initializing buckets: '' @ e)
           | None \<Rightarrow> Inr
               \<lparr>bsDb = (case db of Some d \<Rightarrow> d | None \<Rightarrow> \<lparr>dbSessions = bkNew B, dbEvents = ntNew B\<rparr>),
                bsRetention = bcRetention cfg, bsMaxEvents = bcMaxEventsPerSession cfg,
                bsInterval = (if bcRetention cfg > 0 then Some (retentionInterval cfg) else None),
                bsClosed = False\<rparr>))"

text \<open>Closing is idempotent; the retention loop stops.\<close>

definition closeStore :: "err \<Rightarrow> ('bk, 'r) bboltStore \<Rightarrow> err \<times> ('bk, 'r) bboltStore" where
  "closeStore closeErr s =
     (if bsClosed s then (None, s) else (closeErr, s\<lparr>bsClosed := True, bsInterval := None\<rparr>))"

subsection \<open>Appending\<close>

text \<open>\<open>UnixNano\<close> is an \<open>int64\<close>, converted to \<open>uint64\<close>.\<close>

definition encodeTS :: "time \<Rightarrow> byte list" where
  "encodeTS t = be_bytes 8 (unat (word_of_int t :: u64))"

definition attr :: "event \<Rightarrow> string \<Rightarrow> string" where
  "attr evt k = (case evAttrs evt k of None \<Rightarrow> '''' | Some v \<Rightarrow> v)"

definition bumpSession :: "event \<Rightarrow> session \<Rightarrow> session" where
  "bumpSession evt sess =
     (let sess = (if ssID sess = '''' then sess\<lparr>ssID := evSessionID evt, ssFirstSeen := evTimestamp evt\<rparr> else sess);
          sess = sess\<lparr>ssLastSeen := evTimestamp evt, ssLastEventName := evName evt\<rparr>;
          sess = (if evToolName evt \<noteq> '''' then sess\<lparr>ssLastToolName := evToolName evt\<rparr> else sess);
          sess = (if evModel evt \<noteq> '''' then sess\<lparr>ssModel := evModel evt\<rparr> else sess);
          sess = (if attr evt ''cwd'' \<noteq> '''' then sess\<lparr>ssCWD := attr evt ''cwd''\<rparr> else sess);
          sess = (if attr evt ''user.id'' \<noteq> '''' then sess\<lparr>ssUserID := attr evt ''user.id''\<rparr> else sess)
      in sess\<lparr>ssEventCount := ssEventCount sess + 1\<rparr>)"

fun deleteFirst :: "('bk, 'r, 'v) bbolt_api \<Rightarrow> nat \<Rightarrow> 'bk \<Rightarrow> string + 'bk" where
  "deleteFirst B 0 eb = Inr eb"
| "deleteFirst B (Suc n) eb =
     (case bkPairs B eb of
        [] \<Rightarrow> Inr eb
      | (k, _) # _ \<Rightarrow> sbind (bkDelete B eb k) (deleteFirst B n))"

definition enforceBound :: "('bk, 'r, 'v) bbolt_api \<Rightarrow> int \<Rightarrow> 'bk \<Rightarrow> string + 'bk" where
  "enforceBound B maxEvents eb =
     (let excess = int (length (bkPairs B eb)) - maxEvents
      in if excess \<le> 0 then Inr eb else deleteFirst B (nat excess) eb)"

definition orElse :: "string \<Rightarrow> 'x option \<Rightarrow> string + 'x" where
  "orElse e x = (case x of None \<Rightarrow> Inl e | Some x \<Rightarrow> Inr x)"

definition loadSession ::
  "('bk, 'r, 'v) bbolt_api \<Rightarrow> 'v session_codec \<Rightarrow> string \<Rightarrow> ('bk, 'r) sessDb \<Rightarrow> string + session" where
  "loadSession B C sid db =
     (case bkGet B (dbSessions db) (string_bytes sid) of
        None \<Rightarrow> Inr zeroSession
      | Some raw \<Rightarrow> orElse ''decoding existing session'' (scUnmarshalSession C raw))"

definition appendTx ::
  "('bk, 'r, 'v) bbolt_api \<Rightarrow> 'v session_codec \<Rightarrow> int \<Rightarrow> event \<Rightarrow> ('bk, 'r) sessDb \<Rightarrow> string + ('bk, 'r) sessDb" where
  "appendTx B C maxEvents evt db =
     sbind (loadSession B C (evSessionID evt) db) (\<lambda>sess.
     sbind (orElse ''encoding session'' (scMarshalSession C (bumpSession evt sess))) (\<lambda>encSess.
     sbind (bkPut B (dbSessions db) (string_bytes (evSessionID evt)) encSess) (\<lambda>sessions.
     sbind (ntCreate B (dbEvents db) (string_bytes (evSessionID evt))) (\<lambda>events.
     sbind (orElse ''creating events bucket'' (ntBucket B events (string_bytes (evSessionID evt)))) (\<lambda>eb.
     sbind (orElse ''encoding event'' (scMarshalEvent C evt)) (\<lambda>encEvt.
     sbind (bkPut B eb (encodeTS (evTimestamp evt)) encEvt) (\<lambda>eb.
     sbind (enforceBound B maxEvents eb) (\<lambda>eb.
       Inr \<lparr>dbSessions = sessions, dbEvents = ntStore B events (string_bytes (evSessionID evt)) eb\<rparr>))))))))"

text \<open>\<open>now\<close> is the clock, read when the event has no timestamp.\<close>

definition stamped :: "time \<Rightarrow> event \<Rightarrow> event" where
  "stamped now evt = (if evTimestamp evt = zeroTime then evt\<lparr>evTimestamp := now\<rparr> else evt)"

definition appendEvent ::
  "('bk, 'r, 'v) bbolt_api \<Rightarrow> 'v session_codec \<Rightarrow> int \<Rightarrow> time \<Rightarrow> err \<Rightarrow> event \<Rightarrow> ('bk, 'r) sessDb \<Rightarrow>
     err \<times> ('bk, 'r) sessDb" where
  "appendEvent B C maxEvents now commit evt db =
     (if evSessionID evt = '''' then (Some ''event session id must not be empty'', db)
      else txUpdate commit (appendTx B C maxEvents (stamped now evt)) db)"

subsection \<open>Reading\<close>

definition getSession ::
  "('bk, 'r, 'v) bbolt_api \<Rightarrow> 'v session_codec \<Rightarrow> string \<Rightarrow> ('bk, 'r) sessDb \<Rightarrow> string + session" where
  "getSession B C sid db =
     (case bkGet B (dbSessions db) (string_bytes sid) of
        None \<Rightarrow> Inl ''session not found''
      | Some raw \<Rightarrow> orElse ''json'' (scUnmarshalSession C raw))"

fun decodeSessions :: "'v session_codec \<Rightarrow> (byte list \<times> 'v) list \<Rightarrow> string + (byte list \<times> session) list" where
  "decodeSessions C [] = Inr []"
| "decodeSessions C ((k, v) # kvs) =
     sbind (orElse ''json'' (scUnmarshalSession C v)) (\<lambda>sess.
     sbind (decodeSessions C kvs) (\<lambda>rest. Inr ((k, sess) # rest)))"

definition newer :: "session \<Rightarrow> session \<Rightarrow> bool" where
  "newer a b \<longleftrightarrow> ssLastSeen a > ssLastSeen b"

definition listSessions ::
  "('bk, 'r, 'v) bbolt_api \<Rightarrow> 'v session_codec \<Rightarrow> (session list \<Rightarrow> session list) \<Rightarrow> time \<Rightarrow> ('bk, 'r) sessDb \<Rightarrow>
     string + session list" where
  "listSessions B C srt since db =
     sbind (decodeSessions C (bkPairs B (dbSessions db))) (\<lambda>kss.
       Inr (srt (filter (\<lambda>s. \<not> (since \<noteq> zeroTime \<and> ssLastSeen s < since)) (map snd kss))))"

fun collectEvents :: "'v session_codec \<Rightarrow> nat \<Rightarrow> (byte list \<times> 'v) list \<Rightarrow> string + event list" where
  "collectEvents C 0 kvs = Inr []"
| "collectEvents C (Suc n) [] = Inr []"
| "collectEvents C (Suc n) ((k, v) # kvs) =
     sbind (orElse ''json'' (scUnmarshalEvent C v)) (\<lambda>evt.
     sbind (collectEvents C n kvs) (\<lambda>evts. Inr (evt # evts)))"

definition seekKey :: "byte list \<Rightarrow> (byte list \<times> 'v) list \<Rightarrow> (byte list \<times> 'v) list" where
  "seekKey k kvs = dropWhile (\<lambda>kv. fst kv < k) kvs"

definition getEvents ::
  "('bk, 'r, 'v) bbolt_api \<Rightarrow> 'v session_codec \<Rightarrow> string \<Rightarrow> time \<Rightarrow> int \<Rightarrow> ('bk, 'r) sessDb \<Rightarrow> string + event list" where
  "getEvents B C sid since limit db =
     (let limit = (if limit \<le> 0 then 100 else limit)
      in case ntBucket B (dbEvents db) (string_bytes sid) of
           None \<Rightarrow> Inr []
         | Some eb \<Rightarrow>
             collectEvents C (nat limit)
               (if since = zeroTime then bkPairs B eb else seekKey (encodeTS since) (bkPairs B eb)))"

subsection \<open>Retention\<close>

fun deleteSessions ::
  "('bk, 'r, 'v) bbolt_api \<Rightarrow> byte list list \<Rightarrow> ('bk, 'r) sessDb \<Rightarrow> string + ('bk, 'r) sessDb" where
  "deleteSessions B [] db = Inr db"
| "deleteSessions B (k # ks) db =
     sbind (bkDelete B (dbSessions db) k) (\<lambda>sessions.
     sbind (if ntBucket B (dbEvents db) k \<noteq> None then ntDelete B (dbEvents db) k else Inr (dbEvents db)) (\<lambda>events.
       deleteSessions B ks \<lparr>dbSessions = sessions, dbEvents = events\<rparr>))"

definition retentionTx ::
  "('bk, 'r, 'v) bbolt_api \<Rightarrow> 'v session_codec \<Rightarrow> time \<Rightarrow> ('bk, 'r) sessDb \<Rightarrow> string + ('bk, 'r) sessDb" where
  "retentionTx B C cutoff db =
     sbind (decodeSessions C (bkPairs B (dbSessions db))) (\<lambda>kss.
       deleteSessions B (map fst (filter (\<lambda>ks. ssLastSeen (snd ks) < cutoff) kss)) db)"

definition runRetentionOnce ::
  "('bk, 'r, 'v) bbolt_api \<Rightarrow> 'v session_codec \<Rightarrow> err \<Rightarrow> int \<Rightarrow> time \<Rightarrow> ('bk, 'r) sessDb \<Rightarrow> err \<times> ('bk, 'r) sessDb" where
  "runRetentionOnce B C commit retention now db = txUpdate commit (retentionTx B C (now - retention)) db"

text \<open>
  What the \<open>select\<close> of \<open>retentionLoop\<close> receives: a tick, with its time and the outcome of the sweep's
  transaction, or the end. A failed sweep is only logged.
\<close>

datatype loopEvent = Tick time err | Stopped

fun retentionLoop ::
  "('bk, 'r, 'v) bbolt_api \<Rightarrow> 'v session_codec \<Rightarrow> int \<Rightarrow> loopEvent list \<Rightarrow> ('bk, 'r) sessDb \<Rightarrow> ('bk, 'r) sessDb" where
  "retentionLoop B C retention [] db = db"
| "retentionLoop B C retention (Stopped # evs) db = db"
| "retentionLoop B C retention (Tick now commit # evs) db =
     retentionLoop B C retention evs (snd (runRetentionOnce B C commit retention now db))"

end
