(* ===== verification/SessionsSpec.thy ===== *)
theory SessionsSpec
  imports Sessions
begin

text \<open>
  What the event store promises: the content of a session's bucket as an ordered list, the effect of
  every operation on it, the invariant of every reachable database, and from these the behaviour of
  whole runs of appends and of the retention sweep.
\<close>

section \<open>Ordered buckets\<close>

text \<open>Putting a pair into its place, over the pair of the same key if there is one.\<close>

definition ins :: "'k::linorder \<Rightarrow> 'v \<Rightarrow> ('k \<times> 'v) list \<Rightarrow> ('k \<times> 'v) list" where
  "ins k v kvs = filter (\<lambda>kv. fst kv < k) kvs @ (k, v) # filter (\<lambda>kv. k < fst kv) kvs"

lemma ins_sorted: "keys_sorted kvs \<Longrightarrow> keys_sorted (ins k v kvs)"
proof (induction kvs)
  case (Cons kv kvs)
  then show ?case by (auto simp: ins_def sorted_wrt_append sorted_wrt_filter sorted_wrt_map intro: less_trans)
qed (simp add: ins_def)

lemma map_of_ins: "map_of (ins k v kvs) = (map_of kvs)(k \<mapsto> v)"
proof
  fix x
  have "map_of (filter (\<lambda>kv. fst kv < k) kvs) x = (if x < k then map_of kvs x else None)"
    "map_of (filter (\<lambda>kv. k < fst kv) kvs) x = (if k < x then map_of kvs x else None)"
    by (induction kvs) auto
  then show "map_of (ins k v kvs) x = ((map_of kvs)(k \<mapsto> v)) x"
    by (auto simp: ins_def map_add_def split: option.split)
qed

lemma ins_last: "\<forall>kv \<in> set kvs. fst kv < k \<Longrightarrow> ins k v kvs = kvs @ [(k, v)]"
proof -
  assume "\<forall>kv \<in> set kvs. fst kv < k"
  then have "filter (\<lambda>kv. fst kv < k) kvs = kvs" "filter (\<lambda>kv. k < fst kv) kvs = []"
    by (auto simp: filter_empty_conv)
  then show ?thesis by (simp add: ins_def)
qed

lemma map_ins: "map (\<lambda>(k, v). (k, f v)) (ins k v kvs) = ins k (f v) (map (\<lambda>(k, v). (k, f v)) kvs)"
  by (simp add: ins_def filter_map comp_def case_prod_beta)

lemma length_ins: "length (ins k v kvs) \<le> Suc (length kvs)"
proof -
  have "length (filter (\<lambda>kv. fst kv < k) kvs) + length (filter (\<lambda>kv. k < fst kv) kvs) \<le> length kvs"
    by (induction kvs) auto
  then show ?thesis by (simp add: ins_def)
qed

lemma set_ins: "set (ins k v kvs) \<subseteq> insert (k, v) (set kvs)"
  by (auto simp: ins_def)

subsection \<open>The laws of the database\<close>

lemma bk_new: "bbolt_ok B \<Longrightarrow> bkPairs B (bkNew B) = []"
  by (simp add: bbolt_ok_def)

lemma bk_sorted: "bbolt_ok B \<Longrightarrow> keys_sorted (bkPairs B b)"
  by (simp add: bbolt_ok_def)

lemma bk_get: "bbolt_ok B \<Longrightarrow> bkGet B b k = map_of (bkPairs B b) k"
  by (simp add: bbolt_ok_def)

lemma bk_put_get: "bbolt_ok B \<Longrightarrow> bkPut B b k v = Inr b' \<Longrightarrow> map_of (bkPairs B b') = (map_of (bkPairs B b))(k \<mapsto> v)"
  unfolding bbolt_ok_def by blast

lemma bk_put: "bbolt_ok B \<Longrightarrow> bkPut B b k v = Inr b' \<Longrightarrow> bkPairs B b' = ins k v (bkPairs B b)"
  by (intro keys_sorted_unique ins_sorted bk_sorted) (simp_all add: map_of_ins bk_put_get)

lemma bk_delete_get:
  "bbolt_ok B \<Longrightarrow> bkDelete B b k = Inr b' \<Longrightarrow> map_of (bkPairs B b') = (map_of (bkPairs B b))(k := None)"
  unfolding bbolt_ok_def by blast

lemma bk_delete_first:
  assumes B: "bbolt_ok B" and b: "bkPairs B b = (k, v) # kvs" and del: "bkDelete B b k = Inr b'"
  shows "bkPairs B b' = kvs"
proof (rule keys_sorted_unique)
  have sorted: "keys_sorted ((k, v) # kvs)" using bk_sorted [OF B, of b] b by simp
  then show "keys_sorted kvs" by simp
  have "map_of kvs k = None" using sorted by (force simp: map_of_eq_None_iff)
  then show "map_of (bkPairs B b') = map_of kvs"
    using bk_delete_get [OF B del] b by (auto simp: fun_eq_iff)
qed (rule bk_sorted [OF B])

lemma deleteFirst_drop:
  assumes B: "bbolt_ok B"
  shows "deleteFirst B n b = Inr b' \<Longrightarrow> bkPairs B b' = drop n (bkPairs B b)"
proof (induction n arbitrary: b)
  case (Suc n)
  show ?case
  proof (cases "bkPairs B b")
    case Nil
    with Suc.prems show ?thesis by simp
  next
    case (Cons kv kvs)
    obtain k v where kv: "kv = (k, v)" by fastforce
    from Suc.prems Cons kv obtain b1 where b1: "bkDelete B b k = Inr b1" "deleteFirst B n b1 = Inr b'"
      by (auto simp: sbind_Inr_iff)
    from Suc.IH [OF b1(2)] bk_delete_first [OF B Cons [unfolded kv] b1(1)] Cons show ?thesis by simp
  qed
qed simp

lemma enforceBound_drop:
  assumes B: "bbolt_ok B" and run: "enforceBound B m b = Inr b'"
  shows "bkPairs B b' = drop (length (bkPairs B b) - nat m) (bkPairs B b)"
proof (cases "int (length (bkPairs B b)) - m \<le> 0")
  case True
  then have "length (bkPairs B b) - nat m = 0" by linarith
  then show ?thesis using True run by (simp add: enforceBound_def Let_def)
next
  case False
  with run have run: "deleteFirst B (nat (int (length (bkPairs B b)) - m)) b = Inr b'"
    by (simp add: enforceBound_def Let_def)
  show ?thesis
  proof (cases "0 \<le> m")
    case True
    then have "nat (int (length (bkPairs B b)) - m) = length (bkPairs B b) - nat m" using False by linarith
    with deleteFirst_drop [OF B run] show ?thesis by simp
  next
    case neg: False
    then have "length (bkPairs B b) \<le> nat (int (length (bkPairs B b)) - m)" by linarith
    with deleteFirst_drop [OF B run] neg show ?thesis by simp
  qed
qed

lemma nt_new: "bbolt_ok B \<Longrightarrow> ntBucket B (ntNew B) k = None"
  by (simp add: bbolt_ok_def)

lemma nt_create:
  assumes "bbolt_ok B" and "ntCreate B r k = Inr r'"
  obtains b where "ntBucket B r' = (ntBucket B r)(k \<mapsto> b)"
    "bkPairs B b = (case ntBucket B r k of None \<Rightarrow> [] | Some b0 \<Rightarrow> bkPairs B b0)"
proof -
  from assms obtain b where "ntBucket B r' = (ntBucket B r)(k \<mapsto> b)"
    "case ntBucket B r k of None \<Rightarrow> bkPairs B b = [] | Some b0 \<Rightarrow> b = b0"
    unfolding bbolt_ok_def by meson
  then show ?thesis by (intro that) (auto split: option.splits)
qed

lemma nt_store: "bbolt_ok B \<Longrightarrow> ntBucket B (ntStore B r k b) = (ntBucket B r)(k \<mapsto> b)"
  by (simp add: bbolt_ok_def)

lemma nt_delete: "bbolt_ok B \<Longrightarrow> ntDelete B r k = Inr r' \<Longrightarrow> ntBucket B r' = (ntBucket B r)(k := None)"
  unfolding bbolt_ok_def by blast

section \<open>What is stored\<close>

definition session_text :: "session \<Rightarrow> string set" where
  "session_text s = {ssID s, ssUserID s, ssModel s, ssCWD s, ssLastEventName s, ssLastToolName s}"

definition event_text :: "event \<Rightarrow> string set" where
  "event_text e = {evSessionID e, evName e, evToolName e, evModel e, evBody e} \<union> dom (evAttrs e) \<union> ran (evAttrs e)"

text \<open>
  Text in \<open>tx\<close> (valid UTF-8; the encoder replaces anything else) survives the round trip through JSON,
  and so do the other fields when they can be encoded at all.
\<close>

definition codec_ok :: "(string \<Rightarrow> bool) \<Rightarrow> 'v session_codec \<Rightarrow> bool" where
  "codec_ok tx C \<longleftrightarrow> tx '''' \<and>
     (\<forall>s v. (\<forall>x \<in> session_text s. tx x) \<longrightarrow> scMarshalSession C s = Some v \<longrightarrow> scUnmarshalSession C v = Some s) \<and>
     (\<forall>e v. (\<forall>x \<in> event_text e. tx x) \<longrightarrow> scMarshalEvent C e = Some v \<longrightarrow> scUnmarshalEvent C v = Some e)"

definition stored_events ::
  "('bk, 'r, 'v) bbolt_api \<Rightarrow> 'v session_codec \<Rightarrow> ('bk, 'r) sessDb \<Rightarrow> byte list \<Rightarrow> (byte list \<times> event option) list" where
  "stored_events B C db k =
     (case ntBucket B (dbEvents db) k of
        None \<Rightarrow> []
      | Some eb \<Rightarrow> map (\<lambda>(k, v). (k, scUnmarshalEvent C v)) (bkPairs B eb))"

definition stored_session ::
  "('bk, 'r, 'v) bbolt_api \<Rightarrow> 'v session_codec \<Rightarrow> ('bk, 'r) sessDb \<Rightarrow> byte list \<Rightarrow> session option option" where
  "stored_session B C db k = map_option (scUnmarshalSession C) (bkGet B (dbSessions db) k)"

lemma orElse_Inr [simp]: "orElse e x = Inr y \<longleftrightarrow> x = Some y"
  by (simp add: orElse_def split: option.split)

lemma txUpdate_None: "txUpdate commit f db = (None, db') \<longleftrightarrow> f db = Inr db' \<and> commit = None"
  by (auto simp: txUpdate_def split: sum.splits option.splits)

lemma txUpdate_cases: "snd (txUpdate commit f db) = db \<or> f db = Inr (snd (txUpdate commit f db))"
  by (simp add: txUpdate_def split: sum.split option.split)

lemma bumpSession_text:
  assumes "\<forall>x \<in> session_text s. tx x" and "\<forall>x \<in> event_text e. tx x"
  shows "\<forall>x \<in> session_text (bumpSession e s). tx x"
proof -
  have attrs: "tx (attr e k) \<or> attr e k = ''''" for k
    using assms(2) by (auto simp: attr_def event_text_def ran_def split: option.split)
  show ?thesis
    using assms attrs [of "''cwd''"] attrs [of "''user.id''"]
    by (auto simp: bumpSession_def session_text_def event_text_def Let_def split: if_splits)
qed

text \<open>One append, on what is stored.\<close>

lemma appendTx_effect:
  assumes B: "bbolt_ok B" and C: "codec_ok tx C" and ev: "\<forall>x \<in> event_text e. tx x"
    and old: "case stored_session B C db (string_bytes (evSessionID e)) of
      Some (Some s) \<Rightarrow> \<forall>x \<in> session_text s. tx x | _ \<Rightarrow> True"
    and run: "appendTx B C m e db = Inr db'"
  defines "k \<equiv> string_bytes (evSessionID e)"
  shows "stored_events B C db' k =
      (let es = ins (encodeTS (evTimestamp e)) (Some e) (stored_events B C db k) in drop (length es - nat m) es)"
    and "k' \<noteq> k \<Longrightarrow> stored_events B C db' k' = stored_events B C db k'"
    and "ntBucket B (dbEvents db') k \<noteq> None"
    and "k' \<noteq> k \<Longrightarrow> ntBucket B (dbEvents db') k' = ntBucket B (dbEvents db) k'"
    and "\<exists>s. (case stored_session B C db k of None \<Rightarrow> s = zeroSession | Some x \<Rightarrow> x = Some s) \<and>
      (\<forall>x \<in> session_text s. tx x) \<and> stored_session B C db' k = Some (Some (bumpSession e s))"
    and "k' \<noteq> k \<Longrightarrow> stored_session B C db' k' = stored_session B C db k'"
proof -
  from run obtain sess enc sb r eb0 ee eb1 eb2 where
    s: "loadSession B C (evSessionID e) db = Inr sess"
    "scMarshalSession C (bumpSession e sess) = Some enc"
    "bkPut B (dbSessions db) k enc = Inr sb"
    and r: "ntCreate B (dbEvents db) k = Inr r" "ntBucket B r k = Some eb0"
    "scMarshalEvent C e = Some ee" "bkPut B eb0 (encodeTS (evTimestamp e)) ee = Inr eb1"
    "enforceBound B m eb1 = Inr eb2"
    and db': "db' = \<lparr>dbSessions = sb, dbEvents = ntStore B r k eb2\<rparr>"
    unfolding appendTx_def k_def [symmetric] by (auto simp: sbind_Inr_iff)
  obtain b where b: "ntBucket B r = (ntBucket B (dbEvents db))(k \<mapsto> b)"
    "bkPairs B b = (case ntBucket B (dbEvents db) k of None \<Rightarrow> [] | Some b0 \<Rightarrow> bkPairs B b0)"
    by (rule nt_create [OF B r(1)])
  have ee: "scUnmarshalEvent C ee = Some e" using C ev r(3) by (simp add: codec_ok_def)
  have pairs: "bkPairs B eb2 = drop (length (bkPairs B eb1) - nat m) (bkPairs B eb1)"
    "bkPairs B eb1 = ins (encodeTS (evTimestamp e)) ee (bkPairs B b)"
    using enforceBound_drop [OF B r(5)] bk_put [OF B r(4)] r(2) b(1) by simp_all
  have "stored_events B C db k = map (\<lambda>(k, v). (k, scUnmarshalEvent C v)) (bkPairs B b)"
    unfolding b(2) by (simp add: stored_events_def split: option.split)
  moreover have "stored_events B C db' k = map (\<lambda>(k, v). (k, scUnmarshalEvent C v)) (bkPairs B eb2)"
    by (simp add: stored_events_def db' nt_store [OF B])
  moreover have "ins (encodeTS (evTimestamp e)) (Some e) (map (\<lambda>(k, v). (k, scUnmarshalEvent C v)) (bkPairs B b)) =
    map (\<lambda>(k, v). (k, scUnmarshalEvent C v)) (ins (encodeTS (evTimestamp e)) ee (bkPairs B b))"
    using map_ins [of "scUnmarshalEvent C" "encodeTS (evTimestamp e)" ee "bkPairs B b"] ee by simp
  ultimately show "stored_events B C db' k =
      (let es = ins (encodeTS (evTimestamp e)) (Some e) (stored_events B C db k) in drop (length es - nat m) es)"
    by (simp add: Let_def pairs drop_map)
  show other: "ntBucket B (dbEvents db') k' = ntBucket B (dbEvents db) k'" if "k' \<noteq> k"
    using that by (simp add: db' nt_store [OF B] b(1))
  then show "stored_events B C db' k' = stored_events B C db k'" if "k' \<noteq> k"
    using that by (simp add: stored_events_def)
  show "ntBucket B (dbEvents db') k \<noteq> None" by (simp add: db' nt_store [OF B])
  have clean: "\<forall>x \<in> session_text sess. tx x"
  proof (cases "bkGet B (dbSessions db) k")
    case None
    then have "sess = zeroSession" using s(1) by (simp add: loadSession_def k_def)
    then show ?thesis using C by (simp add: codec_ok_def session_text_def zeroSession_def)
  next
    case (Some raw)
    then show ?thesis using s(1) old by (simp add: loadSession_def k_def stored_session_def)
  qed
  have "scUnmarshalSession C enc = Some (bumpSession e sess)"
    using C bumpSession_text [OF clean ev] s(2) by (simp add: codec_ok_def)
  moreover have get: "bkGet B sb = (bkGet B (dbSessions db))(k \<mapsto> enc)"
    by (simp add: fun_eq_iff bk_get [OF B] bk_put [OF B s(3)] map_of_ins)
  moreover have "case stored_session B C db k of None \<Rightarrow> sess = zeroSession | Some x \<Rightarrow> x = Some sess"
    using s(1) by (auto simp: stored_session_def loadSession_def k_def split: option.splits)
  ultimately show "\<exists>s. (case stored_session B C db k of None \<Rightarrow> s = zeroSession | Some x \<Rightarrow> x = Some s) \<and>
      (\<forall>x \<in> session_text s. tx x) \<and> stored_session B C db' k = Some (Some (bumpSession e s))"
    using clean by (intro exI [of _ sess]) (simp add: stored_session_def db')
  show "stored_session B C db' k' = stored_session B C db k'" if "k' \<noteq> k"
    using that get by (simp add: stored_session_def db')
qed

section \<open>Runs of appends\<close>

fun appendAll ::
  "('bk, 'r, 'v) bbolt_api \<Rightarrow> 'v session_codec \<Rightarrow> int \<Rightarrow> (time \<times> event) list \<Rightarrow> ('bk, 'r) sessDb \<Rightarrow>
     err \<times> ('bk, 'r) sessDb" where
  "appendAll B C m [] db = (None, db)"
| "appendAll B C m ((now, evt) # es) db =
     (case appendEvent B C m now None evt db of
        (Some e, db') \<Rightarrow> (Some e, db')
      | (None, db') \<Rightarrow> appendAll B C m es db')"

definition clean_session ::
  "(string \<Rightarrow> bool) \<Rightarrow> ('bk, 'r, 'v) bbolt_api \<Rightarrow> 'v session_codec \<Rightarrow> ('bk, 'r) sessDb \<Rightarrow> byte list \<Rightarrow> bool" where
  "clean_session tx B C db k \<longleftrightarrow>
     (case stored_session B C db k of
        None \<Rightarrow> True | Some x \<Rightarrow> \<exists>s. x = Some s \<and> string_bytes (ssID s) = k \<and> (\<forall>x \<in> session_text s. tx x))"

definition push_event :: "nat \<Rightarrow> (byte list \<times> event option) list \<Rightarrow> event \<Rightarrow> (byte list \<times> event option) list" where
  "push_event n es e = (let es' = ins (encodeTS (evTimestamp e)) (Some e) es in drop (length es' - n) es')"

definition bump :: "session option option \<Rightarrow> event \<Rightarrow> session option option" where
  "bump x e = Some (Some (bumpSession e (case x of Some (Some s) \<Rightarrow> s | _ \<Rightarrow> zeroSession)))"

lemma string_bytes_inj [simp]: "string_bytes s = string_bytes t \<longleftrightarrow> s = t"
  by (metis bytes_string_bytes)

lemma stamped_simps [simp]: "evSessionID (stamped now e) = evSessionID e" "event_text (stamped now e) = event_text e"
  by (simp_all add: stamped_def event_text_def)

lemma bumpSession_id: "ssID (bumpSession e s) = (if ssID s = '''' then evSessionID e else ssID s)"
  by (simp add: bumpSession_def Let_def)

lemma appendEvent_effect:
  assumes B: "bbolt_ok B" and C: "codec_ok tx C" and ev: "\<forall>x \<in> event_text evt. tx x"
    and old: "clean_session tx B C db (string_bytes (evSessionID evt))"
    and run: "appendEvent B C m now commit evt db = (None, db')"
  shows "stored_events B C db' k = (if string_bytes (evSessionID evt) = k
      then push_event (nat m) (stored_events B C db k) (stamped now evt) else stored_events B C db k)"
    and "stored_session B C db' k = (if string_bytes (evSessionID evt) = k
      then bump (stored_session B C db k) (stamped now evt) else stored_session B C db k)"
    and "ntBucket B (dbEvents db') k = None \<longleftrightarrow>
      string_bytes (evSessionID evt) \<noteq> k \<and> ntBucket B (dbEvents db) k = None"
    and "clean_session tx B C db k \<Longrightarrow> clean_session tx B C db' k"
proof -
  let ?e = "stamped now evt"
  have tx: "appendTx B C m ?e db = Inr db'" and ne: "evSessionID evt \<noteq> ''''"
    using run by (auto simp: appendEvent_def txUpdate_None split: if_splits)
  have old': "case stored_session B C db (string_bytes (evSessionID ?e)) of
      Some (Some s) \<Rightarrow> \<forall>x \<in> session_text s. tx x | _ \<Rightarrow> True"
    using old by (auto simp: clean_session_def split: option.splits)
  have ev': "\<forall>x \<in> event_text ?e. tx x" using ev by simp
  note eff = appendTx_effect [OF B C ev' old' tx]
  show "stored_events B C db' k = (if string_bytes (evSessionID evt) = k
      then push_event (nat m) (stored_events B C db k) ?e else stored_events B C db k)"
    using eff(1) eff(2) [of k] by (auto simp: push_event_def)
  obtain s where s: "case stored_session B C db (string_bytes (evSessionID evt)) of None \<Rightarrow> s = zeroSession | Some x \<Rightarrow> x = Some s"
    "\<forall>x \<in> session_text s. tx x" "stored_session B C db' (string_bytes (evSessionID evt)) = Some (Some (bumpSession ?e s))"
    using eff(5) by auto
  then show "stored_session B C db' k = (if string_bytes (evSessionID evt) = k
      then bump (stored_session B C db k) ?e else stored_session B C db k)"
    using eff(6) [of k] by (auto simp: bump_def split: option.splits)
  show "ntBucket B (dbEvents db') k = None \<longleftrightarrow>
      string_bytes (evSessionID evt) \<noteq> k \<and> ntBucket B (dbEvents db) k = None"
    by (cases "string_bytes (evSessionID evt) = k") (use eff(3) eff(4) [of k] in auto)
  show "clean_session tx B C db' k" if "clean_session tx B C db k"
  proof (cases "string_bytes (evSessionID evt) = k")
    case True
    have "ssID s = '''' \<or> ssID s = evSessionID evt"
      using s(1) old by (auto simp: clean_session_def zeroSession_def split: option.splits)
    with s True bumpSession_text [OF s(2) ev'] show ?thesis
      by (auto simp: clean_session_def bumpSession_id)
  next
    case False
    with that eff(6) [of k] show ?thesis by (simp add: clean_session_def)
  qed
qed

lemma appendAll_effect:
  assumes B: "bbolt_ok B" and C: "codec_ok tx C"
  shows "\<forall>(n, e) \<in> set es. \<forall>x \<in> event_text e. tx x \<Longrightarrow> \<forall>k. clean_session tx B C db k \<Longrightarrow>
    appendAll B C m es db = (None, db') \<Longrightarrow>
    stored_events B C db' (string_bytes sid) =
      foldl (push_event (nat m)) (stored_events B C db (string_bytes sid))
        (filter (\<lambda>e. evSessionID e = sid) (map (\<lambda>(n, e). stamped n e) es)) \<and>
    stored_session B C db' (string_bytes sid) =
      foldl bump (stored_session B C db (string_bytes sid))
        (filter (\<lambda>e. evSessionID e = sid) (map (\<lambda>(n, e). stamped n e) es)) \<and>
    (\<forall>(n, e) \<in> set es. evSessionID e \<noteq> '''')"
proof (induction es arbitrary: db)
  case (Cons ne es)
  obtain n e where ne: "ne = (n, e)" by fastforce
  from Cons.prems(3) obtain db1 where db1: "appendEvent B C m n None e db = (None, db1)" "appendAll B C m es db1 = (None, db')"
    by (auto simp: ne split: prod.splits option.splits)
  have ev: "\<forall>x \<in> event_text e. tx x" using Cons.prems(1) ne by simp
  note eff = appendEvent_effect [OF B C ev Cons.prems(2) [THEN spec] db1(1)]
  have id: "evSessionID e \<noteq> ''''" using db1(1) by (auto simp: appendEvent_def)
  have "\<forall>k. clean_session tx B C db1 k" using eff(4) Cons.prems(2) by blast
  with Cons.IH [of db1] Cons.prems(1) db1(2) have IH: "stored_events B C db' (string_bytes sid) =
      foldl (push_event (nat m)) (stored_events B C db1 (string_bytes sid))
        (filter (\<lambda>e. evSessionID e = sid) (map (\<lambda>(n, e). stamped n e) es))"
    "stored_session B C db' (string_bytes sid) =
      foldl bump (stored_session B C db1 (string_bytes sid))
        (filter (\<lambda>e. evSessionID e = sid) (map (\<lambda>(n, e). stamped n e) es))"
    "\<forall>(n, e) \<in> set es. evSessionID e \<noteq> ''''"
    by auto
  then show ?case using eff(1) [of "string_bytes sid"] eff(2) [of "string_bytes sid"] id by (simp add: ne)
qed simp

subsection \<open>Chronological runs\<close>

lemma encodeTS_less:
  assumes "0 \<le> s" "s < 2 ^ 63" "0 \<le> t" "t < 2 ^ 63"
  shows "encodeTS s < encodeTS t \<longleftrightarrow> s < t"
proof -
  have "unat (word_of_int x :: u64) = nat x" if "0 \<le> x" "x < 2 ^ 63" for x
    using that by (simp add: unsigned_of_int take_bit_int_eq_self)
  with assms show ?thesis
    by (auto simp: encodeTS_def be_bytes_mono_iff)
qed

lemma push_events_sorted:
  assumes "sorted_wrt (<) (map evTimestamp es)" and "\<forall>e \<in> set es. 0 \<le> evTimestamp e \<and> evTimestamp e < 2 ^ 63"
  shows "foldl (push_event n) [] es = map (\<lambda>e. (encodeTS (evTimestamp e), Some e)) (drop (length es - n) es)"
  using assms
proof (induction es rule: rev_induct)
  case (snoc e es)
  let ?f = "\<lambda>e. (encodeTS (evTimestamp e), Some e)"
  define D where "D = drop (length es - n) es"
  have IH: "foldl (push_event n) [] es = map ?f D"
    using snoc by (simp add: sorted_wrt_append D_def)
  have "fst kv < encodeTS (evTimestamp e)" if "kv \<in> set (map ?f D)" for kv
    using that snoc.prems by (auto dest!: in_set_dropD simp: sorted_wrt_append encodeTS_less D_def)
  then have "push_event n (map ?f D) e = (let xs = map ?f (D @ [e]) in drop (length xs - n) xs)"
    by (simp add: push_event_def ins_last)
  then have push: "push_event n (map ?f D) e = map ?f (drop (length (D @ [e]) - n) (D @ [e]))"
    by (simp only: Let_def drop_map length_map)
  have "drop (length (D @ [e]) - n) (D @ [e]) = drop (length (es @ [e]) - n) (es @ [e])"
  proof (cases "length es < n")
    case True
    then show ?thesis by (simp add: D_def)
  next
    case False
    then have "D @ [e] = drop (length es - n) (es @ [e])" by (simp add: D_def)
    then show ?thesis using False by (simp only: drop_drop) (simp add: Suc_diff_le)
  qed
  then show ?case by (simp only: foldl_append foldl_Cons foldl_Nil IH push)
qed simp

lemma bumpSession_fields:
  "ssFirstSeen (bumpSession e s) = (if ssID s = '''' then evTimestamp e else ssFirstSeen s)"
  "ssLastSeen (bumpSession e s) = evTimestamp e"
  "ssLastEventName (bumpSession e s) = evName e"
  "ssEventCount (bumpSession e s) = ssEventCount s + 1"
  by (simp_all add: bumpSession_def Let_def)

lemma bump_simps: "bump None e = Some (Some (bumpSession e zeroSession))"
  "bump (Some (Some s)) e = Some (Some (bumpSession e s))"
  by (simp_all add: bump_def)

lemma bump_fields:
  assumes "es \<noteq> []" and "\<forall>e \<in> set es. evSessionID e = sid" and "sid \<noteq> ''''"
  shows "\<exists>s. foldl bump None es = Some (Some s) \<and> ssID s = sid \<and>
    ssFirstSeen s = evTimestamp (hd es) \<and> ssLastSeen s = evTimestamp (last es) \<and>
    ssLastEventName s = evName (last es) \<and> ssEventCount s = word_of_nat (length es)"
  using assms
proof (induction es rule: rev_induct)
  case (snoc e es)
  show ?case
  proof (cases "es = []")
    case True
    with snoc.prems show ?thesis by (simp add: bump_simps bumpSession_fields bumpSession_id zeroSession_def)
  next
    case False
    with snoc obtain s where "foldl bump None es = Some (Some s)" "ssID s = sid"
      "ssFirstSeen s = evTimestamp (hd es)" "ssEventCount s = word_of_nat (length es)" by auto
    with snoc.prems False show ?thesis by (simp add: bump_simps bumpSession_fields bumpSession_id)
  qed
qed simp

lemma collectEvents_take:
  "map snd kvs' = map Some es \<Longrightarrow> kvs' = map (\<lambda>(k, v). (k, scUnmarshalEvent C v)) kvs \<Longrightarrow>
   collectEvents C n kvs = Inr (take n es)"
proof (induction C n kvs arbitrary: kvs' es rule: collectEvents.induct)
  case (3 C n k v kvs)
  then obtain e es' where "es = e # es'" "scUnmarshalEvent C v = Some e"
    "map snd (map (\<lambda>(k, v). (k, scUnmarshalEvent C v)) kvs) = map Some es'"
    by (cases es) auto
  with 3 show ?case by (simp add: orElse_def)
qed auto

lemma getEvents_all:
  assumes "stored_events B C db (string_bytes sid) = map (\<lambda>e. (f e, Some e)) es"
  shows "getEvents B C sid zeroTime limit db = Inr (take (nat (if limit \<le> 0 then 100 else limit)) es)"
proof (cases "ntBucket B (dbEvents db) (string_bytes sid)")
  case None
  with assms show ?thesis by (simp add: getEvents_def stored_events_def)
next
  case (Some eb)
  with assms have "map (\<lambda>(k, v). (k, scUnmarshalEvent C v)) (bkPairs B eb) = map (\<lambda>e. (f e, Some e)) es"
    by (simp add: stored_events_def)
  then have "collectEvents C n (bkPairs B eb) = Inr (take n es)" for n
    by (intro collectEvents_take [OF _ refl]) (simp add: comp_def)
  with Some show ?thesis by (simp add: getEvents_def)
qed

section \<open>Retention and reachable databases\<close>

lemma decodeSessions_Inr:
  "decodeSessions C kvs = Inr kss \<Longrightarrow> map (\<lambda>(k, v). (k, scUnmarshalSession C v)) kvs = map (\<lambda>(k, s). (k, Some s)) kss"
  by (induction C kvs arbitrary: kss rule: decodeSessions.induct) (auto simp: sbind_Inr_iff)

lemma decodeSessions_total:
  "\<forall>(k, v) \<in> set kvs. scUnmarshalSession C v \<noteq> None \<Longrightarrow> \<exists>kss. decodeSessions C kvs = Inr kss"
  by (induction C kvs rule: decodeSessions.induct) (auto simp: orElse_def split: option.split)

text \<open>What has been decoded is what is stored.\<close>

lemma decodeSessions_stored:
  assumes B: "bbolt_ok B" and dec: "decodeSessions C (bkPairs B (dbSessions db)) = Inr kss"
  shows "(k, s) \<in> set kss \<longleftrightarrow> stored_session B C db k = Some (Some s)"
proof -
  let ?kvs = "bkPairs B (dbSessions db)"
  have "distinct (map fst ?kvs)" using bk_sorted [OF B, of "dbSessions db"] by (simp add: strict_sorted_iff)
  then have "stored_session B C db k = Some (Some s) \<longleftrightarrow> (\<exists>v. (k, v) \<in> set ?kvs \<and> scUnmarshalSession C v = Some s)"
    by (auto simp: stored_session_def bk_get [OF B])
  also have "\<dots> \<longleftrightarrow> (k, Some s) \<in> set (map (\<lambda>(k, v). (k, scUnmarshalSession C v)) ?kvs)" by force
  also have "\<dots> \<longleftrightarrow> (k, s) \<in> set kss" by (auto simp: decodeSessions_Inr [OF dec])
  finally show ?thesis by simp
qed

lemma deleteSessions_effect:
  assumes B: "bbolt_ok B"
  shows "deleteSessions B ks db = Inr db' \<Longrightarrow>
    bkGet B (dbSessions db') k = (if k \<in> set ks then None else bkGet B (dbSessions db) k) \<and>
    ntBucket B (dbEvents db') k = (if k \<in> set ks then None else ntBucket B (dbEvents db) k)"
proof (induction ks arbitrary: db)
  case (Cons k0 ks)
  then obtain sb r where step: "bkDelete B (dbSessions db) k0 = Inr sb"
    "(if ntBucket B (dbEvents db) k0 \<noteq> None then ntDelete B (dbEvents db) k0 else Inr (dbEvents db)) = Inr r"
    "deleteSessions B ks \<lparr>dbSessions = sb, dbEvents = r\<rparr> = Inr db'"
    by (auto simp: sbind_Inr_iff)
  have "bkGet B sb k = ((bkGet B (dbSessions db))(k0 := None)) k"
    using bk_delete_get [OF B step(1)] by (simp add: bk_get [OF B])
  moreover have "ntBucket B r k = ((ntBucket B (dbEvents db))(k0 := None)) k"
    using step(2) nt_delete [OF B, of "dbEvents db" k0 r] by (auto split: if_splits)
  ultimately show ?case using Cons.IH [OF step(3)] by auto
qed simp

lemma retentionTx_effect:
  assumes B: "bbolt_ok B" and run: "retentionTx B C cutoff db = Inr db'"
  defines "old \<equiv> \<lambda>k. \<exists>s. stored_session B C db k = Some (Some s) \<and> ssLastSeen s < cutoff"
  shows "stored_session B C db' k = (if old k then None else stored_session B C db k)"
    and "ntBucket B (dbEvents db') k = (if old k then None else ntBucket B (dbEvents db) k)"
proof -
  from run obtain kss where dec: "decodeSessions C (bkPairs B (dbSessions db)) = Inr kss"
    and del: "deleteSessions B (map fst (filter (\<lambda>ks. ssLastSeen (snd ks) < cutoff) kss)) db = Inr db'"
    by (auto simp: retentionTx_def sbind_Inr_iff)
  have "k \<in> set (map fst (filter (\<lambda>ks. ssLastSeen (snd ks) < cutoff) kss)) \<longleftrightarrow> old k"
    using decodeSessions_stored [OF B dec, of k] by (force simp: old_def)
  with deleteSessions_effect [OF B del, of k]
  show "stored_session B C db' k = (if old k then None else stored_session B C db k)"
    and "ntBucket B (dbEvents db') k = (if old k then None else ntBucket B (dbEvents db) k)"
    by (simp_all add: stored_session_def)
qed

text \<open>The databases the running server can have: appends and sweeps in any order, failing or not.\<close>

inductive sess_reach ::
  "('bk, 'r, 'v) bbolt_api \<Rightarrow> 'v session_codec \<Rightarrow> (string \<Rightarrow> bool) \<Rightarrow> int \<Rightarrow> int \<Rightarrow> ('bk, 'r) sessDb \<Rightarrow> bool"
  for B C tx m retention where
  fresh: "newBBoltStore B None None cfg None = Inr s \<Longrightarrow> sess_reach B C tx m retention (bsDb s)"
| append: "sess_reach B C tx m retention db \<Longrightarrow> \<forall>x \<in> event_text evt. tx x \<Longrightarrow>
    sess_reach B C tx m retention (snd (appendEvent B C m now commit evt db))"
| sweep: "sess_reach B C tx m retention db \<Longrightarrow>
    sess_reach B C tx m retention (snd (runRetentionOnce B C commit retention now db))"

definition sess_inv ::
  "('bk, 'r, 'v) bbolt_api \<Rightarrow> 'v session_codec \<Rightarrow> (string \<Rightarrow> bool) \<Rightarrow> int \<Rightarrow> ('bk, 'r) sessDb \<Rightarrow> bool" where
  "sess_inv B C tx m db \<longleftrightarrow>
     (\<forall>k. clean_session tx B C db k \<and>
       (ntBucket B (dbEvents db) k = None \<longleftrightarrow> stored_session B C db k = None) \<and>
       length (stored_events B C db k) \<le> nat m \<and>
       (\<forall>(t, x) \<in> set (stored_events B C db k).
          \<exists>e. x = Some e \<and> t = encodeTS (evTimestamp e) \<and> string_bytes (evSessionID e) = k))"

lemma newBBoltStore_fresh:
  "newBBoltStore B None None cfg None = Inr s \<Longrightarrow>
   bsDb s = \<lparr>dbSessions = bkNew B, dbEvents = ntNew B\<rparr> \<and> bsMaxEvents s = bcMaxEventsPerSession cfg \<and> 0 < bsMaxEvents s"
  by (auto simp: newBBoltStore_def split: if_splits)

lemma fresh_stored:
  assumes B: "bbolt_ok B" and s: "newBBoltStore B None None cfg None = Inr s"
  shows "stored_events B C (bsDb s) k = []" and "stored_session B C (bsDb s) k = None"
    and "ntBucket B (dbEvents (bsDb s)) k = None"
  using newBBoltStore_fresh [OF s]
  by (simp_all add: stored_events_def stored_session_def bk_get [OF B] bk_new [OF B] nt_new [OF B])

lemma sess_inv_append:
  assumes B: "bbolt_ok B" and C: "codec_ok tx C" and inv: "sess_inv B C tx m db"
    and ev: "\<forall>x \<in> event_text evt. tx x"
  shows "sess_inv B C tx m (snd (appendEvent B C m now commit evt db))"
proof (cases "snd (appendEvent B C m now commit evt db) = db")
  case True
  with inv show ?thesis by simp
next
  case False
  then obtain db' where run: "appendEvent B C m now commit evt db = (None, db')"
    by (auto simp: appendEvent_def txUpdate_def split: if_splits sum.splits option.splits)
  have clean: "clean_session tx B C db k" for k using inv by (simp add: sess_inv_def)
  note eff = appendEvent_effect [OF B C ev clean run]
  have "clean_session tx B C db' k \<and>
      (ntBucket B (dbEvents db') k = None \<longleftrightarrow> stored_session B C db' k = None) \<and>
      length (stored_events B C db' k) \<le> nat m \<and>
      (\<forall>(t, x) \<in> set (stored_events B C db' k).
         \<exists>e. x = Some e \<and> t = encodeTS (evTimestamp e) \<and> string_bytes (evSessionID e) = k)" for k
  proof (intro conjI)
    show "clean_session tx B C db' k" by (rule eff(4) [OF clean])
    show "ntBucket B (dbEvents db') k = None \<longleftrightarrow> stored_session B C db' k = None"
      using eff(2,3) [of k] inv by (auto simp: sess_inv_def bump_def)
    show "length (stored_events B C db' k) \<le> nat m"
      using eff(1) [of k] inv by (auto simp: sess_inv_def push_event_def Let_def)
    show "\<forall>(t, x) \<in> set (stored_events B C db' k).
         \<exists>e. x = Some e \<and> t = encodeTS (evTimestamp e) \<and> string_bytes (evSessionID e) = k"
    proof (cases "string_bytes (evSessionID evt) = k")
      case True
      then have "set (stored_events B C db' k) \<subseteq>
          insert (encodeTS (evTimestamp (stamped now evt)), Some (stamped now evt)) (set (stored_events B C db k))"
        using eff(1) [of k] set_ins by (fastforce simp: push_event_def Let_def dest: in_set_dropD)
      then have "\<exists>e. x = Some e \<and> t = encodeTS (evTimestamp e) \<and> string_bytes (evSessionID e) = k"
        if "(t, x) \<in> set (stored_events B C db' k)" for t x
      proof -
        have "(t, x) = (encodeTS (evTimestamp (stamped now evt)), Some (stamped now evt)) \<or> (t, x) \<in> set (stored_events B C db k)"
          using that \<open>set (stored_events B C db' k) \<subseteq> _\<close> by blast
        then show ?thesis
        proof
          assume "(t, x) \<in> set (stored_events B C db k)"
          then show ?thesis using inv by (force simp: sess_inv_def)
        qed (use True in simp)
      qed
      then show ?thesis by blast
    next
      case False
      then show ?thesis using eff(1) [of k] inv by (simp add: sess_inv_def)
    qed
  qed
  with run show ?thesis by (simp add: sess_inv_def)
qed

lemma sess_inv_sweep:
  assumes B: "bbolt_ok B" and inv: "sess_inv B C tx m db"
  shows "sess_inv B C tx m (snd (runRetentionOnce B C commit retention now db))"
proof -
  let ?db = "snd (runRetentionOnce B C commit retention now db)"
  have "?db = db \<or> retentionTx B C (now - retention) db = Inr ?db"
    unfolding runRetentionOnce_def by (rule txUpdate_cases)
  then show ?thesis
  proof
    assume "?db = db"
    with inv show ?thesis by simp
  next
    assume run: "retentionTx B C (now - retention) db = Inr ?db"
    have "clean_session tx B C ?db k \<and>
      (ntBucket B (dbEvents ?db) k = None \<longleftrightarrow> stored_session B C ?db k = None) \<and>
      length (stored_events B C ?db k) \<le> nat m \<and>
      (\<forall>(t, x) \<in> set (stored_events B C ?db k).
         \<exists>e. x = Some e \<and> t = encodeTS (evTimestamp e) \<and> string_bytes (evSessionID e) = k)" for k
    proof (cases "\<exists>s. stored_session B C db k = Some (Some s) \<and> ssLastSeen s < now - retention")
      case True
      then show ?thesis
        using retentionTx_effect [OF B run, of k] by (simp add: clean_session_def stored_events_def)
    next
      case False
      then have "stored_session B C ?db k = stored_session B C db k" "ntBucket B (dbEvents ?db) k = ntBucket B (dbEvents db) k"
        using retentionTx_effect [OF B run, of k] unfolding if_not_P [OF False] by simp_all
      then show ?thesis using inv by (simp add: sess_inv_def clean_session_def stored_events_def)
    qed
    then show ?thesis by (simp add: sess_inv_def)
  qed
qed

lemma sess_reach_inv:
  assumes B: "bbolt_ok B" and C: "codec_ok tx C"
  shows "sess_reach B C tx m retention db \<Longrightarrow> sess_inv B C tx m db"
proof (induction rule: sess_reach.induct)
  case (fresh cfg s)
  then show ?case by (simp add: sess_inv_def fresh_stored [OF B] clean_session_def)
qed (simp_all add: sess_inv_append [OF B C] sess_inv_sweep [OF B])

text \<open>The retention loop, whatever it receives, only leads to reachable databases.\<close>

lemma sess_reach_loop:
  "sess_reach B C tx m retention db \<Longrightarrow> sess_reach B C tx m retention (retentionLoop B C retention evs db)"
  by (induction B C retention evs db rule: retentionLoop.induct) (simp_all add: sess_reach.sweep)

section \<open>Properties\<close>

text \<open>C16: A session's recent events. After any run of successful appends to a new store, among those of
  other sessions, in which the events of a session come in the order of their timestamps, reading
  the session gives its last \<open>max_events_per_session\<close> events in order, cut to the limit of the call.\<close>

theorem sess_recent_events:
  assumes B: "bbolt_ok B" and C: "codec_ok tx C" and new: "newBBoltStore B None None cfg None = Inr s"
    and tx: "\<forall>(now, e) \<in> set es. \<forall>x \<in> event_text e. tx x"
    and run: "appendAll B C (bsMaxEvents s) es (bsDb s) = (None, db)"
    and mine: "mine = filter (\<lambda>e. evSessionID e = sid) (map (\<lambda>(now, e). stamped now e) es)"
    and order: "sorted_wrt (<) (map evTimestamp mine)" "\<forall>e \<in> set mine. 0 \<le> evTimestamp e \<and> evTimestamp e < 2 ^ 63"
  shows "getEvents B C sid zeroTime limit db =
    Inr (take (nat (if limit \<le> 0 then 100 else limit)) (drop (length mine - nat (bcMaxEventsPerSession cfg)) mine))"
proof -
  have clean: "\<forall>k. clean_session tx B C (bsDb s) k" by (simp add: clean_session_def fresh_stored [OF B new])
  have "stored_events B C db (string_bytes sid) = foldl (push_event (nat (bsMaxEvents s))) [] mine"
    using appendAll_effect [OF B C tx clean run, of sid] by (simp add: mine fresh_stored [OF B new])
  then have "stored_events B C db (string_bytes sid) =
      map (\<lambda>e. (encodeTS (evTimestamp e), Some e)) (drop (length mine - nat (bcMaxEventsPerSession cfg)) mine)"
    using push_events_sorted [OF order] newBBoltStore_fresh [OF new] by simp
  then show ?thesis by (rule getEvents_all)
qed



text \<open>C33: A successful retention sweep removes exactly the sessions last seen before the cutoff, with all
  their events, and leaves every other session and its events as they were.\<close>

theorem sess_retention:
  assumes "bbolt_ok B" and "runRetentionOnce B C commit retention now db = (None, db')"
  shows "case getSession B C sid db of
      Inr s \<Rightarrow>
        if ssLastSeen s < now - retention
        then getSession B C sid db' = Inl ''session not found'' \<and> getEvents B C sid since limit db' = Inr []
        else getSession B C sid db' = Inr s \<and> getEvents B C sid since limit db' = getEvents B C sid since limit db
    | Inl e \<Rightarrow> getSession B C sid db' = Inl e \<and> getEvents B C sid since limit db' = getEvents B C sid since limit db"
proof -
  have run: "retentionTx B C (now - retention) db = Inr db'"
    using assms(2) by (simp add: runRetentionOnce_def txUpdate_None)
  note eff = retentionTx_effect [OF assms(1) run, of "string_bytes sid"]
  have get: "getSession B C sid d = (case stored_session B C d (string_bytes sid) of
      None \<Rightarrow> Inl ''session not found'' | Some x \<Rightarrow> orElse ''json'' x)" for d
    by (simp add: getSession_def stored_session_def split: option.split)
  show ?thesis
  proof (cases "\<exists>s. stored_session B C db (string_bytes sid) = Some (Some s) \<and> ssLastSeen s < now - retention")
    case True
    with eff get [of db] get [of db'] show ?thesis by (auto simp: orElse_def getEvents_def)
  next
    case False
    from eff [unfolded if_not_P [OF False]] False get [of db] get [of db'] show ?thesis
      by (auto simp: orElse_def getEvents_def split: sum.split option.splits)
  qed
qed

text \<open>Listing the sessions gives exactly those last seen at or after \<open>since\<close> (all of them for the zero
  time), each once, the most recently seen first.\<close>

theorem sess_list:
  assumes B: "bbolt_ok B" and srt: "is_sort newer srt" and run: "listSessions B C srt since db = Inr ss"
  shows "set ss = {s. (\<exists>k. stored_session B C db k = Some (Some s)) \<and> (since = zeroTime \<or> since \<le> ssLastSeen s)} \<and>
    length ss \<le> length (bkPairs B (dbSessions db)) \<and>
    sorted_wrt (\<lambda>a b. ssLastSeen b \<le> ssLastSeen a) ss"
proof -
  obtain kss where kss: "decodeSessions C (bkPairs B (dbSessions db)) = Inr kss"
    "ss = srt (filter (\<lambda>s. \<not> (since \<noteq> zeroTime \<and> ssLastSeen s < since)) (map snd kss))"
    using run by (auto simp: listSessions_def sbind_Inr_iff)
  have len: "length kss = length (bkPairs B (dbSessions db))"
    using arg_cong [OF decodeSessions_Inr [OF kss(1)], of length] by simp
  have "set ss = {s. (\<exists>k. (k, s) \<in> set kss) \<and> (since = zeroTime \<or> since \<le> ssLastSeen s)}"
    unfolding kss(2) is_sort_set [OF srt] by force
  moreover have "length ss \<le> length kss"
    unfolding kss(2) is_sort_length [OF srt] using length_filter_le [of _ "map snd kss"] by simp
  moreover have "sorted_wrt (\<lambda>a b. ssLastSeen b \<le> ssLastSeen a) ss"
    using is_sort_sorted [OF srt] unfolding kss(2) newer_def not_less .
  ultimately show ?thesis using decodeSessions_stored [OF B kss(1)] len by simp
qed

end
