(* ===== verification/SessionsDemo.thy ===== *)
theory SessionsDemo
  imports SessionsSpec
begin

text \<open>
  An instance of the database (buckets as association lists, read in key order) and of the codec (the
  stored values are the structs themselves), and the properties of the event store on it.
\<close>

definition norm_pairs :: "('k::linorder \<times> 'v) list \<Rightarrow> ('k \<times> 'v) list" where
  "norm_pairs kvs = foldr (\<lambda>(k, v) m. ins k v m) kvs []"

lemma norm_pairs_sorted: "keys_sorted (norm_pairs kvs)"
  unfolding norm_pairs_def by (induction kvs) (auto intro: ins_sorted)

lemma map_of_norm: "map_of (norm_pairs kvs) = map_of kvs"
  unfolding norm_pairs_def by (induction kvs) (auto simp: map_of_ins)

definition alist_bbolt ::
  "((byte list \<times> 'v) list, byte list \<rightharpoonup> (byte list \<times> 'v) list, 'v) bbolt_api" where
  "alist_bbolt =
     \<lparr>bkNew = [], bkGet = map_of, bkPut = (\<lambda>b k v. Inr ((k, v) # b)), bkDelete = (\<lambda>b k. Inr (filter (\<lambda>p. fst p \<noteq> k) b)),
      bkPairs = norm_pairs, ntNew = Map.empty, ntBucket = (\<lambda>r. r),
      ntCreate = (\<lambda>r k. Inr (r(k \<mapsto> case r k of None \<Rightarrow> [] | Some b \<Rightarrow> b))),
      ntStore = (\<lambda>r k b. r(k \<mapsto> b)), ntDelete = (\<lambda>r k. Inr (r(k := None)))\<rparr>"

lemma alist_bbolt_ok: "bbolt_ok alist_bbolt"
proof -
  have "norm_pairs [] = []" by (simp add: norm_pairs_def)
  then show ?thesis
    by (auto simp: bbolt_ok_def alist_bbolt_def norm_pairs_sorted map_of_norm map_of_filter_neq split: option.split)
qed

definition struct_codec :: "(session + event) session_codec" where
  "struct_codec =
     \<lparr>scMarshalSession = (\<lambda>s. Some (Inl s)), scUnmarshalSession = (\<lambda>v. case v of Inl s \<Rightarrow> Some s | Inr _ \<Rightarrow> None),
      scMarshalEvent = (\<lambda>e. Some (Inr e)), scUnmarshalEvent = (\<lambda>v. case v of Inl _ \<Rightarrow> None | Inr e \<Rightarrow> Some e)\<rparr>"

lemma struct_codec_ok: "codec_ok (\<lambda>_. True) struct_codec"
  by (simp add: codec_ok_def struct_codec_def)

definition demo_event :: "string \<Rightarrow> time \<Rightarrow> string \<Rightarrow> event" where
  "demo_event sid t name =
     \<lparr>evSessionID = sid, evName = name, evToolName = '''', evModel = '''', evTimestamp = t, evAttrs = Map.empty, evBody = ''''\<rparr>"

definition demo_bbolt_cfg :: bboltConfig where
  "demo_bbolt_cfg = \<lparr>bcPath = ''db'', bcRetention = 10, bcMaxEventsPerSession = 2, bcRetentionInterval = 0\<rparr>"

definition demo_events :: "(time \<times> event) list" where
  "demo_events = [(0, demo_event ''a'' 5 ''x''), (0, demo_event ''b'' 6 ''y''), (0, demo_event ''a'' 7 ''z''), (0, demo_event ''a'' 9 ''w'')]"

definition demo_sessions where
  "demo_sessions =
     \<lparr>bsDb = \<lparr>dbSessions = bkNew alist_bbolt, dbEvents = ntNew alist_bbolt\<rparr>, bsRetention = 10, bsMaxEvents = 2,
      bsInterval = Some (60 * 10 ^ 9), bsClosed = False\<rparr>"

lemma demo_new: "newBBoltStore alist_bbolt None None demo_bbolt_cfg None = Inr demo_sessions"
  by (simp add: newBBoltStore_def demo_bbolt_cfg_def demo_sessions_def retentionInterval_def)

text \<open>On this instance an append to a readable database cannot fail.\<close>

lemma alist_deleteFirst: "\<exists>b'. deleteFirst alist_bbolt n b = Inr b'"
proof (induction n arbitrary: b)
  case (Suc n)
  have "bkDelete alist_bbolt b k = Inr (filter (\<lambda>p. fst p \<noteq> k) b)" for k by (simp add: alist_bbolt_def)
  with Suc show ?case by (cases "bkPairs alist_bbolt b") auto
qed simp

lemma alist_append:
  assumes "clean_session tx alist_bbolt struct_codec db (string_bytes (evSessionID e))" and "evSessionID e \<noteq> ''''"
  shows "\<exists>db'. appendEvent alist_bbolt struct_codec m now None e db = (None, db')"
proof -
  have "\<exists>s. loadSession alist_bbolt struct_codec (evSessionID e) db = Inr s"
    using assms(1) by (auto simp: loadSession_def clean_session_def stored_session_def orElse_def split: option.splits)
  moreover have "\<exists>b'. enforceBound alist_bbolt m b = Inr b'" for b :: "(byte list \<times> (session + event)) list"
    by (simp add: enforceBound_def Let_def alist_deleteFirst)
  then obtain f where "\<And>b :: (byte list \<times> (session + event)) list. enforceBound alist_bbolt m b = Inr (f b)" by metis
  ultimately have "\<exists>db'. appendTx alist_bbolt struct_codec m (stamped now e) db = Inr db'"
    by (auto simp: appendTx_def sbind_Inr_iff alist_bbolt_def [of] struct_codec_def)
  then show ?thesis using assms(2) by (simp add: appendEvent_def txUpdate_None)
qed

lemma alist_appendAll:
  "\<forall>k. clean_session (\<lambda>_. True) alist_bbolt struct_codec db k \<Longrightarrow> \<forall>(n, e) \<in> set es. evSessionID e \<noteq> '''' \<Longrightarrow>
   \<exists>db'. appendAll alist_bbolt struct_codec m es db = (None, db')"
proof (induction es arbitrary: db)
  case (Cons ne es)
  obtain n e where ne: "ne = (n, e)" by fastforce
  obtain db1 where db1: "appendEvent alist_bbolt struct_codec m n None e db = (None, db1)"
    using alist_append [of "\<lambda>_. True" db e m n] Cons.prems ne by auto
  have "\<forall>k. clean_session (\<lambda>_. True) alist_bbolt struct_codec db1 k"
    using appendEvent_effect(4) [OF alist_bbolt_ok struct_codec_ok _ _ db1] Cons.prems(1) by simp
  from Cons.IH [OF this] Cons.prems(2) db1 show ?case by (simp add: ne)
qed simp

definition demo_db where
  "demo_db = snd (appendAll alist_bbolt struct_codec 2 demo_events (bsDb demo_sessions))"

lemma demo_run: "appendAll alist_bbolt struct_codec (bsMaxEvents demo_sessions) demo_events (bsDb demo_sessions) = (None, demo_db)"
proof -
  have "\<forall>k. clean_session (\<lambda>_. True) alist_bbolt struct_codec (bsDb demo_sessions) k"
    by (simp add: clean_session_def fresh_stored [OF alist_bbolt_ok demo_new])
  then obtain db' where "appendAll alist_bbolt struct_codec (bsMaxEvents demo_sessions) demo_events (bsDb demo_sessions) = (None, db')"
    using alist_appendAll [of "bsDb demo_sessions" demo_events] by (auto simp: demo_events_def demo_event_def)
  then show ?thesis by (simp add: demo_db_def demo_sessions_def)
qed

lemma demo_sess_reach: "sess_reach alist_bbolt struct_codec (\<lambda>_. True) 2 10 demo_db"
proof -
  have "sess_reach alist_bbolt struct_codec (\<lambda>_. True) 2 10 (snd (appendAll alist_bbolt struct_codec 2 es db))"
    if "sess_reach alist_bbolt struct_codec (\<lambda>_. True) 2 10 db" for es db
    using that
  proof (induction es arbitrary: db)
    case (Cons ne es)
    obtain n e where ne: "ne = (n, e)" by fastforce
    have "sess_reach alist_bbolt struct_codec (\<lambda>_. True) 2 10 (snd (appendEvent alist_bbolt struct_codec 2 n None e db))"
      by (rule sess_reach.append [OF Cons.prems]) simp
    then show ?case
      by (auto simp: ne split: prod.split option.split intro: Cons.IH)
  qed simp
  with sess_reach.fresh [OF demo_new] show ?thesis unfolding demo_db_def by blast
qed

section \<open>Witnesses\<close>

lemma demo_mine: "filter (\<lambda>e. evSessionID e = ''a'') (map (\<lambda>(now, e). stamped now e) demo_events) =
  [demo_event ''a'' 5 ''x'', demo_event ''a'' 7 ''z'', demo_event ''a'' 9 ''w'']"
  by (simp add: demo_events_def demo_event_def stamped_def zeroTime_def)

theorem sess_recent_events_witness:
  "getEvents alist_bbolt struct_codec ''a'' zeroTime 0 demo_db = Inr [demo_event ''a'' 7 ''z'', demo_event ''a'' 9 ''w'']"
  using sess_recent_events [OF alist_bbolt_ok struct_codec_ok demo_new _ demo_run demo_mine [symmetric], of 0]
  by (simp add: demo_event_def demo_bbolt_cfg_def)



lemma alist_decode:
  assumes "\<forall>k. clean_session tx alist_bbolt struct_codec db k"
  shows "\<exists>kss. decodeSessions struct_codec (bkPairs alist_bbolt (dbSessions db)) = Inr kss"
proof -
  have "\<forall>(k, v) \<in> set (bkPairs alist_bbolt (dbSessions db)). scUnmarshalSession struct_codec v \<noteq> None"
  proof
    fix p assume p: "p \<in> set (bkPairs alist_bbolt (dbSessions db))"
    obtain k v where kv: "p = (k, v)" by fastforce
    have "distinct (map fst (bkPairs alist_bbolt (dbSessions db)))"
      using bk_sorted [OF alist_bbolt_ok, of "dbSessions db"] by (simp add: strict_sorted_iff)
    with p kv have "bkGet alist_bbolt (dbSessions db) k = Some v" by (simp add: bk_get [OF alist_bbolt_ok])
    then show "case p of (k, v) \<Rightarrow> scUnmarshalSession struct_codec v \<noteq> None"
      using assms [THEN spec, of k] kv by (auto simp: clean_session_def stored_session_def)
  qed
  from decodeSessions_total [OF this] show ?thesis .
qed

lemma alist_retention:
  assumes "\<forall>k. clean_session tx alist_bbolt struct_codec db k"
  shows "\<exists>db'. runRetentionOnce alist_bbolt struct_codec None ret now db = (None, db')"
proof -
  obtain kss where kss: "decodeSessions struct_codec (bkPairs alist_bbolt (dbSessions db)) = Inr kss"
    using alist_decode [OF assms] by blast
  have "\<exists>db'. deleteSessions alist_bbolt ks db = Inr db'" for ks and db
    by (induction ks arbitrary: db) (simp_all add: alist_bbolt_def)
  with kss show ?thesis
    by (simp add: runRetentionOnce_def txUpdate_None retentionTx_def)
qed

theorem sess_retention_witness:
  "\<exists>db'. runRetentionOnce alist_bbolt struct_codec None 10 18 demo_db = (None, db') \<and>
    getSession alist_bbolt struct_codec ''b'' db' = Inl ''session not found'' \<and>
    getEvents alist_bbolt struct_codec ''b'' zeroTime 0 db' = Inr []"
proof -
  have clean: "\<forall>k. clean_session (\<lambda>_. True) alist_bbolt struct_codec demo_db k"
    using sess_reach_inv [OF alist_bbolt_ok struct_codec_ok demo_sess_reach] by (simp add: sess_inv_def)
  obtain db' where run: "runRetentionOnce alist_bbolt struct_codec None 10 18 demo_db = (None, db')"
    using alist_retention [OF clean] by blast
  have "filter (\<lambda>e. evSessionID e = ''b'') (map (\<lambda>(now, e). stamped now e) demo_events) = [demo_event ''b'' 6 ''y'']"
    by (simp add: demo_events_def demo_event_def stamped_def zeroTime_def)
  moreover have "\<forall>k. clean_session (\<lambda>_. True) alist_bbolt struct_codec (bsDb demo_sessions) k"
    by (simp add: clean_session_def fresh_stored [OF alist_bbolt_ok demo_new])
  ultimately have "stored_session alist_bbolt struct_codec demo_db (string_bytes ''b'') =
      bump None (demo_event ''b'' 6 ''y'')"
    using appendAll_effect [OF alist_bbolt_ok struct_codec_ok _ _ demo_run, of "''b''"]
    by (auto simp: fresh_stored [OF alist_bbolt_ok demo_new])
  then have "\<exists>s. getSession alist_bbolt struct_codec ''b'' demo_db = Inr s \<and> ssLastSeen s = 6"
    by (auto simp: bump_simps stored_session_def getSession_def orElse_def bumpSession_fields demo_event_def split: option.splits)
  with sess_retention [OF alist_bbolt_ok run, of "''b''" zeroTime 0] run show ?thesis by auto
qed

theorem sess_list_witness:
  "\<exists>ss. listSessions alist_bbolt struct_codec (isort newer) zeroTime demo_db = Inr ss \<and>
    sorted_wrt (\<lambda>a b. ssLastSeen b \<le> ssLastSeen a) ss"
proof -
  have clean: "\<forall>k. clean_session (\<lambda>_. True) alist_bbolt struct_codec demo_db k"
    using sess_reach_inv [OF alist_bbolt_ok struct_codec_ok demo_sess_reach] by (simp add: sess_inv_def)
  obtain ss where run: "listSessions alist_bbolt struct_codec (isort newer) zeroTime demo_db = Inr ss"
    using alist_decode [OF clean] by (auto simp: listSessions_def)
  have "is_sort newer (isort newer)"
    by (rule isort_is_sort) (auto simp: strict_weak_def newer_def)
  from sess_list [OF alist_bbolt_ok this run] run show ?thesis by blast
qed

end
