(* ===== verification/MemStore.thy ===== *)
theory MemStore
  imports StoreApi
begin

text \<open>
  \<open>internal/store/memstore.go\<close>: the in-memory head block. A store maps a label fingerprint to a
  bucket of series (a list, since fingerprints can collide). The definitions follow the file's
  functions; the abstraction \<open>mem_samples\<close> reads off the samples held for a label set, and the
  lemmas describe every operation in terms of it.
\<close>

section \<open>State\<close>

record 'l memSeries =
  msRef :: u64
  msLset :: "'l"
  msSamples :: "sample list"

record 'l memStore =
  memRetention :: int
  memSeriesOf :: "u64 \<rightharpoonup> 'l memSeries list"
  memNextRef :: u64

definition newMemStore :: "int \<Rightarrow> 'l memStore" where
  "newMemStore retention = \<lparr>memRetention = retention, memSeriesOf = Map.empty, memNextRef = 0\<rparr>"

text \<open>\<open>sliceSeriesSet\<close>: the iterator handed out by \<open>Select\<close>.\<close>

record 'l sliceSeriesSet =
  ssSeries :: "'l series list"
  ssIdx :: int

definition newSliceSeriesSet :: "'l series list \<Rightarrow> 'l sliceSeriesSet" where
  "newSliceSeriesSet result = \<lparr>ssSeries = result, ssIdx = -1\<rparr>"

definition ssNext :: "'l sliceSeriesSet \<Rightarrow> bool \<times> 'l sliceSeriesSet" where
  "ssNext s = (let i = ssIdx s + 1 in (i < int (length (ssSeries s)), s\<lparr>ssIdx := i\<rparr>))"

text \<open>\<open>At\<close> indexes the slice: outside its bounds Go panics, here \<open>None\<close>.\<close>

definition ssAt :: "'l sliceSeriesSet \<Rightarrow> 'l series option" where
  "ssAt s = (if 0 \<le> ssIdx s \<and> ssIdx s < int (length (ssSeries s))
             then Some (ssSeries s ! nat (ssIdx s)) else None)"

definition ssErr :: "'l sliceSeriesSet \<Rightarrow> err" where
  "ssErr s = None"

text \<open>What \<open>Next\<close> has yet to deliver. The index starts at -1 and only \<open>Next\<close> moves it.\<close>

definition ssRest :: "'l sliceSeriesSet \<Rightarrow> 'l series list" where
  "ssRest s = drop (nat (ssIdx s + 1)) (ssSeries s)"

definition ssInv :: "'l sliceSeriesSet \<Rightarrow> bool" where
  "ssInv s \<longleftrightarrow> -1 \<le> ssIdx s"

section \<open>Writing\<close>

text \<open>\<open>findSeries\<close> returns a pointer into the bucket: here the index of the series.\<close>

fun findSeries :: "'l labels_api \<Rightarrow> 'l memSeries list \<Rightarrow> 'l \<Rightarrow> nat option" where
  "findSeries L [] lset = None"
| "findSeries L (ms # bucket) lset =
     (if lequal L (msLset ms) lset then Some 0 else map_option Suc (findSeries L bucket lset))"

text \<open>One iteration of \<open>appendSamples\<close>; a missing map entry reads as the nil slice.\<close>

definition appendSample :: "'l labels_api \<Rightarrow> 'l memStore \<Rightarrow> 'l pendingSample \<Rightarrow> 'l memStore" where
  "appendSample L s p =
     (let fp = lhash L (pLabels p);
          bucket = (case memSeriesOf s fp of None \<Rightarrow> [] | Some b \<Rightarrow> b);
          x = \<lparr>sT = pT p, sV = pV p\<rparr>
      in case findSeries L bucket (pLabels p) of
           None \<Rightarrow>
             let ref = memNextRef s + 1;
                 ms = \<lparr>msRef = ref, msLset = pLabels p, msSamples = [] @ [x]\<rparr>
             in s\<lparr>memNextRef := ref, memSeriesOf := (memSeriesOf s)(fp \<mapsto> bucket @ [ms])\<rparr>
         | Some i \<Rightarrow>
             let ms = bucket ! i
             in s\<lparr>memSeriesOf := (memSeriesOf s)(fp \<mapsto> bucket[i := ms\<lparr>msSamples := msSamples ms @ [x]\<rparr>])\<rparr>)"

definition appendSamples :: "'l labels_api \<Rightarrow> 'l memStore \<Rightarrow> 'l pendingSample list \<Rightarrow> 'l memStore" where
  "appendSamples L s ps = foldl (appendSample L) s ps"

text \<open>
  \<open>memAppender\<close> holds a pointer to its store, so its state is the pair of the store and the
  pending samples.
\<close>

type_synonym 'l memAppender = "'l memStore \<times> 'l pendingSample list"

definition memAppender :: "'l memStore \<Rightarrow> 'l memAppender" where
  "memAppender s = (s, [])"

definition memAppend :: "'l memAppender \<Rightarrow> 'l \<Rightarrow> i64 \<Rightarrow> f64 \<Rightarrow> err \<times> 'l memAppender" where
  "memAppend a l t v = (None, (fst a, snd a @ [pending l t v]))"

definition memCommit :: "'l labels_api \<Rightarrow> 'l memAppender \<Rightarrow> err \<times> 'l memAppender" where
  "memCommit L a = (None, (appendSamples L (fst a) (snd a), []))"

definition memRollback :: "'l memAppender \<Rightarrow> err \<times> 'l memAppender" where
  "memRollback a = (None, (fst a, []))"

definition mem_appender_ops :: "'l labels_api \<Rightarrow> ('l memAppender, 'l) appender_ops" where
  "mem_appender_ops L = \<lparr>apAppend = memAppend, apCommit = memCommit L, apRollback = memRollback\<rparr>"

section \<open>Reading\<close>

fun selectBucket ::
  "'l labels_api \<Rightarrow> i64 \<Rightarrow> i64 \<Rightarrow> matcher list \<Rightarrow> 'l memSeries list \<Rightarrow> 'l series list" where
  "selectBucket L mint maxt ms [] = []"
| "selectBucket L mint maxt ms (m # bucket) =
     (if \<not> matchesAll L (msLset m) ms then selectBucket L mint maxt ms bucket
      else let samples = filterSamples (msSamples m) mint maxt
           in if length samples = 0 then selectBucket L mint maxt ms bucket
              else \<lparr>srLabels = msLset m, srSamples = samples\<rparr> # selectBucket L mint maxt ms bucket)"

definition memSelect ::
  "'l labels_api \<Rightarrow> ('l series list \<Rightarrow> 'l series list) \<Rightarrow> u64 list \<Rightarrow>
   'l memStore \<Rightarrow> bool \<Rightarrow> i64 \<Rightarrow> i64 \<Rightarrow> matcher list \<Rightarrow> 'l sliceSeriesSet" where
  "memSelect L srt ks s sortSeries mint maxt ms =
     (let result = concat (map (selectBucket L mint maxt ms) (visit ks (memSeriesOf s)))
      in newSliceSeriesSet (if sortSeries then srt result else result))"

fun bucketLabelNames ::
  "'l labels_api \<Rightarrow> i64 \<Rightarrow> i64 \<Rightarrow> matcher list \<Rightarrow> 'l memSeries list \<Rightarrow> string list" where
  "bucketLabelNames L mint maxt ms [] = []"
| "bucketLabelNames L mint maxt ms (m # bucket) =
     (if \<not> matchesAll L (msLset m) ms then bucketLabelNames L mint maxt ms bucket
      else if \<not> hasOverlap (msSamples m) mint maxt then bucketLabelNames L mint maxt ms bucket
      else map fst (lrange L (msLset m)) @ bucketLabelNames L mint maxt ms bucket)"

definition memLabelNames ::
  "'l labels_api \<Rightarrow> u64 list \<Rightarrow> 'l memStore \<Rightarrow> i64 \<Rightarrow> i64 \<Rightarrow> matcher list \<Rightarrow> string + string list" where
  "memLabelNames L ks s mint maxt ms =
     Inr (sorted_strings (concat (map (bucketLabelNames L mint maxt ms) (visit ks (memSeriesOf s)))))"

fun bucketLabelValues ::
  "'l labels_api \<Rightarrow> string \<Rightarrow> i64 \<Rightarrow> i64 \<Rightarrow> matcher list \<Rightarrow> 'l memSeries list \<Rightarrow> string list" where
  "bucketLabelValues L name mint maxt ms [] = []"
| "bucketLabelValues L name mint maxt ms (m # bucket) =
     (if \<not> matchesAll L (msLset m) ms then bucketLabelValues L name mint maxt ms bucket
      else if \<not> hasOverlap (msSamples m) mint maxt then bucketLabelValues L name mint maxt ms bucket
      else let v = lget L (msLset m) name
           in if v \<noteq> '''' then v # bucketLabelValues L name mint maxt ms bucket
              else bucketLabelValues L name mint maxt ms bucket)"

definition memLabelValues ::
  "'l labels_api \<Rightarrow> u64 list \<Rightarrow> 'l memStore \<Rightarrow> string \<Rightarrow> i64 \<Rightarrow> i64 \<Rightarrow> matcher list \<Rightarrow> string + string list" where
  "memLabelValues L ks s name mint maxt ms =
     Inr (sorted_strings (concat (map (bucketLabelValues L name mint maxt ms) (visit ks (memSeriesOf s)))))"

section \<open>Pruning\<close>

definition pruneSamples :: "sample list \<Rightarrow> i64 \<Rightarrow> sample list" where
  "pruneSamples samples cutoff =
     (let idx = sort_search (length samples) (\<lambda>i. sint (sT (samples ! i)) \<ge> sint cutoff)
      in if idx = 0 then samples else drop idx samples)"

text \<open>
  The inner loop of \<open>Prune\<close> runs the index down from the end of the bucket; the first argument
  is the index plus one.
\<close>

fun pruneBucket :: "i64 \<Rightarrow> nat \<Rightarrow> 'l memSeries list \<Rightarrow> 'l memSeries list" where
  "pruneBucket cutoff 0 bucket = bucket"
| "pruneBucket cutoff (Suc i) bucket =
     (let ms = (bucket ! i)\<lparr>msSamples := pruneSamples (msSamples (bucket ! i)) cutoff\<rparr>;
          bucket' = bucket[i := ms]
      in if length (msSamples ms) = 0
         then pruneBucket cutoff i (take i bucket' @ drop (i + 1) bucket')
         else pruneBucket cutoff i bucket')"

definition pruneEntry ::
  "i64 \<Rightarrow> (u64 \<rightharpoonup> 'l memSeries list) \<Rightarrow> u64 \<Rightarrow> (u64 \<rightharpoonup> 'l memSeries list)" where
  "pruneEntry cutoff m fp =
     (case m fp of
        None \<Rightarrow> m
      | Some bucket \<Rightarrow>
          let bucket' = pruneBucket cutoff (length bucket) bucket
          in if length bucket' = 0 then m(fp := None) else m(fp \<mapsto> bucket'))"

text \<open>Times are nanoseconds since the epoch; \<open>UnixMilli\<close> rounds down to milliseconds.\<close>

definition unixMilli :: "int \<Rightarrow> i64" where
  "unixMilli t = word_of_int (t div 1000000)"

definition prune :: "u64 list \<Rightarrow> 'l memStore \<Rightarrow> int \<Rightarrow> 'l memStore" where
  "prune ks s now =
     (if memRetention s = 0 then s
      else let cutoff = unixMilli (now - memRetention s)
           in s\<lparr>memSeriesOf := foldl (pruneEntry cutoff) (memSeriesOf s) ks\<rparr>)"

section \<open>The iterator is a series set\<close>

interpretation slice: series_set ssNext ssAt ssRest ssInv
proof
  fix s :: "'l sliceSeriesSet" and x xs
  show "ssInv s \<Longrightarrow> ssRest s = [] \<Longrightarrow> \<not> fst (ssNext s)"
    by (auto simp: ssInv_def ssRest_def ssNext_def Let_def)
  show "ssInv s \<Longrightarrow> ssInv (snd (ssNext s))"
    by (simp add: ssInv_def ssNext_def Let_def)
  assume inv: "ssInv s" and rest: "ssRest s = x # xs"
  define i where "i = nat (ssIdx s + 1)"
  have i: "ssIdx s + 1 = int i" using inv by (simp add: i_def ssInv_def)
  have drop: "drop i (ssSeries s) = x # xs" using rest by (simp add: ssRest_def i_def)
  then have len: "i < length (ssSeries s)" by (metis drop_all leI list.distinct(1))
  moreover have "ssSeries s ! i = x" "drop (Suc i) (ssSeries s) = xs"
    using drop by (metis Cons_nth_drop_Suc len list.inject)+
  ultimately show "fst (ssNext s) \<and> ssAt (snd (ssNext s)) = Some x \<and> ssRest (snd (ssNext s)) = xs"
    by (simp add: ssNext_def ssAt_def ssRest_def i Let_def nat_add_distrib)
qed

lemma drain_newSliceSeriesSet [simp]: "drain ssNext ssAt (newSliceSeriesSet R) = Some R"
  using slice.drain_rest [of "newSliceSeriesSet R"]
  by (simp add: ssInv_def ssRest_def newSliceSeriesSet_def)

lemma ssSeries_new [simp]: "ssSeries (newSliceSeriesSet R) = R"
  by (simp add: newSliceSeriesSet_def)

section \<open>The abstraction and the invariant\<close>

definition bucket_samples :: "'l labels_api \<Rightarrow> 'l memSeries list \<Rightarrow> 'l \<Rightarrow> sample list" where
  "bucket_samples L b l = (case findSeries L b l of None \<Rightarrow> [] | Some i \<Rightarrow> msSamples (b ! i))"

text \<open>The samples a store holds for a label set, in the order in which they were committed.\<close>

definition mem_samples :: "'l labels_api \<Rightarrow> 'l memStore \<Rightarrow> 'l \<Rightarrow> sample list" where
  "mem_samples L s l =
     (case memSeriesOf s (lhash L l) of None \<Rightarrow> [] | Some b \<Rightarrow> bucket_samples L b l)"

text \<open>
  Every bucket is filed under the hash of its series, holds no label set twice, is not empty
  and contains no series without samples.
\<close>

definition bucket_ok :: "'l labels_api \<Rightarrow> u64 \<Rightarrow> 'l memSeries list \<Rightarrow> bool" where
  "bucket_ok L fp b \<longleftrightarrow>
     b \<noteq> [] \<and> (\<forall>m \<in> set b. lhash L (msLset m) = fp \<and> msSamples m \<noteq> []) \<and>
     distinct (map (\<lambda>m. lrange L (msLset m)) b)"

definition mem_ok :: "'l labels_api \<Rightarrow> 'l memStore \<Rightarrow> bool" where
  "mem_ok L s \<longleftrightarrow> (\<forall>fp b. memSeriesOf s fp = Some b \<longrightarrow> bucket_ok L fp b)"

lemma mem_ok_new: "mem_ok L (newMemStore r)"
  by (simp add: mem_ok_def newMemStore_def)

lemma mem_samples_new [simp]: "mem_samples L (newMemStore r) l = []"
  by (simp add: mem_samples_def newMemStore_def)

lemma findSeries_Some:
  "findSeries L b l = Some i \<Longrightarrow> i < length b \<and> lequal L (msLset (b ! i)) l"
  by (induction b arbitrary: i) (auto split: if_splits)

lemma findSeries_None:
  "findSeries L b l = None \<longleftrightarrow> (\<forall>m \<in> set b. \<not> lequal L (msLset m) l)"
  by (induction b) auto

text \<open>Appending to the found series adds the sample to its label set and to no other.\<close>

lemma bucket_samples_update:
  assumes L: "labels_ok L" and find: "findSeries L b p = Some i"
  shows "bucket_samples L (b[i := (b ! i)\<lparr>msSamples := msSamples (b ! i) @ [x]\<rparr>]) l
    = bucket_samples L b l @ (if lequal L p l then [x] else [])"
  using find
proof (induction b arbitrary: i)
  case Nil
  then show ?case by simp
next
  case (Cons m b)
  show ?case
  proof (cases "lequal L (msLset m) p")
    case True
    with Cons.prems have "i = 0" by simp
    moreover have "lequal L (msLset m) l \<longleftrightarrow> lequal L p l"
      using L True by (rule lequal_cong)
    ultimately show ?thesis
      by (auto simp: bucket_samples_def split: option.splits)
  next
    case False
    with Cons.prems obtain j where j: "i = Suc j" "findSeries L b p = Some j" by auto
    have "lequal L p l \<Longrightarrow> \<not> lequal L (msLset m) l"
      using False L by (metis lequal_sym lequal_trans)
    then show ?thesis
      using Cons.IH [OF j(2)] j(1) by (auto simp: bucket_samples_def split: option.splits)
  qed
qed

lemma bucket_samples_snoc:
  assumes L: "labels_ok L" and find: "findSeries L b p = None" and "msLset m = p" "msSamples m = [x]"
  shows "bucket_samples L (b @ [m]) l = bucket_samples L b l @ (if lequal L p l then [x] else [])"
  using find
proof (induction b)
  case Nil
  then show ?case using assms(3,4) by (simp add: bucket_samples_def)
next
  case (Cons n b)
  then have n: "\<not> lequal L (msLset n) p" and b: "findSeries L b p = None" by (auto split: if_splits)
  have "lequal L p l \<Longrightarrow> \<not> lequal L (msLset n) l"
    using n L by (metis lequal_sym lequal_trans)
  with Cons.IH [OF b] show ?case by (auto simp: bucket_samples_def split: option.splits)
qed

lemma mem_samples_appendSample:
  assumes L: "labels_ok L"
  shows "mem_samples L (appendSample L s p) l =
    mem_samples L s l @ (if lequal L (pLabels p) l then [\<lparr>sT = pT p, sV = pV p\<rparr>] else [])"
proof -
  define fp where "fp = lhash L (pLabels p)"
  define b where "b = (case memSeriesOf s fp of None \<Rightarrow> [] | Some b \<Rightarrow> b)"
  define x where "x = \<lparr>sT = pT p, sV = pV p\<rparr>"
  have hash: "lequal L (pLabels p) l \<Longrightarrow> lhash L l = fp"
    using L lhash_law fp_def by metis
  have same: "mem_samples L s l = bucket_samples L b l" if "lhash L l = fp"
    using that by (simp add: mem_samples_def b_def bucket_samples_def split: option.split)
  show ?thesis
  proof (cases "findSeries L b (pLabels p)")
    case None
    define m where "m = \<lparr>msRef = memNextRef s + 1, msLset = pLabels p, msSamples = [x]\<rparr>"
    have "appendSample L s p =
        s\<lparr>memNextRef := memNextRef s + 1, memSeriesOf := (memSeriesOf s)(fp \<mapsto> b @ [m])\<rparr>"
      using None by (simp add: appendSample_def fp_def [symmetric] b_def [symmetric] x_def m_def Let_def)
    then show ?thesis
      using bucket_samples_snoc [OF L None, of m x l] same hash
      by (cases "lhash L l = fp") (auto simp: mem_samples_def m_def x_def)
  next
    case (Some i)
    have "appendSample L s p =
        s\<lparr>memSeriesOf := (memSeriesOf s)(fp \<mapsto> b[i := (b ! i)\<lparr>msSamples := msSamples (b ! i) @ [x]\<rparr>])\<rparr>"
      using Some by (simp add: appendSample_def fp_def [symmetric] b_def [symmetric] x_def Let_def)
    then show ?thesis
      using bucket_samples_update [OF L Some, of x l] same hash
      by (cases "lhash L l = fp") (auto simp: mem_samples_def x_def)
  qed
qed

text \<open>The samples of a batch that belong to a label set, in the order of the batch.\<close>

definition batch_samples :: "'l labels_api \<Rightarrow> 'l pendingSample list \<Rightarrow> 'l \<Rightarrow> sample list" where
  "batch_samples L ps l = map (\<lambda>p. \<lparr>sT = pT p, sV = pV p\<rparr>) (filter (\<lambda>p. lequal L (pLabels p) l) ps)"

lemma batch_samples_Nil [simp]: "batch_samples L [] l = []"
  by (simp add: batch_samples_def)

lemma batch_samples_append:
  "batch_samples L (ps @ qs) l = batch_samples L ps l @ batch_samples L qs l"
  by (simp add: batch_samples_def)

lemma mem_samples_batch:
  assumes "labels_ok L"
  shows "mem_samples L (appendSamples L s ps) l = mem_samples L s l @ batch_samples L ps l"
proof (induction ps arbitrary: s)
  case Nil
  show ?case by (simp add: appendSamples_def)
next
  case (Cons p ps)
  have "mem_samples L (appendSamples L s (p # ps)) l
      = mem_samples L (appendSamples L (appendSample L s p) ps) l"
    by (simp add: appendSamples_def)
  then show ?case
    using Cons.IH [of "appendSample L s p"] mem_samples_appendSample [OF assms, of s p l]
    by (simp add: batch_samples_def)
qed

lemma mem_ok_appendSample:
  assumes L: "labels_ok L" and ok: "mem_ok L s"
  shows "mem_ok L (appendSample L s p)"
proof -
  define fp where "fp = lhash L (pLabels p)"
  define b where "b = (case memSeriesOf s fp of None \<Rightarrow> [] | Some b \<Rightarrow> b)"
  define x where "x = \<lparr>sT = pT p, sV = pV p\<rparr>"
  have b: "\<forall>m \<in> set b. lhash L (msLset m) = fp \<and> msSamples m \<noteq> []"
    "distinct (map (\<lambda>m. lrange L (msLset m)) b)"
    using ok by (cases "memSeriesOf s fp"; simp add: mem_ok_def bucket_ok_def b_def)+
  show ?thesis
  proof (cases "findSeries L b (pLabels p)")
    case None
    define m where "m = \<lparr>msRef = memNextRef s + 1, msLset = pLabels p, msSamples = [x]\<rparr>"
    have "appendSample L s p =
        s\<lparr>memNextRef := memNextRef s + 1, memSeriesOf := (memSeriesOf s)(fp \<mapsto> b @ [m])\<rparr>"
      using None by (simp add: appendSample_def fp_def [symmetric] b_def [symmetric] x_def m_def Let_def)
    moreover have "bucket_ok L fp (b @ [m])"
      using b None L by (auto simp: bucket_ok_def findSeries_None lequal_law m_def fp_def)
    ultimately show ?thesis using ok by (simp add: mem_ok_def)
  next
    case (Some i)
    define b' where "b' = b[i := (b ! i)\<lparr>msSamples := msSamples (b ! i) @ [x]\<rparr>]"
    have "i < length b" using findSeries_Some [OF Some] by simp
    moreover have "map (\<lambda>m. lrange L (msLset m)) b' = map (\<lambda>m. lrange L (msLset m)) b"
      by (simp add: b'_def map_update) (metis list_update_beyond list_update_id map_update not_less)
    ultimately have "bucket_ok L fp b'"
      using b by (auto simp: bucket_ok_def b'_def dest!: set_update_subset_insert [THEN subsetD])
    moreover have "appendSample L s p = s\<lparr>memSeriesOf := (memSeriesOf s)(fp \<mapsto> b')\<rparr>"
      using Some by (simp add: appendSample_def fp_def [symmetric] b_def [symmetric] x_def b'_def Let_def)
    ultimately show ?thesis using ok by (simp add: mem_ok_def)
  qed
qed

lemma mem_ok_batch: "labels_ok L \<Longrightarrow> mem_ok L s \<Longrightarrow> mem_ok L (appendSamples L s ps)"
  unfolding appendSamples_def by (induction ps arbitrary: s) (simp_all add: mem_ok_appendSample)

interpretation mem: store_appender "mem_appender_ops L" snd fst
  by unfold_locales (simp_all add: mem_appender_ops_def memAppend_def memCommit_def memRollback_def)

section \<open>Queries against the abstraction\<close>

lemma selectBucket_filter:
  "selectBucket L mint maxt ms b =
     map (\<lambda>m. \<lparr>srLabels = msLset m, srSamples = filter (in_range mint maxt) (msSamples m)\<rparr>)
       (filter (\<lambda>m. matchesAll L (msLset m) ms \<and> filter (in_range mint maxt) (msSamples m) \<noteq> []) b)"
  by (induction b) (simp_all add: filterSamples_filter Let_def)

text \<open>In a well-formed bucket every series is the first one found for its own labels.\<close>

lemma bucket_samples_member:
  assumes L: "labels_ok L" and "distinct (map (\<lambda>m. lrange L (msLset m)) b)" and "m \<in> set b"
    and "lequal L (msLset m) l"
  shows "bucket_samples L b l = msSamples m"
  using assms(2-4)
proof (induction b)
  case Nil
  then show ?case by simp
next
  case (Cons n b)
  show ?case
  proof (cases "lequal L (msLset n) l")
    case True
    then have "lrange L (msLset n) = lrange L (msLset m)" using Cons.prems(3) L by (simp add: lequal_law)
    then have "m = n" using Cons.prems(1,2) by (auto simp: rev_image_eqI)
    with True show ?thesis by (simp add: bucket_samples_def)
  next
    case False
    then have "m \<in> set b" using Cons.prems by auto
    with Cons False show ?thesis by (auto simp: bucket_samples_def split: option.splits)
  qed
qed

lemma mem_samples_member:
  assumes "labels_ok L" and "mem_ok L s" and "memSeriesOf s fp = Some b" and "m \<in> set b"
    and "lequal L (msLset m) l"
  shows "mem_samples L s l = msSamples m"
proof -
  have "lhash L l = fp"
    using assms lhash_law by (fastforce simp: mem_ok_def bucket_ok_def)
  with assms show ?thesis
    by (auto simp: mem_samples_def mem_ok_def bucket_ok_def intro: bucket_samples_member)
qed

lemma mem_samples_found:
  assumes "mem_samples L s l \<noteq> []"
  obtains b m where "memSeriesOf s (lhash L l) = Some b" "m \<in> set b" "lequal L (msLset m) l"
    "mem_samples L s l = msSamples m"
proof -
  obtain b i where b: "memSeriesOf s (lhash L l) = Some b" "findSeries L b l = Some i"
    using assms by (auto simp: mem_samples_def bucket_samples_def split: option.splits)
  moreover have "i < length b" "lequal L (msLset (b ! i)) l" using findSeries_Some [OF b(2)] by simp_all
  ultimately show thesis
    by (intro that [of b "b ! i"]) (simp_all add: mem_samples_def bucket_samples_def)
qed

text \<open>The series of the whole store, bucket by bucket, in the order of the keys.\<close>

definition all_series :: "u64 list \<Rightarrow> 'l memStore \<Rightarrow> 'l memSeries list" where
  "all_series ks s = concat (visit ks (memSeriesOf s))"

lemma set_all_series:
  "ranges ks (memSeriesOf s) \<Longrightarrow>
   m \<in> set (all_series ks s) \<longleftrightarrow> (\<exists>fp b. memSeriesOf s fp = Some b \<and> m \<in> set b)"
  by (auto simp: all_series_def set_visit_ranges ran_def)

lemma distinct_all_series:
  assumes L: "labels_ok L" and ok: "mem_ok L s" and "distinct ks"
  shows "distinct (map (\<lambda>m. lrange L (msLset m)) (all_series ks s))"
  using assms(3)
proof (induction ks)
  case Nil
  show ?case by (simp add: all_series_def)
next
  case (Cons k ks)
  show ?case
  proof (cases "memSeriesOf s k")
    case None
    with Cons show ?thesis by (simp add: all_series_def)
  next
    case (Some b)
    have "lrange L (msLset m) \<noteq> lrange L (msLset n)"
      if mn: "m \<in> set b" "n \<in> set (all_series ks s)" for m n
    proof
      assume "lrange L (msLset m) = lrange L (msLset n)"
      then have eq: "lhash L (msLset m) = lhash L (msLset n)"
        using lhash_law [OF L, of "msLset m" "msLset n"] L by (simp add: lequal_law)
      obtain k' b' where "k' \<in> set ks" "memSeriesOf s k' = Some b'" "n \<in> set b'"
        using mn(2) by (auto simp: all_series_def set_visit)
      with ok Some mn(1) have "lhash L (msLset n) = k'" "lhash L (msLset m) = k"
        by (auto simp: mem_ok_def bucket_ok_def)
      with eq \<open>k' \<in> set ks\<close> Cons.prems show False by simp
    qed
    moreover have "distinct (map (\<lambda>m. lrange L (msLset m)) b)"
      using ok Some by (simp add: mem_ok_def bucket_ok_def)
    ultimately show ?thesis
      using Cons Some by (auto simp: all_series_def)
  qed
qed

lemma bucket_append:
  "selectBucket L mint maxt ms (b @ c) = selectBucket L mint maxt ms b @ selectBucket L mint maxt ms c"
  "bucketLabelNames L mint maxt ms (b @ c) = bucketLabelNames L mint maxt ms b @ bucketLabelNames L mint maxt ms c"
  "bucketLabelValues L name mint maxt ms (b @ c)
     = bucketLabelValues L name mint maxt ms b @ bucketLabelValues L name mint maxt ms c"
  by (induction b) (simp_all add: Let_def)

lemma bucket_concat:
  "concat (map (selectBucket L mint maxt ms) bs) = selectBucket L mint maxt ms (concat bs)"
  "concat (map (bucketLabelNames L mint maxt ms) bs) = bucketLabelNames L mint maxt ms (concat bs)"
  "concat (map (bucketLabelValues L name mint maxt ms) bs) = bucketLabelValues L name mint maxt ms (concat bs)"
  by (induction bs) (simp_all add: bucket_append)

text \<open>\<open>Select\<close> meets the query specification over the samples held.\<close>

lemma memSelect_spec:
  assumes L: "labels_ok L" and ok: "mem_ok L s" and ks: "ranges ks (memSeriesOf s)"
    and srt: "is_sort (series_less L) srt"
  shows "select_spec L ms mint maxt (mem_samples L s) (ssSeries (memSelect L srt ks s sortSeries mint maxt ms))"
proof -
  let ?all = "all_series ks s"
  let ?R = "selectBucket L mint maxt ms ?all"
  have mem: "mem_samples L s l = msSamples m" if "m \<in> set ?all" "lequal L (msLset m) l" for m l
    using mem_samples_member [OF L ok] that set_all_series [OF ks] by blast
  have "select_spec L ms mint maxt (mem_samples L s) ?R"
    unfolding select_spec_def
  proof (intro conjI allI impI)
    show "\<forall>r \<in> set ?R. matchesAll L (srLabels r) ms \<and> srSamples r \<noteq> [] \<and>
        srSamples r = filter (in_range mint maxt) (mem_samples L s (srLabels r))"
      using mem [OF _ lequal_refl [OF L]] by (auto simp: selectBucket_filter)
    have "distinct (map (\<lambda>m. lrange L (msLset m)) ?all)"
      using distinct_all_series [OF L ok] ks by (simp add: ranges_def)
    then show "distinct (map (\<lambda>r. lrange L (srLabels r)) ?R)"
      by (simp add: selectBucket_filter comp_def distinct_map_filter)
    fix l
    assume m: "matchesAll L l ms" and f: "filter (in_range mint maxt) (mem_samples L s l) \<noteq> []"
    then have "mem_samples L s l \<noteq> []" by auto
    then obtain b n where n: "memSeriesOf s (lhash L l) = Some b" "n \<in> set b" "lequal L (msLset n) l"
      "mem_samples L s l = msSamples n" by (rule mem_samples_found)
    then have "n \<in> set ?all" using set_all_series [OF ks] by blast
    moreover have "matchesAll L (msLset n) ms" using m matchesAll_cong [OF L n(3)] by simp
    ultimately show "\<exists>r \<in> set ?R. lequal L (srLabels r) l"
      using f n(3,4) by (force simp: selectBucket_filter)
  qed
  moreover have "mset (ssSeries (memSelect L srt ks s sortSeries mint maxt ms)) = mset ?R"
    using srt by (simp add: memSelect_def Let_def bucket_concat all_series_def is_sort_mset)
  ultimately show ?thesis by (metis select_spec_perm)
qed

lemma memSelect_sorted:
  "labels_ok L \<Longrightarrow> is_sort (series_less L) srt \<Longrightarrow>
   sorted (map (\<lambda>r. lrange L (srLabels r)) (ssSeries (memSelect L srt ks s True mint maxt ms)))"
  by (simp add: memSelect_def Let_def sorted_series)

text \<open>
  The metadata queries agree with \<open>Select\<close>: they list the names, and the non-empty values of
  one name, of exactly the series it would return.
\<close>

lemma set_bucketLabelNames:
  "set (bucketLabelNames L mint maxt ms b)
     = (\<Union>r \<in> set (selectBucket L mint maxt ms b). fst ` set (lrange L (srLabels r)))"
  by (induction b) (auto simp: hasOverlap_iff Let_def)

lemma set_bucketLabelValues:
  "set (bucketLabelValues L name mint maxt ms b)
     = {v. v \<noteq> [] \<and> (\<exists>r \<in> set (selectBucket L mint maxt ms b). v = lget L (srLabels r) name)}"
  by (induction b) (auto simp: hasOverlap_iff Let_def)

lemma set_memSelect:
  assumes "is_sort (series_less L) srt"
  shows "set (ssSeries (memSelect L srt ks s sortSeries mint maxt ms))
    = set (selectBucket L mint maxt ms (all_series ks s))"
  using assms by (simp add: memSelect_def Let_def is_sort_set bucket_concat all_series_def)

lemma set_memLabelNames:
  assumes "memLabelNames L ks s mint maxt ms = Inr names" and "is_sort (series_less L) srt"
  shows "set names =
    (\<Union>r \<in> set (ssSeries (memSelect L srt ks s sortSeries mint maxt ms)). fst ` set (lrange L (srLabels r)))"
proof -
  have "names = sorted_strings (bucketLabelNames L mint maxt ms (all_series ks s))"
    using assms(1) by (simp add: memLabelNames_def bucket_concat all_series_def)
  then show ?thesis by (simp add: set_memSelect [OF assms(2)] set_bucketLabelNames)
qed

lemma set_memLabelValues:
  assumes "memLabelValues L ks s name mint maxt ms = Inr values" and "is_sort (series_less L) srt"
  shows "set values =
    {v. v \<noteq> [] \<and> (\<exists>r \<in> set (ssSeries (memSelect L srt ks s sortSeries mint maxt ms)). v = lget L (srLabels r) name)}"
proof -
  have "values = sorted_strings (bucketLabelValues L name mint maxt ms (all_series ks s))"
    using assms(1) by (simp add: memLabelValues_def bucket_concat all_series_def)
  then show ?thesis by (simp add: set_memSelect [OF assms(2)] set_bucketLabelValues)
qed

section \<open>Pruning against the abstraction\<close>

definition not_before :: "i64 \<Rightarrow> sample \<Rightarrow> bool" where
  "not_before cutoff s \<longleftrightarrow> sint cutoff \<le> sint (sT s)"

text \<open>Samples of a series in time order, which the binary search of \<open>pruneSamples\<close> needs.\<close>

definition time_sorted :: "sample list \<Rightarrow> bool" where
  "time_sorted ss \<longleftrightarrow> sorted (map (\<lambda>s. sint (sT s)) ss)"

lemma pruneSamples_filter:
  assumes "time_sorted ss"
  shows "pruneSamples ss cutoff = filter (not_before cutoff) ss"
proof -
  have "sorted_wrt (\<lambda>x y. not_before cutoff x \<longrightarrow> not_before cutoff y) ss"
    using assms unfolding time_sorted_def sorted_map
    by (rule sorted_wrt_mono_rel [rotated]) (simp add: not_before_def)
  from drop_sort_search [OF this] show ?thesis
    by (simp add: pruneSamples_def Let_def not_before_def [symmetric])
      (metis drop0)
qed

text \<open>The downward loop drops the emptied series and keeps the others in order.\<close>

definition pruned :: "i64 \<Rightarrow> 'l memSeries \<Rightarrow> 'l memSeries" where
  "pruned cutoff m = m\<lparr>msSamples := pruneSamples (msSamples m) cutoff\<rparr>"

lemma pruneBucket_eq:
  "i \<le> length b \<Longrightarrow>
   pruneBucket cutoff i b = filter (\<lambda>m. msSamples m \<noteq> []) (map (pruned cutoff) (take i b)) @ drop i b"
proof (induction i arbitrary: b)
  case 0
  show ?case by simp
next
  case (Suc i)
  define m where "m = pruned cutoff (b ! i)"
  have i: "i < length b" using Suc.prems by simp
  have take: "take (Suc i) b = take i b @ [b ! i]" using i by (rule take_Suc_conv_app_nth)
  have upd: "take i (b[i := m]) = take i b" "drop (Suc i) (b[i := m]) = drop (Suc i) b" by simp_all
  have drop: "drop i (b[i := m]) = m # drop (Suc i) b"
    using i by (metis Cons_nth_drop_Suc length_list_update nth_list_update_eq upd(2))
  show ?case
  proof (cases "msSamples m = []")
    case True
    then have "pruneBucket cutoff (Suc i) b = pruneBucket cutoff i (take i b @ drop (Suc i) b)"
      by (simp add: Let_def upd pruned_def [symmetric] m_def [symmetric])
    also have "\<dots> = filter (\<lambda>m. msSamples m \<noteq> []) (map (pruned cutoff) (take i b)) @ drop (Suc i) b"
      using i by (simp add: Suc.IH)
    finally show ?thesis using True by (simp add: take m_def)
  next
    case False
    then have "pruneBucket cutoff (Suc i) b = pruneBucket cutoff i (b[i := m])"
      by (simp add: Let_def pruned_def [symmetric] m_def [symmetric])
    also have "\<dots> = filter (\<lambda>m. msSamples m \<noteq> []) (map (pruned cutoff) (take i b)) @ m # drop (Suc i) b"
      using i by (simp add: Suc.IH upd(1) drop)
    finally show ?thesis using False by (simp add: take m_def)
  qed
qed

lemma pruneBucket_all:
  "pruneBucket cutoff (length b) b = filter (\<lambda>m. msSamples m \<noteq> []) (map (pruned cutoff) b)"
  by (simp add: pruneBucket_eq)

text \<open>The loop over the map treats every entry independently.\<close>

definition prune_map :: "i64 \<Rightarrow> (u64 \<rightharpoonup> 'l memSeries list) \<Rightarrow> (u64 \<rightharpoonup> 'l memSeries list)" where
  "prune_map cutoff m = (\<lambda>fp. case m fp of None \<Rightarrow> None | Some b \<Rightarrow>
     (let b' = filter (\<lambda>m. msSamples m \<noteq> []) (map (pruned cutoff) b) in if b' = [] then None else Some b'))"

lemma pruneEntry_fold:
  "distinct ks \<Longrightarrow> foldl (pruneEntry cutoff) m ks fp = (if fp \<in> set ks then prune_map cutoff m fp else m fp)"
proof (induction ks arbitrary: m)
  case Nil
  then show ?case by simp
next
  case (Cons k ks)
  have "pruneEntry cutoff m k fp' = (if fp' = k then prune_map cutoff m fp' else m fp')" for fp'
    by (auto simp: pruneEntry_def prune_map_def pruneBucket_all Let_def split: option.splits)
  with Cons show ?case by (auto simp: prune_map_def)
qed

lemma prune_series:
  assumes "memRetention s \<noteq> 0" and "ranges ks (memSeriesOf s)"
  shows "memSeriesOf (prune ks s now) = prune_map (unixMilli (now - memRetention s)) (memSeriesOf s)"
proof
  fix fp
  show "memSeriesOf (prune ks s now) fp = prune_map (unixMilli (now - memRetention s)) (memSeriesOf s) fp"
    using assms by (auto simp: prune_def ranges_def pruneEntry_fold Let_def prune_map_def dom_def split: option.splits)
qed

lemma findSeries_unique:
  assumes "labels_ok L" and "distinct (map (\<lambda>m. lrange L (msLset m)) b)"
  shows "bucket_samples L b l = concat (map msSamples (filter (\<lambda>m. lequal L (msLset m) l) b))"
  using assms(2)
proof (induction b)
  case Nil
  then show ?case by (simp add: bucket_samples_def)
next
  case (Cons m b)
  have "filter (\<lambda>m. lequal L (msLset m) l) b = []" if "lequal L (msLset m) l"
    using that Cons.prems assms(1) by (auto simp: filter_empty_conv lequal_law rev_image_eqI)
  with Cons show ?case by (auto simp: bucket_samples_def split: option.splits)
qed

lemma bucket_samples_pruned:
  assumes L: "labels_ok L" and "distinct (map (\<lambda>m. lrange L (msLset m)) b)"
    and sorted: "\<forall>m \<in> set b. time_sorted (msSamples m)"
  shows "bucket_samples L (filter (\<lambda>m. msSamples m \<noteq> []) (map (pruned c) b)) l
    = filter (not_before c) (bucket_samples L b l)"
proof -
  let ?b = "filter (\<lambda>m. msSamples m \<noteq> []) (map (pruned c) b)"
  have labels: "msLset (pruned c m) = msLset m" for m by (simp add: pruned_def)
  have "distinct (map (\<lambda>m. lrange L (msLset m)) (map (pruned c) b))"
    using assms(2) by (simp add: comp_def labels)
  then have "distinct (map (\<lambda>m. lrange L (msLset m)) ?b)" by (rule distinct_map_filter)
  then have "bucket_samples L ?b l = concat (map msSamples (filter (\<lambda>m. lequal L (msLset m) l) ?b))"
    by (rule findSeries_unique [OF L])
  also have "\<dots> = concat (map (\<lambda>m. filter (not_before c) (msSamples m)) (filter (\<lambda>m. lequal L (msLset m) l) b))"
    using sorted by (induction b) (auto simp: labels pruned_def pruneSamples_filter)
  also have "\<dots> = filter (not_before c) (bucket_samples L b l)"
    by (simp add: findSeries_unique [OF L assms(2)] filter_concat comp_def)
  finally show ?thesis .
qed

lemma mem_samples_prune:
  assumes L: "labels_ok L" and ok: "mem_ok L s" and ks: "ranges ks (memSeriesOf s)"
    and ret: "memRetention s \<noteq> 0" and sorted: "\<And>l. time_sorted (mem_samples L s l)"
  shows "mem_samples L (prune ks s now) l =
    filter (not_before (unixMilli (now - memRetention s))) (mem_samples L s l)"
proof (cases "memSeriesOf s (lhash L l)")
  case None
  then show ?thesis by (simp add: mem_samples_def prune_series [OF ret ks] prune_map_def)
next
  case (Some b)
  have "time_sorted (msSamples m)" if "m \<in> set b" for m
    using sorted [of "msLset m"] mem_samples_member [OF L ok Some that lequal_refl [OF L]] by simp
  moreover have "distinct (map (\<lambda>m. lrange L (msLset m)) b)"
    using ok Some by (simp add: mem_ok_def bucket_ok_def)
  ultimately have "bucket_samples L (filter (\<lambda>m. msSamples m \<noteq> []) (map (pruned (unixMilli (now - memRetention s))) b)) l
      = filter (not_before (unixMilli (now - memRetention s))) (bucket_samples L b l)"
    by (intro bucket_samples_pruned [OF L]) auto
  moreover have "bucket_samples L [] l = []" by (simp add: bucket_samples_def)
  ultimately show ?thesis
    using Some by (auto simp: mem_samples_def prune_series [OF ret ks] prune_map_def Let_def)
qed

lemma mem_ok_prune:
  assumes ok: "mem_ok L s" and ks: "ranges ks (memSeriesOf s)"
  shows "mem_ok L (prune ks s now)"
proof (cases "memRetention s = 0")
  case True
  with ok show ?thesis by (simp add: prune_def)
next
  case False
  have "bucket_ok L fp (filter (\<lambda>m. msSamples m \<noteq> []) (map (pruned c) b))"
    if "memSeriesOf s fp = Some b" "filter (\<lambda>m. msSamples m \<noteq> []) (map (pruned c) b) \<noteq> []" for fp b c
  proof -
    have "distinct (map (\<lambda>m. lrange L (msLset m)) (map (pruned c) b))"
      using ok that(1) by (simp add: comp_def mem_ok_def bucket_ok_def pruned_def)
    from distinct_map_filter [OF this] show ?thesis
      using ok that by (auto simp: mem_ok_def bucket_ok_def pruned_def)
  qed
  then show ?thesis
    by (auto simp: mem_ok_def prune_series [OF False ks] prune_map_def Let_def split: option.splits if_splits)
qed

section \<open>Reachable stores\<close>

text \<open>
  A store changes by commits, whose batches are arbitrary, and by prunes, whose clock and map
  order are arbitrary. Both hold the write lock, so each is one step.
\<close>

inductive mem_reach :: "'l labels_api \<Rightarrow> int \<Rightarrow> 'l memStore \<Rightarrow> bool" for L r where
  mem_start: "mem_reach L r (newMemStore r)"
| mem_commit: "mem_reach L r s \<Longrightarrow> mem_reach L r (appendSamples L s ps)"
| mem_prune: "mem_reach L r s \<Longrightarrow> ranges ks (memSeriesOf s) \<Longrightarrow> mem_reach L r (prune ks s now)"

lemma mem_reach_ok: "labels_ok L \<Longrightarrow> mem_reach L r s \<Longrightarrow> mem_ok L s"
  by (rotate_tac, induction rule: mem_reach.induct) (auto simp: mem_ok_new mem_ok_batch mem_ok_prune)

lemma append_batch_mem:
  "append_batch (mem_appender_ops L) (s, q) ps = (None, (s, q @ ps))"
  by (induction ps arbitrary: q) (simp_all add: mem_appender_ops_def memAppend_def)

section \<open>Properties\<close>

text \<open>Appending a batch through a fresh appender and committing it adds to every label set
  exactly the batch's samples for that label set, in order, after the samples already held;
  rolling the batch back leaves the store as it was.\<close>

theorem mem_batch_commit:
  assumes "labels_ok L"
  shows "let a = snd (append_batch (mem_appender_ops L) (memAppender s) ps) in
    (\<forall>l. mem_samples L (fst (snd (memCommit L a))) l = mem_samples L s l @ batch_samples L ps l)
    \<and> fst (snd (memRollback a)) = s"
  using mem_samples_batch [OF assms]
  by (simp add: memAppender_def append_batch_mem memCommit_def memRollback_def)

theorem mem_batch_commit_witness:
  "let L = list_labels poly_hash;
       a = snd (append_batch (mem_appender_ops L) (memAppender (newMemStore 0))
             [pending [(''a'', ''1'')] 5 7, pending [(''b'', ''2'')] 6 8, pending [(''a'', ''1'')] 4 9])
   in mem_samples L (fst (snd (memCommit L a))) [(''a'', ''1'')] = [\<lparr>sT = 5, sV = 7\<rparr>, \<lparr>sT = 4, sV = 9\<rparr>]"
  using mem_batch_commit [OF list_labels_ok, of poly_hash "newMemStore 0"
      "[pending [(''a'', ''1'')] 5 7, pending [(''b'', ''2'')] 6 8, pending [(''a'', ''1'')] 4 9]"]
  by (simp add: Let_def batch_samples_def list_labels_def)

text \<open>C18: In every reachable store, with the map visited in any order, \<open>Select\<close> answers exactly the
  matching label sets that hold a sample in the time range, each once, each with all its in-range
  samples in commit order; asked to sort, it answers in label order.\<close>

theorem mem_reach_select:
  assumes "labels_ok L" and "mem_reach L r s" and "ranges ks (memSeriesOf s)"
    and "is_sort (series_less L) srt"
  shows "let R = ssSeries (memSelect L srt ks s sortSeries mint maxt ms) in
    select_spec L ms mint maxt (mem_samples L s) R \<and>
    (sortSeries \<longrightarrow> sorted (map (\<lambda>x. lrange L (srLabels x)) R))"
  using memSelect_spec [OF assms(1) mem_reach_ok [OF assms(1,2)] assms(3,4)]
    memSelect_sorted [OF assms(1,4)]
  by (simp add: Let_def)

text \<open>On a store whose series are in time order, \<open>Prune\<close> removes from every label set exactly the
  samples older than the retention window, whatever the order in which the map is visited, and
  keeps the store well formed (no empty series, no empty bucket).\<close>

theorem mem_prune_exact:
  assumes "labels_ok L" and "mem_reach L r s" and "ranges ks (memSeriesOf s)"
    and "memRetention s \<noteq> 0" and "\<forall>l. time_sorted (mem_samples L s l)"
  shows "mem_samples L (prune ks s now) l
      = filter (\<lambda>x. sint (unixMilli (now - memRetention s)) \<le> sint (sT x)) (mem_samples L s l)
    \<and> mem_ok L (prune ks s now)"
  using mem_samples_prune [OF assms(1) mem_reach_ok [OF assms(1,2)] assms(3,4), of now l] assms(5)
    mem_ok_prune [OF mem_reach_ok [OF assms(1,2)] assms(3)]
  by (simp add: not_before_def [abs_def])

text \<open>\<open>LabelNames\<close> and \<open>LabelValues\<close> are sorted, free of duplicates, and list exactly the label
  names, and the non-empty values of the given name, of the series \<open>Select\<close> returns for the same
  matchers and time range.\<close>

theorem mem_labels_agree:
  assumes "is_sort (series_less L) srt" and "ranges ks (memSeriesOf s)" and "ranges ks' (memSeriesOf s)"
  shows "let R = set (ssSeries (memSelect L srt ks' s sortSeries mint maxt ms)) in
    \<exists>names values.
      memLabelNames L ks s mint maxt ms = Inr names \<and> memLabelValues L ks s name mint maxt ms = Inr values \<and>
      sorted names \<and> distinct names \<and> set names = (\<Union>x \<in> R. fst ` set (lrange L (srLabels x))) \<and>
      sorted values \<and> distinct values \<and>
      set values = {v. v \<noteq> '''' \<and> (\<exists>x \<in> R. v = lget L (srLabels x) name)}"
proof -
  have same: "set (ssSeries (memSelect L srt ks' s sortSeries mint maxt ms))
      = set (ssSeries (memSelect L srt ks s sortSeries mint maxt ms))"
    using set_all_series [OF assms(2)] set_all_series [OF assms(3)]
    by (auto simp: set_memSelect [OF assms(1)] selectBucket_filter)
  obtain names vals where nv: "memLabelNames L ks s mint maxt ms = Inr names"
    "memLabelValues L ks s name mint maxt ms = Inr vals"
    by (simp add: memLabelNames_def memLabelValues_def)
  then have "sorted names" "distinct names" "sorted vals" "distinct vals"
    by (auto simp: memLabelNames_def memLabelValues_def)
  with nv show ?thesis
    unfolding Let_def same
    using set_memLabelNames [OF nv(1) assms(1), of sortSeries] set_memLabelValues [OF nv(2) assms(1), of sortSeries]
    by blast
qed

text \<open>A concrete store for the witnesses: one bucket of two series, under a hash that collides.\<close>

abbreviation (input) demo_api :: "(string \<times> string) list labels_api" where
  "demo_api \<equiv> list_labels (\<lambda>_. 1)"

abbreviation (input) demo_batch :: "(string \<times> string) list pendingSample list" where
  "demo_batch \<equiv> [pending [(''a'', ''1'')] 1000 7, pending [(''b'', ''2'')] 1500 8, pending [(''a'', ''1'')] 2000 9]"

abbreviation (input) demo_store :: "(string \<times> string) list memStore" where
  "demo_store \<equiv> appendSamples demo_api (newMemStore 1000000000) demo_batch"

lemma demo_series:
  "memSeriesOf demo_store = [1 \<mapsto>
     [\<lparr>msRef = 1, msLset = [(''a'', ''1'')], msSamples = [\<lparr>sT = 1000, sV = 7\<rparr>, \<lparr>sT = 2000, sV = 9\<rparr>]\<rparr>,
      \<lparr>msRef = 2, msLset = [(''b'', ''2'')], msSamples = [\<lparr>sT = 1500, sV = 8\<rparr>]\<rparr>]]"
  by (simp add: appendSamples_def appendSample_def list_labels_def newMemStore_def Let_def fun_eq_iff)

lemma demo_ranges: "ranges [1] (memSeriesOf demo_store)"
  unfolding demo_series by (simp add: ranges_def)

lemma demo_reach: "mem_reach demo_api 1000000000 demo_store"
  by (rule mem_commit [OF mem_start])

lemma demo_sort: "is_sort (series_less demo_api) (isort (series_less demo_api))"
  by (rule isort_is_sort [OF strict_weak_series_less [OF list_labels_ok]])

theorem mem_reach_select_witness:
  "let R = ssSeries (memSelect demo_api (isort (series_less demo_api)) [1] demo_store True 1200 2000 []) in
   select_spec demo_api [] 1200 2000 (mem_samples demo_api demo_store) R \<and>
   sorted (map (\<lambda>x. lrange demo_api (srLabels x)) R) \<and>
   R = [\<lparr>srLabels = [(''a'', ''1'')], srSamples = [\<lparr>sT = 2000, sV = 9\<rparr>]\<rparr>,
        \<lparr>srLabels = [(''b'', ''2'')], srSamples = [\<lparr>sT = 1500, sV = 8\<rparr>]\<rparr>]"
proof -
  have "ssSeries (memSelect demo_api (isort (series_less demo_api)) [1] demo_store True 1200 2000 []) =
      [\<lparr>srLabels = [(''a'', ''1'')], srSamples = [\<lparr>sT = 2000, sV = 9\<rparr>]\<rparr>,
       \<lparr>srLabels = [(''b'', ''2'')], srSamples = [\<lparr>sT = 1500, sV = 8\<rparr>]\<rparr>]"
    unfolding memSelect_def demo_series
    by (simp add: Let_def isort_def series_less_def list_labels_def)
  then show ?thesis
    using mem_reach_select [OF list_labels_ok demo_reach demo_ranges demo_sort,
        where ms = "[]" and mint = 1200 and maxt = 2000 and sortSeries = True]
    by (simp add: Let_def)
qed

theorem mem_prune_exact_witness:
  "mem_samples demo_api (prune [1] demo_store 2500000000) [(''a'', ''1'')] = [\<lparr>sT = 2000, sV = 9\<rparr>]"
proof -
  have "mem_samples demo_api demo_store l =
      (if l = [(''a'', ''1'')] then [\<lparr>sT = 1000, sV = 7\<rparr>, \<lparr>sT = 2000, sV = 9\<rparr>]
       else if l = [(''b'', ''2'')] then [\<lparr>sT = 1500, sV = 8\<rparr>] else [])" for l
    unfolding mem_samples_def demo_series by (auto simp: bucket_samples_def list_labels_def)
  moreover from this have "\<forall>l. time_sorted (mem_samples demo_api demo_store l)"
    by (auto simp: time_sorted_def)
  moreover have "memRetention demo_store = 1000000000"
    by (simp add: appendSamples_def appendSample_def list_labels_def newMemStore_def Let_def)
  ultimately show ?thesis
    using mem_prune_exact [OF list_labels_ok demo_reach demo_ranges, of 2500000000 "[(''a'', ''1'')]"]
    by (simp add: unixMilli_def)
qed

theorem mem_labels_agree_witness:
  "let R = set (ssSeries (memSelect demo_api (isort (series_less demo_api)) [1] demo_store False 0 1600 [])) in
    \<exists>names values.
      memLabelNames demo_api [1] demo_store 0 1600 [] = Inr names \<and>
      memLabelValues demo_api [1] demo_store ''a'' 0 1600 [] = Inr values \<and>
      set names = (\<Union>x \<in> R. fst ` set (lrange demo_api (srLabels x))) \<and>
      set values = {v. v \<noteq> '''' \<and> (\<exists>x \<in> R. v = lget demo_api (srLabels x) ''a'')}"
proof -
  obtain names vals where
    "memLabelNames demo_api [1] demo_store 0 1600 [] = Inr names"
    "memLabelValues demo_api [1] demo_store ''a'' 0 1600 [] = Inr vals"
    "set names = (\<Union>x \<in> set (ssSeries (memSelect demo_api (isort (series_less demo_api)) [1] demo_store False 0 1600 [])).
       fst ` set (lrange demo_api (srLabels x)))"
    "set vals = {v. v \<noteq> '''' \<and>
       (\<exists>x \<in> set (ssSeries (memSelect demo_api (isort (series_less demo_api)) [1] demo_store False 0 1600 [])).
          v = lget demo_api (srLabels x) ''a'')}"
    using mem_labels_agree [OF demo_sort demo_ranges demo_ranges, where sortSeries = False and name = "''a''"
      and mint = 0 and maxt = 1600 and ms = "[]", unfolded Let_def] by (elim exE conjE) (rule that)
  then show ?thesis unfolding Let_def by (intro exI conjI)
qed

end
