(* ===== verification/Remote.thy ===== *)
theory Remote
  imports MemStore "HOL-Library.AList"
begin

text \<open>
  \<open>internal/store/prometheus_remote.go\<close> and \<open>victoriametrics.go\<close>: the two stores that forward
  samples over HTTP. Their state outside of the process is the list of what they have done so far
  (requests and pauses); the peer is a function from that history to the answer to the last request.
  Encoders, URL functions and the peer are the fields of \<open>remote_env\<close>.
\<close>

section \<open>The network\<close>

record httpReq =
  hqURL :: string
  hqHeaders :: "(string \<times> string) list"
  hqAuth :: "(string \<times> string) option"
  hqBody :: "byte list"

datatype netEvent = Slept i64 | Posted httpReq

datatype answer = NoResponse string | Status nat

section \<open>Configuration\<close>

text \<open>
  The two configuration structs have the same fields. A batch size and a number of retries are never
  negative here: the server sets neither of them.
\<close>

record remoteConfig =
  rcWriteURL :: string
  rcReadURL :: string
  rcTimeout :: int
  rcUsername :: string
  rcPassword :: string
  rcBatchSize :: nat
  rcMaxRetries :: nat

definition newPrometheusRemote :: "remoteConfig \<Rightarrow> remoteConfig" where
  "newPrometheusRemote cfg =
     (let cfg = (if rcBatchSize cfg = 0 then cfg\<lparr>rcBatchSize := 500\<rparr> else cfg);
          cfg = (if rcMaxRetries cfg = 0 then cfg\<lparr>rcMaxRetries := 3\<rparr> else cfg)
      in if rcTimeout cfg = 0 then cfg\<lparr>rcTimeout := 30 * 10 ^ 9\<rparr> else cfg)"

definition newVMRemote :: "remoteConfig \<Rightarrow> remoteConfig" where
  "newVMRemote cfg =
     (let cfg = (if rcBatchSize cfg = 0 then cfg\<lparr>rcBatchSize := 500\<rparr> else cfg);
          cfg = (if rcMaxRetries cfg = 0 then cfg\<lparr>rcMaxRetries := 3\<rparr> else cfg)
      in if rcTimeout cfg = 0 then cfg\<lparr>rcTimeout := 30 * 10 ^ 9\<rparr> else cfg)"

section \<open>What is sent\<close>

record promTimeSeries =
  tsLabels :: "(string \<times> string) list"
  tsSamples :: "sample list"

text \<open>The JSON row; the map \<open>Metric\<close> is an association list.\<close>

record vmImportRow =
  vrMetric :: "(string \<times> string) list"
  vrValues :: "f64 list"
  vrTimestamps :: "i64 list"

record remote_env =
  reNewRequest :: "string \<Rightarrow> err"                              \<comment> \<open>\<open>http.NewRequest\<close> with this URL\<close>
  rePeer :: "netEvent list \<Rightarrow> answer"
  reMarshal :: "promTimeSeries list \<Rightarrow> string + byte list"     \<comment> \<open>\<open>WriteRequest.Marshal\<close>\<close>
  reSnappy :: "byte list \<Rightarrow> byte list"
  reEncodeRow :: "vmImportRow \<Rightarrow> string + byte list"          \<comment> \<open>\<open>json.Encoder.Encode\<close>\<close>
  reRead :: "httpReq \<Rightarrow> string + nat \<times> byte list"             \<comment> \<open>status and body of a \<open>GET\<close>\<close>
  reDecodeRows :: "byte list \<Rightarrow> (string + vmImportRow) list"  \<comment> \<open>\<open>More\<close> and \<open>Decode\<close> until the end of the stream\<close>
  reQueryEscape :: "string \<Rightarrow> string"
  reQuote :: "string \<Rightarrow> string"                               \<comment> \<open>\<open>%q\<close>\<close>

section \<open>Sending with retries\<close>

definition basicAuthOf :: "remoteConfig \<Rightarrow> (string \<times> string) option" where
  "basicAuthOf cfg = (if rcUsername cfg \<noteq> '''' then Some (rcUsername cfg, rcPassword cfg) else None)"

text \<open>\<open>time.Duration(1<<attempt) * 100 * time.Millisecond\<close>; a shift by 64 or more gives 0.\<close>

definition backoff :: "nat \<Rightarrow> i64" where
  "backoff attempt = word_of_nat (2 ^ attempt) * 100 * 1000000"

text \<open>The attempts from number \<open>attempt\<close> on, \<open>left\<close> of them; both stores have this loop.\<close>

fun attempts :: "remote_env \<Rightarrow> string \<Rightarrow> httpReq \<Rightarrow> nat \<Rightarrow> nat \<Rightarrow> netEvent list \<Rightarrow> err \<times> netEvent list" where
  "attempts E what req attempt 0 net = (None, net)"
| "attempts E what req attempt (Suc left) net =
     (let net = (if attempt > 0 then net @ [Slept (backoff attempt)] else net)
      in case reNewRequest E (hqURL req) of
           Some e \<Rightarrow> (Some (''creating request: '' @ e), net)
         | None \<Rightarrow>
             let net = net @ [Posted req]
             in case rePeer E net of
                  NoResponse e \<Rightarrow> attempts E what req (Suc attempt) left net
                | Status code \<Rightarrow>
                    if code div 100 = 2 then (None, net)
                    else if code div 100 = 5 then attempts E what req (Suc attempt) left net
                    else (Some (what @ '': status '' @ fmt_nat code), net))"

definition promRequest :: "remoteConfig \<Rightarrow> byte list \<Rightarrow> httpReq" where
  "promRequest cfg compressed =
     \<lparr>hqURL = rcWriteURL cfg,
      hqHeaders = [(''Content-Type'', ''application/x-protobuf''), (''Content-Encoding'', ''snappy''),
        (''X-Prometheus-Remote-Write-Version'', ''0.1.0'')],
      hqAuth = basicAuthOf cfg, hqBody = compressed\<rparr>"

definition promSend :: "remote_env \<Rightarrow> remoteConfig \<Rightarrow> promTimeSeries list \<Rightarrow> netEvent list \<Rightarrow> err \<times> netEvent list" where
  "promSend E cfg timeseries net =
     (case reMarshal E timeseries of
        Inl e \<Rightarrow> (Some (''marshaling write request: '' @ e), net)
      | Inr data \<Rightarrow> attempts E ''remote write'' (promRequest cfg (reSnappy E data)) 0 (rcMaxRetries cfg) net)"

text \<open>\<open>strings.TrimRight(url, "/")\<close>.\<close>

definition trimSlashes :: "string \<Rightarrow> string" where
  "trimSlashes s = rev (dropWhile (\<lambda>c. c = CHR ''/'') (rev s))"

fun encodeRows :: "remote_env \<Rightarrow> vmImportRow list \<Rightarrow> string + byte list" where
  "encodeRows E [] = Inr []"
| "encodeRows E (row # rows) =
     sbind (case reEncodeRow E row of Inl e \<Rightarrow> Inl (''encoding import row: '' @ e) | Inr bs \<Rightarrow> Inr bs) (\<lambda>bs.
     sbind (encodeRows E rows) (\<lambda>buf. Inr (bs @ buf)))"

definition vmRequest :: "remoteConfig \<Rightarrow> byte list \<Rightarrow> httpReq" where
  "vmRequest cfg buf =
     \<lparr>hqURL = trimSlashes (rcWriteURL cfg) @ ''/api/v1/import'',
      hqHeaders = [(''Content-Type'', ''application/json'')], hqAuth = basicAuthOf cfg, hqBody = buf\<rparr>"

definition vmSend :: "remote_env \<Rightarrow> remoteConfig \<Rightarrow> vmImportRow list \<Rightarrow> netEvent list \<Rightarrow> err \<times> netEvent list" where
  "vmSend E cfg rows net =
     (case encodeRows E rows of
        Inl e \<Rightarrow> (Some e, net)
      | Inr buf \<Rightarrow> attempts E ''VM write'' (vmRequest cfg buf) 0 (rcMaxRetries cfg) net)"

text \<open>
  The batches \<open>pending[i:end]\<close>. The constructors make the batch size positive; with a batch size of 0 the
  loop of the code would send empty batches for ever, and that case is only here to make the recursion
  well-founded.
\<close>

function sendBatches ::
  "('b list \<Rightarrow> netEvent list \<Rightarrow> err \<times> netEvent list) \<Rightarrow> nat \<Rightarrow> 'b list \<Rightarrow> netEvent list \<Rightarrow> err \<times> netEvent list" where
  "sendBatches send batchSize items net =
     (if items = [] \<or> batchSize = 0 then (None, net)
      else case send (take batchSize items) net of
        (Some e, net) \<Rightarrow> (Some e, net)
      | (None, net) \<Rightarrow> sendBatches send batchSize (drop batchSize items) net)"
  by pat_completeness auto
termination
  by (relation "measure (\<lambda>(send, batchSize, items, net). length items)") auto

declare sendBatches.simps [simp del]

section \<open>The Prometheus appender\<close>

text \<open>Its state: the network, and the pending series.\<close>

type_synonym promAppender = "netEvent list \<times> promTimeSeries list"

definition promRemoteAppender :: "netEvent list \<Rightarrow> promAppender" where
  "promRemoteAppender net = (net, [])"

definition promAppend :: "'l labels_api \<Rightarrow> promAppender \<Rightarrow> 'l \<Rightarrow> i64 \<Rightarrow> f64 \<Rightarrow> err \<times> promAppender" where
  "promAppend L a l t v =
     (None, (fst a, snd a @ [\<lparr>tsLabels = lrange L l, tsSamples = [\<lparr>sT = t, sV = v\<rparr>]\<rparr>]))"

definition promCommit :: "remote_env \<Rightarrow> remoteConfig \<Rightarrow> promAppender \<Rightarrow> err \<times> promAppender" where
  "promCommit E cfg a =
     (case a of (net, batch) \<Rightarrow>
        if batch = [] then (None, (net, []))
        else case sendBatches (promSend E cfg) (rcBatchSize cfg) batch net of (r, net) \<Rightarrow> (r, (net, [])))"

definition promRollback :: "promAppender \<Rightarrow> err \<times> promAppender" where
  "promRollback a = (None, (fst a, []))"

definition prom_appender_ops :: "'l labels_api \<Rightarrow> remote_env \<Rightarrow> remoteConfig \<Rightarrow> (promAppender, 'l) appender_ops" where
  "prom_appender_ops L E cfg =
     \<lparr>apAppend = promAppend L, apCommit = promCommit E cfg, apRollback = promRollback\<rparr>"

text \<open>The read side is empty.\<close>

definition promSelect :: "i64 \<Rightarrow> i64 \<Rightarrow> matcher list \<Rightarrow> 'l sliceSeriesSet" where
  "promSelect mint maxt ms = newSliceSeriesSet []"

definition promLabelNames :: "i64 \<Rightarrow> i64 \<Rightarrow> matcher list \<Rightarrow> string + string list" where
  "promLabelNames mint maxt ms = Inr []"

definition promLabelValues :: "string \<Rightarrow> i64 \<Rightarrow> i64 \<Rightarrow> matcher list \<Rightarrow> string + string list" where
  "promLabelValues name mint maxt ms = Inr []"

section \<open>The VictoriaMetrics appender\<close>

record 'l vmPendingSeries =
  vpLset :: "'l"
  vpSamples :: "sample list"

text \<open>The map \<open>pending\<close> is an association list in the order of insertion.\<close>

type_synonym 'l vmAppender = "netEvent list \<times> (u64 \<times> 'l vmPendingSeries) list"

definition vmRemoteAppender :: "netEvent list \<Rightarrow> 'l vmAppender" where
  "vmRemoteAppender net = (net, [])"

definition vmAppend :: "'l labels_api \<Rightarrow> 'l vmAppender \<Rightarrow> 'l \<Rightarrow> i64 \<Rightarrow> f64 \<Rightarrow> err \<times> 'l vmAppender" where
  "vmAppend L a l t v =
     (let fp = lhash L l;
          ps = (case map_of (snd a) fp of None \<Rightarrow> \<lparr>vpLset = l, vpSamples = []\<rparr> | Some ps \<Rightarrow> ps)
      in (None, (fst a, AList.update fp (ps\<lparr>vpSamples := vpSamples ps @ [\<lparr>sT = t, sV = v\<rparr>]\<rparr>) (snd a))))"

definition vmRow :: "'l labels_api \<Rightarrow> 'l vmPendingSeries \<Rightarrow> vmImportRow" where
  "vmRow L ps =
     \<lparr>vrMetric = foldl (\<lambda>m (n, v). AList.update n v m) [] (lrange L (vpLset ps)),
      vrValues = map sV (vpSamples ps), vrTimestamps = map sT (vpSamples ps)\<rparr>"

text \<open>\<open>ord\<close> is the order in which the runtime visits the entries of the map.\<close>

definition vmCommit ::
  "'l labels_api \<Rightarrow> remote_env \<Rightarrow> remoteConfig \<Rightarrow>
     ((u64 \<times> 'l vmPendingSeries) list \<Rightarrow> (u64 \<times> 'l vmPendingSeries) list) \<Rightarrow> 'l vmAppender \<Rightarrow> err \<times> 'l vmAppender" where
  "vmCommit L E cfg ord a =
     (case a of (net, batch) \<Rightarrow>
        if batch = [] then (None, (net, []))
        else case sendBatches (vmSend E cfg) (rcBatchSize cfg) (map (\<lambda>(fp, ps). vmRow L ps) (ord batch)) net of
          (r, net) \<Rightarrow> (r, (net, [])))"

definition vmRollback :: "'l vmAppender \<Rightarrow> err \<times> 'l vmAppender" where
  "vmRollback a = (None, (fst a, []))"

definition vm_appender_ops ::
  "'l labels_api \<Rightarrow> remote_env \<Rightarrow> remoteConfig \<Rightarrow>
     ((u64 \<times> 'l vmPendingSeries) list \<Rightarrow> (u64 \<times> 'l vmPendingSeries) list) \<Rightarrow> ('l vmAppender, 'l) appender_ops" where
  "vm_appender_ops L E cfg ord =
     \<lparr>apAppend = vmAppend L, apCommit = vmCommit L E cfg ord, apRollback = vmRollback\<rparr>"

subsection \<open>Reading\<close>

definition matcherOp :: "match_type \<Rightarrow> string" where
  "matcherOp t = (case t of
     MatchEqual \<Rightarrow> ''='' | MatchNotEqual \<Rightarrow> ''!='' | MatchRegexp \<Rightarrow> ''=~'' | MatchNotRegexp \<Rightarrow> ''!~'')"

fun joinComma :: "string list \<Rightarrow> string" where
  "joinComma [] = ''''"
| "joinComma [p] = p"
| "joinComma (p # q # ps) = p @ '','' @ joinComma (q # ps)"

definition buildMatcherQuery :: "remote_env \<Rightarrow> matcher list \<Rightarrow> string" where
  "buildMatcherQuery E ms =
     (if ms = [] then ''{__name__=~'' @ [CHR 0x22] @ ''.+'' @ [CHR 0x22] @ ''}''
      else ''{'' @ joinComma (map (\<lambda>m. mName m @ matcherOp (mType m) @ reQuote E (mValue m)) ms) @ ''}'')"

definition vmReadRequest :: "remote_env \<Rightarrow> remoteConfig \<Rightarrow> i64 \<Rightarrow> i64 \<Rightarrow> matcher list \<Rightarrow> httpReq" where
  "vmReadRequest E cfg mint maxt ms =
     \<lparr>hqURL = trimSlashes (rcReadURL cfg) @ ''/api/v1/export?match[]='' @ reQueryEscape E (buildMatcherQuery E ms) @
        ''&start='' @ fmt_int (sint mint) @ ''&end='' @ fmt_int (sint maxt),
      hqHeaders = [], hqAuth = basicAuthOf cfg, hqBody = []\<rparr>"

text \<open>Indexing \<open>row.Timestamps\<close> by the positions of \<open>row.Values\<close> panics when there are fewer: \<open>None\<close>.\<close>

definition rowSeries :: "'l labels_api \<Rightarrow> vmImportRow \<Rightarrow> 'l series option" where
  "rowSeries L row =
     (if length (vrTimestamps row) < length (vrValues row) then None
      else Some \<lparr>srLabels = lbuild L (lempty L) (vrMetric row),
                 srSamples = map (\<lambda>(t, v). \<lparr>sT = t, sV = v\<rparr>) (zip (vrTimestamps row) (vrValues row))\<rparr>)"

fun readRows :: "'l labels_api \<Rightarrow> (string + vmImportRow) list \<Rightarrow> 'l series list option" where
  "readRows L [] = Some []"
| "readRows L (Inl e # rows) = Some []"
| "readRows L (Inr row # rows) =
     Option.bind (rowSeries L row) (\<lambda>s. Option.bind (readRows L rows) (\<lambda>ss. Some (s # ss)))"

definition vmSelect ::
  "'l labels_api \<Rightarrow> remote_env \<Rightarrow> remoteConfig \<Rightarrow> ('l series list \<Rightarrow> 'l series list) \<Rightarrow> bool \<Rightarrow> i64 \<Rightarrow> i64 \<Rightarrow> matcher list \<Rightarrow>
     'l sliceSeriesSet option" where
  "vmSelect L E cfg srt sortSeries mint maxt ms =
     (if rcReadURL cfg = '''' then Some (newSliceSeriesSet [])
      else let req = vmReadRequest E cfg mint maxt ms
      in if reNewRequest E (hqURL req) \<noteq> None then Some (newSliceSeriesSet [])
      else case reRead E req of
        Inl e \<Rightarrow> Some (newSliceSeriesSet [])
      | Inr (status, body) \<Rightarrow>
          if status \<noteq> 200 then Some (newSliceSeriesSet [])
          else map_option (\<lambda>result. newSliceSeriesSet (if sortSeries then srt result else result))
                 (readRows L (reDecodeRows E body)))"

definition vmLabelNames :: "i64 \<Rightarrow> i64 \<Rightarrow> matcher list \<Rightarrow> string + string list" where
  "vmLabelNames mint maxt ms = Inr []"

definition vmLabelValues :: "string \<Rightarrow> i64 \<Rightarrow> i64 \<Rightarrow> matcher list \<Rightarrow> string + string list" where
  "vmLabelValues name mint maxt ms = Inr []"

end
