(* ===== verification/Otlp.thy ===== *)
theory Otlp
  imports Prelude
begin

text \<open>
  The OTLP metrics request as the translator reads it: the fields of the generated protobuf messages
  that it accesses through their getters. A getter of a missing message returns zero values, so a
  missing message that is only read through getters is the record of zero values; where the code
  tests for \<open>nil\<close> the field is an option.
\<close>

section \<open>Attributes\<close>

datatype anyValue =
  StringValue string | BoolValue bool | IntValue i64 | DoubleValue f64 | OtherValue

record keyValue =
  kvKey :: string
  kvValue :: "anyValue option"

section \<open>Data points\<close>

datatype numberData = AsDouble f64 | AsInt i64 | NoNumber

record numberDataPoint =
  ndAttributes :: "keyValue list"
  ndTimeUnixNano :: u64
  ndValue :: numberData

record histogramDataPoint =
  hdAttributes :: "keyValue list"
  hdTimeUnixNano :: u64
  hdCount :: u64
  hdSum :: "f64 option"
  hdExplicitBounds :: "f64 list"
  hdBucketCounts :: "u64 list"

record expBuckets =
  ebOffset :: "32 word"
  ebBucketCounts :: "u64 list"

record expHistogramDataPoint =
  edAttributes :: "keyValue list"
  edTimeUnixNano :: u64
  edCount :: u64
  edSum :: "f64 option"
  edScale :: "32 word"
  edZeroCount :: u64
  edPositive :: "expBuckets option"
  edNegative :: "expBuckets option"

record summaryDataPoint =
  sdAttributes :: "keyValue list"
  sdTimeUnixNano :: u64
  sdCount :: u64
  sdSum :: f64
  sdQuantileValues :: "(f64 \<times> f64) list"

section \<open>Metrics\<close>

datatype temporality = Unspecified | Delta | Cumulative

datatype metricData =
    Gauge "numberDataPoint list"
  | Sum temporality bool "numberDataPoint list"
  | Histogram temporality "histogramDataPoint list"
  | ExponentialHistogram temporality "expHistogramDataPoint list"
  | Summary "summaryDataPoint list"
  | NoData

record metric =
  mtName :: string
  mtUnit :: string
  mtData :: metricData

record scope =
  scName :: string
  scVersion :: string

record scopeMetrics =
  smScope :: "scope option"
  smSchemaUrl :: string
  smMetrics :: "metric list"

record resourceMetrics =
  rmAttributes :: "keyValue list"
  rmSchemaUrl :: string
  rmScopeMetrics :: "scopeMetrics list"

type_synonym exportRequest = "resourceMetrics list"

record exemplarMsg =
  exTimeUnixNano :: u64
  exValue :: numberData
  exTraceId :: "byte list"
  exSpanId :: "byte list"
  exFilteredAttributes :: "keyValue list"

end
