(* ===== verification/MetricNames.thy ===== *)
theory MetricNames
  imports Prelude
begin

text \<open>
  The name functions of \<open>internal/ingest/translator.go\<close>: sanitising metric and label names and the
  unit and type suffixes. A Go string is its bytes; \<open>strings.Map\<close> decodes UTF-8. The Unicode tables
  behind \<open>unicode.IsLetter\<close> and \<open>unicode.IsDigit\<close> are a parameter; only their documented content
  for ASCII and Latin-1 and for the replacement character is used (\<open>unicode_ok\<close>).
\<close>

section \<open>Runes\<close>

record unicode =
  uLetter :: "nat \<Rightarrow> bool"
  uDigit :: "nat \<Rightarrow> bool"

definition ascii_letter :: "nat \<Rightarrow> bool" where
  "ascii_letter c \<longleftrightarrow> 65 \<le> c \<and> c \<le> 90 \<or> 97 \<le> c \<and> c \<le> 122"

definition ascii_digit :: "nat \<Rightarrow> bool" where
  "ascii_digit c \<longleftrightarrow> 48 \<le> c \<and> c \<le> 57"

definition unicode_ok :: "unicode \<Rightarrow> bool" where
  "unicode_ok U \<longleftrightarrow> (\<forall>c < 128. uLetter U c = ascii_letter c) \<and> (\<forall>c < 256. uDigit U c = ascii_digit c) \<and>
     \<not> uLetter U 0xFFFD \<and> \<not> uDigit U 0xFFFD"

definition ascii_tables :: unicode where
  "ascii_tables = \<lparr>uLetter = ascii_letter, uDigit = ascii_digit\<rparr>"

lemma ascii_tables_ok: "unicode_ok ascii_tables"
  by (simp add: unicode_ok_def ascii_tables_def ascii_letter_def ascii_digit_def)

text \<open>\<open>utf8.DecodeRune\<close>: the rune and its width; an invalid byte is the replacement character of width 1.\<close>

definition in_byte_range :: "nat \<Rightarrow> nat \<Rightarrow> nat \<Rightarrow> bool" where
  "in_byte_range lo hi b \<longleftrightarrow> lo \<le> b \<and> b \<le> hi"

definition decodeRune :: "nat list \<Rightarrow> nat \<times> nat" where
  "decodeRune bs =
     (case bs of
        [] \<Rightarrow> (0xFFFD, 1)
      | b0 # r0 \<Rightarrow>
          if b0 < 0x80 then (b0, 1)
          else case r0 of
            [] \<Rightarrow> (0xFFFD, 1)
          | b1 # r1 \<Rightarrow>
              if in_byte_range 0xC2 0xDF b0
              then (if in_byte_range 0x80 0xBF b1 then ((b0 - 0xC0) * 64 + (b1 - 0x80), 2) else (0xFFFD, 1))
              else if in_byte_range 0xE0 0xEF b0
              then (case r1 of
                      [] \<Rightarrow> (0xFFFD, 1)
                    | b2 # _ \<Rightarrow>
                        if in_byte_range (if b0 = 0xE0 then 0xA0 else 0x80) (if b0 = 0xED then 0x9F else 0xBF) b1 \<and>
                           in_byte_range 0x80 0xBF b2
                        then ((b0 - 0xE0) * 4096 + (b1 - 0x80) * 64 + (b2 - 0x80), 3) else (0xFFFD, 1))
              else if in_byte_range 0xF0 0xF4 b0
              then (case r1 of
                      b2 # b3 # _ \<Rightarrow>
                        if in_byte_range (if b0 = 0xF0 then 0x90 else 0x80) (if b0 = 0xF4 then 0x8F else 0xBF) b1 \<and>
                           in_byte_range 0x80 0xBF b2 \<and> in_byte_range 0x80 0xBF b3
                        then ((b0 - 0xF0) * 262144 + (b1 - 0x80) * 4096 + (b2 - 0x80) * 64 + (b3 - 0x80), 4)
                        else (0xFFFD, 1)
                    | _ \<Rightarrow> (0xFFFD, 1))
              else (0xFFFD, 1))"

text \<open>\<open>strings.Map\<close> with a function that keeps a rune or replaces it by \<open>_\<close>.\<close>

function mapRunes :: "(nat \<Rightarrow> bool) \<Rightarrow> string \<Rightarrow> string" where
  "mapRunes keep s =
     (if s = [] then []
      else case decodeRune (map of_char s) of
        (r, w) \<Rightarrow> (if keep r then take w s else ''_'') @ mapRunes keep (drop (max 1 w) s))"
  by pat_completeness auto
termination
  by (relation "measure (\<lambda>(keep, s). length s)") auto

declare mapRunes.simps [simp del]

section \<open>Names\<close>

text \<open>\<open>regexp.MustCompile(`_+`)\<close>, \<open>ReplaceAllString(name, "_")\<close>.\<close>

fun collapseUnderscores :: "string \<Rightarrow> string" where
  "collapseUnderscores [] = []"
| "collapseUnderscores [c] = [c]"
| "collapseUnderscores (c # d # s) =
     (if c = CHR ''_'' \<and> d = CHR ''_'' then collapseUnderscores (d # s)
      else c # collapseUnderscores (d # s))"

definition trimUnderscores :: "string \<Rightarrow> string" where
  "trimUnderscores s = rev (dropWhile (\<lambda>c. c = CHR ''_'') (rev (dropWhile (\<lambda>c. c = CHR ''_'') s)))"

text \<open>\<open>unicode.IsDigit(rune(name[0]))\<close> takes the first byte as a code point.\<close>

definition sanitizeWith :: "unicode \<Rightarrow> (nat \<Rightarrow> bool) \<Rightarrow> string \<Rightarrow> string" where
  "sanitizeWith U keep name =
     (let name = trimUnderscores (collapseUnderscores (mapRunes keep name))
      in if length name > 0 \<and> uDigit U (of_char (hd name)) then CHR ''_'' # name else name)"

definition sanitizeMetricName :: "unicode \<Rightarrow> string \<Rightarrow> string" where
  "sanitizeMetricName U = sanitizeWith U (\<lambda>r. uLetter U r \<or> uDigit U r \<or> r = 95 \<or> r = 58)"

definition sanitizeLabelName :: "unicode \<Rightarrow> string \<Rightarrow> string" where
  "sanitizeLabelName U = sanitizeWith U (\<lambda>r. uLetter U r \<or> uDigit U r \<or> r = 95)"

definition unitMap :: "(string \<times> string) list" where
  "unitMap =
     [(''s'', ''seconds''), (''ms'', ''milliseconds''), (''us'', ''microseconds''), (''ns'', ''nanoseconds''),
      (''m'', ''meters''), (''km'', ''kilometers''), (''By'', ''bytes''), (''KBy'', ''kilobytes''),
      (''MBy'', ''megabytes''), (''GBy'', ''gigabytes''), (''1'', ''ratio''), (''%'', ''percent'')]"

definition hasSuffix :: "string \<Rightarrow> string \<Rightarrow> bool" where
  "hasSuffix s suf \<longleftrightarrow> length suf \<le> length s \<and> drop (length s - length suf) s = suf"

definition addUnitSuffix :: "unicode \<Rightarrow> string \<Rightarrow> string \<Rightarrow> string" where
  "addUnitSuffix U name u =
     (let u = (case map_of unitMap u of Some mapped \<Rightarrow> mapped | None \<Rightarrow> u);
          suffix = ''_'' @ sanitizeMetricName U u
      in if hasSuffix name suffix then name else name @ suffix)"

definition addTypeSuffix :: "string \<Rightarrow> string \<Rightarrow> string" where
  "addTypeSuffix name suffix =
     (let s = ''_'' @ suffix in if hasSuffix name s then name else name @ s)"

section \<open>Sanitised names\<close>

text \<open>
  A clean name: only the given characters, no two underscores in a row, no underscore at the end or,
  unless it protects a digit, at the start, and no digit at the start.
\<close>

fun no_double :: "string \<Rightarrow> bool" where
  "no_double (c # d # s) \<longleftrightarrow> \<not> (c = CHR ''_'' \<and> d = CHR ''_'') \<and> no_double (d # s)"
| "no_double s \<longleftrightarrow> True"

definition is_ascii :: "string \<Rightarrow> bool" where
  "is_ascii s \<longleftrightarrow> (\<forall>c \<in> set s. (of_char c :: nat) < 128)"

definition digit_byte :: "char \<Rightarrow> bool" where
  "digit_byte c \<longleftrightarrow> ascii_digit (of_char c)"

definition name_char :: "bool \<Rightarrow> char \<Rightarrow> bool" where
  "name_char colon c \<longleftrightarrow> ascii_letter (of_char c) \<or> digit_byte c \<or> c = CHR ''_'' \<or> colon \<and> c = CHR '':''"

definition clean_name :: "bool \<Rightarrow> string \<Rightarrow> bool" where
  "clean_name colon s \<longleftrightarrow> (\<forall>c \<in> set s. name_char colon c) \<and> no_double s \<and>
     (s \<noteq> [] \<longrightarrow> last s \<noteq> CHR ''_'' \<and> \<not> digit_byte (hd s)) \<and>
     (\<forall>s'. s = CHR ''_'' # s' \<longrightarrow> s' \<noteq> [] \<and> digit_byte (hd s'))"

lemma mapRunes_ascii:
  "is_ascii s \<Longrightarrow> mapRunes keep s = map (\<lambda>c. if keep (of_char c) then c else CHR ''_'') s"
proof (induction s)
  case Nil
  show ?case by (simp add: mapRunes.simps)
next
  case (Cons c s)
  then have "decodeRune (map of_char (c # s)) = (of_char c, 1)"
    by (simp add: decodeRune_def is_ascii_def)
  with Cons show ?case by (simp add: mapRunes.simps [of keep "c # s"] is_ascii_def)
qed

lemma hd_collapse: "s \<noteq> [] \<Longrightarrow> collapseUnderscores s \<noteq> [] \<and> hd (collapseUnderscores s) = hd s"
  by (induction s rule: collapseUnderscores.induct) auto

lemma no_double_Cons: "no_double (c # s) \<longleftrightarrow> (s = [] \<or> \<not> (c = CHR ''_'' \<and> hd s = CHR ''_'')) \<and> no_double s"
  by (cases s) auto

lemma no_double_collapse: "no_double (collapseUnderscores s)"
  by (induction s rule: collapseUnderscores.induct) (auto simp: no_double_Cons hd_collapse [THEN conjunct2])

lemma collapse_id: "no_double s \<Longrightarrow> collapseUnderscores s = s"
  by (induction s rule: collapseUnderscores.induct) auto

lemma set_collapse: "set (collapseUnderscores s) \<subseteq> set s"
  by (induction s rule: collapseUnderscores.induct) auto

lemma no_double_append: "no_double (s @ t) \<Longrightarrow> no_double s \<and> no_double t"
  by (induction s) (auto simp: no_double_Cons hd_append split: if_splits)

lemma split_trim_right: "t = rev (dropWhile P (rev t)) @ rev (takeWhile P (rev t))"
  by (metis rev_append rev_rev_ident takeWhile_dropWhile_id)

lemma hd_trim_right: "dropWhile P (rev t) \<noteq> [] \<Longrightarrow> hd (rev (dropWhile P (rev t))) = hd t"
  by (metis hd_append2 rev_is_Nil_conv split_trim_right)

lemma trim_right_ne: "dropWhile P (rev t) \<noteq> [] \<Longrightarrow> t \<noteq> []"
  by auto

lemma trim_split:
  "\<exists>a b. s = a @ trimUnderscores s @ b"
proof -
  let ?P = "\<lambda>c. c = CHR ''_''"
  let ?t = "dropWhile ?P s"
  have "?t = rev (dropWhile ?P (rev ?t)) @ rev (takeWhile ?P (rev ?t))"
    by (rule split_trim_right)
  moreover have "s = takeWhile ?P s @ ?t" by simp
  ultimately show ?thesis unfolding trimUnderscores_def by metis
qed

lemma trim_ends:
  assumes "trimUnderscores s \<noteq> []"
  shows "hd (trimUnderscores s) \<noteq> CHR ''_'' \<and> last (trimUnderscores s) \<noteq> CHR ''_''"
proof -
  let ?P = "\<lambda>c. c = CHR ''_''"
  let ?t = "dropWhile ?P s"
  let ?u = "dropWhile ?P (rev ?t)"
  have u: "?u \<noteq> []" using assms by (simp add: trimUnderscores_def)
  then have "\<not> ?P (hd ?u)" by (rule hd_dropWhile)
  then have "last (trimUnderscores s) \<noteq> CHR ''_''" using u by (simp add: trimUnderscores_def last_rev)
  moreover have "?t \<noteq> []" by (rule trim_right_ne [OF u])
  then have "\<not> ?P (hd ?t)" by (rule hd_dropWhile)
  moreover have "hd (trimUnderscores s) = hd ?t"
    unfolding trimUnderscores_def by (rule hd_trim_right [OF u])
  ultimately show ?thesis by simp
qed

lemma trim_id: "s = [] \<or> hd s \<noteq> CHR ''_'' \<and> last s \<noteq> CHR ''_'' \<Longrightarrow> trimUnderscores s = s"
proof -
  have drop: "t = [] \<or> hd t \<noteq> CHR ''_'' \<Longrightarrow> dropWhile (\<lambda>c. c = CHR ''_'') t = t" for t
    by (cases t) auto
  assume "s = [] \<or> hd s \<noteq> CHR ''_'' \<and> last s \<noteq> CHR ''_''"
  then show ?thesis by (auto simp: trimUnderscores_def drop hd_rev)
qed

lemma digit_underscore: "\<not> digit_byte CHR ''_''"
  by (simp add: digit_byte_def ascii_digit_def)

lemma of_char_underscore: "(of_char c :: nat) = 95 \<longleftrightarrow> c = CHR ''_''" "(of_char c :: nat) = 58 \<longleftrightarrow> c = CHR '':''"
proof -
  have inv: "(of_char c :: nat) = n \<Longrightarrow> c = char_of n" for n by (metis char_of_char)
  have "char_of (95 :: nat) = CHR ''_''" "char_of (58 :: nat) = CHR '':''" by code_simp+
  then show "(of_char c :: nat) = 95 \<longleftrightarrow> c = CHR ''_''" "(of_char c :: nat) = 58 \<longleftrightarrow> c = CHR '':''"
    using inv [of 95] inv [of 58] by auto
qed

lemma of_char_byte: "(of_char c :: nat) < 256"
  by (metis of_char_mod_256 mod_less_divisor zero_less_numeral)

text \<open>The common part of the two sanitising functions.\<close>

definition keep_name :: "unicode \<Rightarrow> bool \<Rightarrow> nat \<Rightarrow> bool" where
  "keep_name U colon r \<longleftrightarrow> uLetter U r \<or> uDigit U r \<or> r = 95 \<or> colon \<and> r = 58"

lemma sanitize_keep:
  "sanitizeMetricName U = sanitizeWith U (keep_name U True)" "sanitizeLabelName U = sanitizeWith U (keep_name U False)"
  by (simp_all add: sanitizeMetricName_def sanitizeLabelName_def keep_name_def [abs_def])

lemma keep_name_char:
  "unicode_ok U \<Longrightarrow> (of_char c :: nat) < 128 \<Longrightarrow> keep_name U colon (of_char c) \<longleftrightarrow> name_char colon c"
  by (simp add: keep_name_def name_char_def unicode_ok_def digit_byte_def of_char_underscore)

lemma sanitized_clean:
  assumes U: "unicode_ok U" and s: "is_ascii s"
  shows "clean_name colon (sanitizeWith U (keep_name U colon) s)"
proof -
  let ?m = "map (\<lambda>c. if keep_name U colon (of_char c) then c else CHR ''_'') s"
  let ?t = "trimUnderscores (collapseUnderscores ?m)"
  have digit: "uDigit U (of_char c) \<longleftrightarrow> digit_byte c" for c :: char
    using U of_char_byte [of c] by (simp add: unicode_ok_def digit_byte_def)
  have run: "sanitizeWith U (keep_name U colon) s = (if ?t \<noteq> [] \<and> digit_byte (hd ?t) then CHR ''_'' # ?t else ?t)"
    by (simp add: sanitizeWith_def mapRunes_ascii [OF s] digit Let_def)
  obtain a b where split: "collapseUnderscores ?m = a @ ?t @ b" using trim_split by blast
  have m: "name_char colon c" if "c \<in> set ?m" for c
    using that s keep_name_char [OF U] by (auto simp: is_ascii_def name_char_def)
  have "set ?t \<subseteq> set (collapseUnderscores ?m)" by (subst split) auto
  then have chars: "\<forall>c \<in> set ?t. name_char colon c" using m set_collapse by blast
  have nd: "no_double ?t"
  proof -
    have "no_double (a @ ?t @ b)"
      by (rule subst [OF split, where P = no_double]) (rule no_double_collapse)
    then show ?thesis using no_double_append by blast
  qed
  have ends: "?t \<noteq> [] \<Longrightarrow> hd ?t \<noteq> CHR ''_'' \<and> last ?t \<noteq> CHR ''_''" by (rule trim_ends)
  show ?thesis
  proof (cases "?t \<noteq> [] \<and> digit_byte (hd ?t)")
    case True
    then show ?thesis
      using run chars nd ends by (auto simp: clean_name_def no_double_Cons name_char_def digit_underscore)
  next
    case False
    then show ?thesis
      using run chars nd ends by (auto simp: clean_name_def)
  qed
qed

lemma clean_ascii: "clean_name colon s \<Longrightarrow> is_ascii s"
  by (auto simp: clean_name_def is_ascii_def name_char_def digit_byte_def ascii_letter_def ascii_digit_def)

lemma sanitize_clean_id:
  assumes U: "unicode_ok U" and clean: "clean_name colon s"
  shows "sanitizeWith U (keep_name U colon) s = s"
proof -
  note s = clean_ascii [OF clean]
  have digit: "uDigit U (of_char c) \<longleftrightarrow> digit_byte c" for c :: char
    using U of_char_byte [of c] by (simp add: unicode_ok_def digit_byte_def)
  have "map (\<lambda>c. if keep_name U colon (of_char c) then c else CHR ''_'') s = s"
    using clean s keep_name_char [OF U] by (intro map_idI) (simp add: clean_name_def is_ascii_def)
  moreover have "collapseUnderscores s = s" using clean by (intro collapse_id) (simp add: clean_name_def)
  ultimately have run: "sanitizeWith U (keep_name U colon) s
      = (let t = trimUnderscores s in if t \<noteq> [] \<and> digit_byte (hd t) then CHR ''_'' # t else t)"
    by (simp add: sanitizeWith_def mapRunes_ascii [OF s] digit Let_def)
  show ?thesis
  proof (cases "s \<noteq> [] \<and> hd s = CHR ''_''")
    case True
    then obtain s' where s': "s = CHR ''_'' # s'" by (cases s) auto
    then have d: "s' \<noteq> []" "digit_byte (hd s')" "last s' \<noteq> CHR ''_''" using clean by (auto simp: clean_name_def)
    then have "hd s' \<noteq> CHR ''_''" using digit_underscore by auto
    with d have "trimUnderscores s' = s'" by (intro trim_id) simp
    then have t: "trimUnderscores s = s'" by (simp add: s' trimUnderscores_def)
    show ?thesis unfolding run t Let_def using d s' by simp
  next
    case False
    then have "trimUnderscores s = s" using clean by (intro trim_id) (auto simp: clean_name_def)
    then show ?thesis using clean by (auto simp: run Let_def clean_name_def)
  qed
qed

section \<open>Properties\<close>

text \<open>Sanitising an ASCII name gives a name of the allowed characters only, without two
  underscores in a row, that neither ends in an underscore nor starts with a digit, and sanitising it
  again changes nothing.\<close>

theorem sanitize_names:
  assumes "unicode_ok U" and "is_ascii s"
  shows "clean_name True (sanitizeMetricName U s) \<and> clean_name False (sanitizeLabelName U s) \<and>
    sanitizeMetricName U (sanitizeMetricName U s) = sanitizeMetricName U s \<and>
    sanitizeLabelName U (sanitizeLabelName U s) = sanitizeLabelName U s"
  using sanitized_clean [OF assms] sanitize_clean_id [OF assms(1) sanitized_clean [OF assms]]
  by (simp add: sanitize_keep)

theorem sanitize_names_witness:
  "clean_name True (sanitizeMetricName ascii_tables ''9.cpu--load%'') \<and>
   sanitizeMetricName ascii_tables ''9.cpu--load%'' = ''_9_cpu_load''"
proof -
  have ascii: "is_ascii ''9.cpu--load%''" by (simp add: is_ascii_def)
  have "sanitizeMetricName ascii_tables ''9.cpu--load%'' = ''_9_cpu_load''"
    by (simp add: sanitizeMetricName_def sanitizeWith_def mapRunes_ascii [OF ascii] ascii_tables_def
        ascii_letter_def ascii_digit_def trimUnderscores_def Let_def)
  with sanitize_names [OF ascii_tables_ok ascii] show ?thesis by simp
qed

end
