(* ===== verification/Float64.thy ===== *)
theory Float64
  imports Prelude
begin

text \<open>
  Go's \<open>float64\<close> where the code computes with it: conversion from integers and addition, IEEE 754
  binary64 with rounding to nearest, ties to even. A float is its bit pattern.
\<close>

unbundle bit_operations_syntax

definition f64_sign :: "f64 \<Rightarrow> bool" where
  "f64_sign v = bit v 63"

definition f64_exp :: "f64 \<Rightarrow> nat" where
  "f64_exp v = unat (take_bit 11 (drop_bit 52 v))"

definition f64_frac :: "f64 \<Rightarrow> nat" where
  "f64_frac v = unat (take_bit 52 v)"

definition f64_is_nan :: "f64 \<Rightarrow> bool" where
  "f64_is_nan v \<longleftrightarrow> f64_exp v = 2047 \<and> f64_frac v \<noteq> 0"

definition f64_is_inf :: "f64 \<Rightarrow> bool" where
  "f64_is_inf v \<longleftrightarrow> f64_exp v = 2047 \<and> f64_frac v = 0"

text \<open>A finite float is \<open>m * 2 ^ (e - 1074)\<close> with an integer \<open>m\<close>.\<close>

definition f64_mant :: "f64 \<Rightarrow> nat" where
  "f64_mant v = (if f64_exp v = 0 then f64_frac v else f64_frac v + 2 ^ 52)"

definition f64_scale :: "f64 \<Rightarrow> nat" where
  "f64_scale v = (if f64_exp v = 0 then 0 else f64_exp v - 1)"

text \<open>The value of a finite float, in units of \<open>2 ^ -1074\<close>.\<close>

definition f64_units :: "f64 \<Rightarrow> int" where
  "f64_units v = (if f64_sign v then -1 else 1) * int (f64_mant v * 2 ^ f64_scale v)"

fun bit_length :: "nat \<Rightarrow> nat" where
  "bit_length n = (if n = 0 then 0 else Suc (bit_length (n div 2)))"

declare bit_length.simps [simp del]

text \<open>Division by a power of two, to nearest, ties to even.\<close>

definition round_shift :: "nat \<Rightarrow> nat \<Rightarrow> nat" where
  "round_shift m s =
     (if s = 0 then m
      else let d = m div 2 ^ s; r = m mod 2 ^ s; h = 2 ^ (s - 1)
           in if r > h \<or> (r = h \<and> odd d) then d + 1 else d)"

text \<open>
  The bits of the magnitude nearest to \<open>m\<close> units. When the exponent and the mantissa with its
  leading bit are added, a mantissa that rounds up to the next power of two carries into the
  exponent, and a value too large becomes infinity.
\<close>

definition f64_round :: "nat \<Rightarrow> nat" where
  "f64_round m = (let s = bit_length m - 53 in min (round_shift m s + s * 2 ^ 52) (2047 * 2 ^ 52))"

definition f64_of_units :: "bool \<Rightarrow> nat \<Rightarrow> f64" where
  "f64_of_units neg m = (if neg then push_bit 63 1 else 0) + word_of_nat (f64_round m)"

definition f64_of_nat :: "nat \<Rightarrow> f64" where
  "f64_of_nat n = f64_of_units False (n * 2 ^ 1074)"

text \<open>\<open>float64(x)\<close> of an \<open>int64\<close> and of a \<open>uint64\<close>.\<close>

definition f64_of_i64 :: "i64 \<Rightarrow> f64" where
  "f64_of_i64 x = f64_of_units (sint x < 0) (nat \<bar>sint x\<bar> * 2 ^ 1074)"

definition f64_of_u64 :: "u64 \<Rightarrow> f64" where
  "f64_of_u64 x = f64_of_nat (unat x)"

definition f64_nan :: f64 where
  "f64_nan = 0x7FF8000000000001"

text \<open>Addition. Which NaN results is left open by the language; here it is Go's \<open>math.NaN()\<close>.\<close>

definition f64_add :: "f64 \<Rightarrow> f64 \<Rightarrow> f64" where
  "f64_add a b =
     (if f64_is_nan a \<or> f64_is_nan b then f64_nan
      else if f64_is_inf a then (if f64_is_inf b \<and> f64_sign a \<noteq> f64_sign b then f64_nan else a)
      else if f64_is_inf b then b
      else let u = f64_units a + f64_units b
           in if u = 0 then f64_of_units (f64_sign a \<and> f64_sign b) 0
              else f64_of_units (u < 0) (nat \<bar>u\<bar>))"

section \<open>Exactness\<close>

lemma bit_length_0 [simp]: "bit_length 0 = 0"
  by (simp add: bit_length.simps)

lemma bit_length_bound: "n < 2 ^ bit_length n"
proof (induction n rule: bit_length.induct)
  case (1 n)
  show ?case
  proof (cases "n = 0")
    case False
    then have "n div 2 < 2 ^ bit_length (n div 2)" using "1.IH" by simp
    then have "n < 2 * 2 ^ bit_length (n div 2)" by linarith
    with False show ?thesis by (subst bit_length.simps) simp
  qed (simp add: bit_length.simps)
qed

lemma bit_length_le: "n < 2 ^ k \<Longrightarrow> bit_length n \<le> k"
proof (induction n arbitrary: k rule: bit_length.induct)
  case (1 n)
  show ?case
  proof (cases "n = 0")
    case True
    then show ?thesis by (simp add: bit_length.simps)
  next
    case False
    then obtain k' where k: "k = Suc k'" using "1.prems" by (cases k) auto
    then have "n div 2 < 2 ^ k'" using "1.prems" by auto
    from "1.IH" [OF False this] False k show ?thesis by (subst bit_length.simps) simp
  qed
qed

lemma bit_length_lower: "n \<noteq> 0 \<Longrightarrow> 2 ^ (bit_length n - 1) \<le> n"
proof (rule ccontr)
  assume "n \<noteq> 0" "\<not> 2 ^ (bit_length n - 1) \<le> n"
  then have "bit_length n \<le> bit_length n - 1" using bit_length_le [of n "bit_length n - 1"] by simp
  moreover have "bit_length n \<noteq> 0" using \<open>n \<noteq> 0\<close> by (subst bit_length.simps) simp
  ultimately show False by simp
qed

text \<open>A magnitude with at most 53 significant bits, below the overflow threshold, is stored exactly.\<close>

lemma round_shift_exact: "2 ^ s dvd m \<Longrightarrow> round_shift m s = m div 2 ^ s"
  by (auto simp: round_shift_def Let_def dvd_eq_mod_eq_0)

lemma f64_round_exact:
  assumes "2 ^ (bit_length m - 53) dvd m" and "bit_length m \<le> 53 + 2045"
  shows "f64_round m = m div 2 ^ (bit_length m - 53) + (bit_length m - 53) * 2 ^ 52"
proof -
  let ?s = "bit_length m - 53"
  have "m < 2 ^ (53 + ?s)"
    using bit_length_bound [of m] by (rule less_le_trans) (intro power_increasing; simp)
  then have "m div 2 ^ ?s < 2 ^ 53"
    by (simp add: less_mult_imp_div_less power_add mult.commute)
  moreover have "?s * 2 ^ 52 \<le> 2045 * 2 ^ 52" using assms(2) by (intro mult_right_mono) simp_all
  ultimately have "m div 2 ^ ?s + ?s * 2 ^ 52 \<le> 2047 * 2 ^ 52" by simp
  then show ?thesis by (simp add: f64_round_def round_shift_exact [OF assms(1)] Let_def)
qed

text \<open>The fields of a float from its bits as a number.\<close>

lemma f64_fields:
  assumes v: "unat v = (if neg then 2 ^ 63 else 0) + x" and x: "x < 2 ^ 63"
  shows "f64_sign v = neg" and "f64_exp v = x div 2 ^ 52" and "f64_frac v = x mod 2 ^ 52"
proof -
  have "f64_sign v \<longleftrightarrow> odd (unat v div 2 ^ 63)"
  proof -
    have "bit (unat v) 63 = bit v 63" by (simp add: bit_unsigned_iff)
    then show ?thesis by (simp add: f64_sign_def bit_iff_odd)
  qed
  moreover have "unat v div 2 ^ 63 = (if neg then 1 else 0)" using v x by (auto simp: div_add_self1)
  ultimately show "f64_sign v = neg" by simp
  have size: "unat v < 18446744073709551616" using v x by (auto split: if_splits)
  have "f64_exp v = unat v div 2 ^ 52 mod 2 ^ 11"
    using size unfolding f64_exp_def unsigned_take_bit_eq unsigned_drop_bit_eq
    by (simp add: take_bit_eq_mod drop_bit_eq_div)
  also have "\<dots> = x div 2 ^ 52"
  proof -
    have "x div 2 ^ 52 < 2 ^ 11" using x by (intro less_mult_imp_div_less) simp
    moreover have "unat v div 2 ^ 52 = (if neg then 2 ^ 11 else 0) + x div 2 ^ 52"
      unfolding v by (simp add: div_plus_div_distrib_dvd_left)
    ultimately show ?thesis by simp
  qed
  finally show "f64_exp v = x div 2 ^ 52" .
  have "f64_frac v = unat v mod 2 ^ 52"
    unfolding f64_frac_def unsigned_take_bit_eq by (simp add: take_bit_eq_mod)
  also have "\<dots> = x mod 2 ^ 52" unfolding v by (simp add: mod_add_left_eq [symmetric])
  finally show "f64_frac v = x mod 2 ^ 52" .
qed

lemma f64_units_exact:
  assumes dvd: "2 ^ (bit_length m - 53) dvd m" and len: "bit_length m \<le> 53 + 2045"
  shows "f64_units (f64_of_units neg m) = (if neg then -1 else 1) * int m"
    and "f64_exp (f64_of_units neg m) < 2047"
proof -
  let ?s = "bit_length m - 53"
  define v where "v = f64_of_units neg m"
  define m' where "m' = m div 2 ^ ?s"
  have m: "m = m' * 2 ^ ?s" using dvd by (simp add: m'_def)
  have "m < 2 ^ (53 + ?s)"
    using bit_length_bound [of m] by (rule less_le_trans) (intro power_increasing; simp)
  then have upper: "m' < 2 ^ 53" unfolding m'_def by (simp add: less_mult_imp_div_less power_add mult.commute)
  define x where "x = m' + ?s * 2 ^ 52"
  have bound: "x < 2047 * 2 ^ 52"
  proof -
    have "?s * 2 ^ 52 \<le> 2045 * (2 ^ 52 :: nat)" using len by (intro mult_right_mono) simp_all
    with upper show ?thesis unfolding x_def by simp
  qed
  have round: "f64_round m = x" using f64_round_exact [OF assms] by (simp add: x_def m'_def)
  have "unat v = (if neg then 2 ^ 63 else 0) + x"
  proof (cases neg)
    case True
    have "v = word_of_nat (2 ^ 63 + x)" using True by (simp add: v_def f64_of_units_def round)
    moreover have "unat (word_of_nat (2 ^ 63 + x) :: f64) = 2 ^ 63 + x"
      using bound by (subst unat_of_nat) simp
    ultimately show ?thesis using True by (simp only: if_True)
  next
    case False
    then show ?thesis using bound by (simp add: v_def f64_of_units_def round unat_of_nat)
  qed
  from f64_fields [OF this] bound have f: "f64_sign v = neg" "f64_exp v = x div 2 ^ 52" "f64_frac v = x mod 2 ^ 52"
    by simp_all
  have "x div 2 ^ 52 < 2047" using bound by (intro less_mult_imp_div_less) simp
  then show "f64_exp (f64_of_units neg m) < 2047" unfolding v_def [symmetric] by (simp add: f(2))
  have "f64_units v = (if neg then -1 else 1) * int m"
  proof (cases "m' < 2 ^ 52")
    case True
    have "?s = 0"
    proof (rule ccontr)
      assume s: "?s \<noteq> 0"
      then have m0: "m \<noteq> 0" by (cases "m = 0") simp_all
      have "bit_length m - 1 = 52 + ?s" using s by simp
      from bit_length_lower [OF m0, unfolded this] have "2 ^ (52 + ?s) \<le> m" .
      also have "m = m' * 2 ^ ?s" by (rule m)
      finally have "2 ^ 52 * 2 ^ ?s \<le> m' * 2 ^ ?s" by (simp only: power_add)
      then have "2 ^ 52 \<le> m'" by (rule mult_right_le_imp_le) simp
      with True show False by simp
    qed
    then have x: "x = m'" "m = m'" by (simp_all add: x_def m'_def)
    with True show ?thesis by (simp add: f64_units_def f64_mant_def f64_scale_def f)
  next
    case False
    then obtain r where r: "m' = 2 ^ 52 + r" using le_Suc_ex not_less by blast
    have "r < 2 ^ 52" using upper r by simp
    have x: "x = (?s + 1) * 2 ^ 52 + r" by (simp add: x_def r)
    have "x div 2 ^ 52 = ?s + 1" "x mod 2 ^ 52 = r" unfolding x using \<open>r < 2 ^ 52\<close>
      by (simp_all only: div_mult_self3 mod_mult_self3 mod_less div_less)
    then have "f64_units v = (if neg then -1 else 1) * int ((r + 2 ^ 52) * 2 ^ ?s)"
      by (simp add: f64_units_def f64_mant_def f64_scale_def f)
    also have "(r + 2 ^ 52) * 2 ^ ?s = m" using m r by (simp only: add.commute)
    finally show ?thesis .
  qed
  then show "f64_units (f64_of_units neg m) = (if neg then -1 else 1) * int m" by (simp only: v_def)
qed

text \<open>An integer value with less than 54 bits is represented exactly.\<close>

lemma f64_of_units_int:
  assumes "n < 2 ^ 53"
  shows "f64_units (f64_of_units neg (n * 2 ^ 1074)) = (if neg then -1 else 1) * int (n * 2 ^ 1074)"
    and "f64_exp (f64_of_units neg (n * 2 ^ 1074)) < 2047"
proof -
  let ?m = "n * 2 ^ 1074"
  have "?m < 2 ^ 53 * 2 ^ 1074" by (rule mult_strict_right_mono [OF assms]) simp
  then have "?m < 2 ^ (53 + 1074)" by (simp only: power_add)
  then have len: "bit_length ?m \<le> 53 + 1074" by (rule bit_length_le)
  then have "bit_length ?m - 53 \<le> 1074" by simp
  then have dvd: "2 ^ (bit_length ?m - 53) dvd ?m" by (intro dvd_mult le_imp_power_dvd)
  have "bit_length ?m \<le> 53 + 2045" using len by (rule order_trans) simp
  from f64_units_exact [OF dvd this, of neg] show
    "f64_units (f64_of_units neg ?m) = (if neg then -1 else 1) * int ?m" "f64_exp (f64_of_units neg ?m) < 2047" .
qed

text \<open>The float with the integer value \<open>k\<close>.\<close>

definition f64_is_int :: "f64 \<Rightarrow> int \<Rightarrow> bool" where
  "f64_is_int v k \<longleftrightarrow> f64_exp v < 2047 \<and> f64_units v = k * 2 ^ 1074"

lemma f64_of_nat_int: "n < 2 ^ 53 \<Longrightarrow> f64_is_int (f64_of_nat n) (int n)"
  using f64_of_units_int [of n False] by (simp only: f64_is_int_def f64_of_nat_def if_False mult_1 of_nat_mult of_nat_power) simp

lemma f64_not_special: "f64_exp v < 2047 \<Longrightarrow> \<not> f64_is_nan v \<and> \<not> f64_is_inf v"
  by (simp add: f64_is_nan_def f64_is_inf_def)

text \<open>Adding integers is exact while the sum has less than 54 bits.\<close>

lemma f64_add_int:
  assumes a: "f64_is_int a j" and b: "f64_is_int b k" and small: "\<bar>j + k\<bar> < 2 ^ 53"
  shows "f64_is_int (f64_add a b) (j + k)"
proof -
  have fin: "\<not> f64_is_nan a" "\<not> f64_is_inf a" "\<not> f64_is_nan b" "\<not> f64_is_inf b"
    using a b f64_not_special by (auto simp: f64_is_int_def)
  have u: "f64_units a + f64_units b = (j + k) * 2 ^ 1074"
    using a b unfolding f64_is_int_def by (simp only: distrib_right)
  define n where "n = nat \<bar>j + k\<bar>"
  have n: "n < 2 ^ 53" using small by (simp add: n_def nat_less_iff)
  have abs: "nat \<bar>(j + k) * 2 ^ 1074\<bar> = n * 2 ^ 1074"
  proof -
    have "\<bar>(j + k) * 2 ^ 1074\<bar> = \<bar>j + k\<bar> * 2 ^ 1074" by (simp only: abs_mult power_abs abs_numeral)
    also have "nat \<dots> = n * nat (2 ^ 1074)" unfolding n_def by (rule nat_mult_distrib [OF abs_ge_zero])
    also have "nat (2 ^ 1074) = 2 ^ 1074" by (simp only: nat_power_eq [OF zero_le_numeral] nat_numeral)
    finally show ?thesis .
  qed
  show ?thesis
  proof (cases "j + k = 0")
    case True
    have "f64_add a b = f64_of_units (f64_sign a \<and> f64_sign b) 0"
      using fin True u by (simp add: f64_add_def)
    moreover have "f64_units (f64_of_units neg 0) = 0 \<and> f64_exp (f64_of_units neg 0) < 2047" for neg
      using f64_of_units_int [of 0 neg] by simp
    ultimately show ?thesis using True by (simp add: f64_is_int_def)
  next
    case False
    have nz: "(j + k) * 2 ^ 1074 \<noteq> 0" using False by (simp only: mult_eq_0_iff power_eq_0_iff) simp
    have neg: "(j + k) * 2 ^ 1074 < 0 \<longleftrightarrow> j + k < 0" by (simp only: mult_less_0_iff) simp
    have "f64_add a b = f64_of_units (j + k < 0) (n * 2 ^ 1074)"
      unfolding f64_add_def u Let_def neg abs using fin nz by (simp only: if_False simp_thms)
    moreover have "(if j + k < 0 then -1 else 1) * int (n * 2 ^ 1074) = (j + k) * 2 ^ 1074"
      unfolding of_nat_mult of_nat_power by (simp add: n_def)
    ultimately show ?thesis
      using f64_of_units_int [OF n, of "j + k < 0"] by (simp only: f64_is_int_def)
  qed
qed

end
