(* ===== verification/Translator.thy ===== *)
theory Translator
  imports StoreApi Otlp MetricNames Float64
begin

text \<open>
  \<open>internal/ingest/translator.go\<close>: from an OTLP metrics request to samples written to an appender.
  The appender is any method table of the \<open>Appender\<close> interface. The state threaded through the calls
  is the delta accumulator, the number of clock readings and the appender.
\<close>

section \<open>Configuration, environment, state\<close>

record translationConfig =
  tcLabelMap :: "(string \<times> string) list"
  tcPromote :: "string list"
  tcSanitizeMetricNames :: bool
  tcAddUnitSuffix :: bool
  tcAddTypeSuffix :: bool
  tcDeltaConversion :: bool
  tcSchemaURL :: bool

text \<open>
  What the code takes from elsewhere: the labels package, the Unicode tables, \<open>fmt.Sprintf("%g", x)\<close>,
  \<open>math.Pow\<close>, the \<open>%q\<close> of an error text, and the clock, whose n-th reading is \<open>teNow n\<close> nanoseconds.
\<close>

record 'l translator_env =
  teLabels :: "'l labels_api"
  teUnicode :: unicode
  teFmt :: "f64 \<Rightarrow> string"
  tePow :: "f64 \<Rightarrow> f64 \<Rightarrow> f64"
  teQuote :: "string \<Rightarrow> string"
  teNow :: "nat \<Rightarrow> int"

record deltaEntry =
  deValue :: f64
  deLastSeen :: int

record 'a trState =
  trDelta :: "u64 \<rightharpoonup> deltaEntry"
  trClock :: nat
  trApp :: 'a

definition newTranslator :: "'a \<Rightarrow> 'a trState" where
  "newTranslator a = \<lparr>trDelta = Map.empty, trClock = 0, trApp = a\<rparr>"

definition deltaTTL :: int where
  "deltaTTL = 10 * 60 * 10 ^ 9"

section \<open>Labels and values\<close>

definition fmt_bool :: "bool \<Rightarrow> string" where
  "fmt_bool b = (if b then ''true'' else ''false'')"

definition anyValueString :: "'l translator_env \<Rightarrow> anyValue option \<Rightarrow> string" where
  "anyValueString E v =
     (case v of
        None \<Rightarrow> ''''
      | Some (StringValue s) \<Rightarrow> s
      | Some (BoolValue b) \<Rightarrow> fmt_bool b
      | Some (IntValue i) \<Rightarrow> fmt_int (sint i)
      | Some (DoubleValue d) \<Rightarrow> teFmt E d
      | Some OtherValue \<Rightarrow> '''')"

definition numberValue :: "numberData \<Rightarrow> f64" where
  "numberValue v = (case v of AsDouble d \<Rightarrow> d | AsInt i \<Rightarrow> f64_of_i64 i | NoNumber \<Rightarrow> 0)"

text \<open>\<open>labels.NewBuilder(base)\<close> followed by \<open>Set\<close> for each pair is \<open>lbuild\<close>.\<close>

definition resourceSet :: "'l translator_env \<Rightarrow> translationConfig \<Rightarrow> keyValue \<Rightarrow> (string \<times> string) list" where
  "resourceSet E cfg kv =
     (let key = kvKey kv; val = anyValueString E (kvValue kv)
      in case map_of (tcLabelMap cfg) key of
           Some mapped \<Rightarrow> [(mapped, val)]
         | None \<Rightarrow> if key \<in> set (tcPromote cfg) then [(sanitizeLabelName (teUnicode E) key, val)] else [])"

definition resourceLabels :: "'l translator_env \<Rightarrow> translationConfig \<Rightarrow> keyValue list \<Rightarrow> 'l" where
  "resourceLabels E cfg attrs =
     lbuild (teLabels E) (lempty (teLabels E)) (concat (map (resourceSet E cfg) attrs))"

definition scopeLabels :: "'l translator_env \<Rightarrow> scope option \<Rightarrow> 'l" where
  "scopeLabels E sc =
     (case sc of
        None \<Rightarrow> lempty (teLabels E)
      | Some s \<Rightarrow> lbuild (teLabels E) (lempty (teLabels E))
          ((if scName s \<noteq> '''' then [(''otel_scope_name'', scName s)] else []) @
           (if scVersion s \<noteq> '''' then [(''otel_scope_version'', scVersion s)] else [])))"

text \<open>\<open>labels.FromStrings\<close> of one pair with a non-empty value.\<close>

definition schemaLabels :: "'l translator_env \<Rightarrow> string \<Rightarrow> 'l" where
  "schemaLabels E url = lbuild (teLabels E) (lempty (teLabels E)) [(''__schema_url__'', url)]"

definition buildLabels :: "'l translator_env \<Rightarrow> string \<Rightarrow> keyValue list \<Rightarrow> 'l \<Rightarrow> 'l \<Rightarrow> 'l \<Rightarrow> 'l" where
  "buildLabels E metricName attrs resourceL scopeL schemaL =
     lbuild (teLabels E) (lempty (teLabels E))
       (lrange (teLabels E) resourceL @ lrange (teLabels E) scopeL @ lrange (teLabels E) schemaL @
        map (\<lambda>kv. (sanitizeLabelName (teUnicode E) (kvKey kv), anyValueString E (kvValue kv))) attrs @
        [(''__name__'', metricName)])"

definition appendLabel :: "'l translator_env \<Rightarrow> 'l \<Rightarrow> string \<Rightarrow> string \<Rightarrow> string \<Rightarrow> 'l" where
  "appendLabel E base metricName name val =
     lbuild (teLabels E) base [(''__name__'', metricName), (name, val)]"

definition replaceMetricName :: "'l translator_env \<Rightarrow> 'l \<Rightarrow> string \<Rightarrow> 'l" where
  "replaceMetricName E base newName = lbuild (teLabels E) base [(''__name__'', newName)]"

text \<open>\<open>int64(ns / 1_000_000)\<close>.\<close>

definition unixMillis :: "u64 \<Rightarrow> i64" where
  "unixMillis ns = ns div 1000000"

section \<open>Delta accumulation\<close>

definition evictStale :: "'l translator_env \<Rightarrow> 'a trState \<Rightarrow> 'a trState" where
  "evictStale E st =
     (let cutoff = teNow E (trClock st) - deltaTTL
      in st\<lparr>trClock := trClock st + 1,
            trDelta := (\<lambda>fp. case trDelta st fp of
                               None \<Rightarrow> None
                             | Some e \<Rightarrow> if deLastSeen e < cutoff then None else Some e)\<rparr>)"

definition accumulateDelta :: "'l translator_env \<Rightarrow> 'l \<Rightarrow> f64 \<Rightarrow> 'a trState \<Rightarrow> f64 \<times> 'a trState" where
  "accumulateDelta E lset delta st =
     (let fp = lhash (teLabels E) lset;
          st = evictStale E st;
          now = teNow E (trClock st)
      in case trDelta st fp of
           None \<Rightarrow>
             (delta, st\<lparr>trClock := trClock st + 1,
                        trDelta := (trDelta st)(fp \<mapsto> \<lparr>deValue = delta, deLastSeen = now\<rparr>)\<rparr>)
         | Some entry \<Rightarrow>
             let v = f64_add (deValue entry) delta
             in (v, st\<lparr>trClock := trClock st + 1,
                       trDelta := (trDelta st)(fp \<mapsto> \<lparr>deValue = v, deLastSeen = now\<rparr>)\<rparr>))"

section \<open>Writing samples\<close>

text \<open>
  The functions return the number of samples written, an error, and the state. \<open>count_loop\<close> is the
  loop \<open>n, err := f(x); if err != nil { return count, err }; count += n\<close>; \<open>count_seq\<close> is the nested
  loop, in which the samples counted before the error inside the failing element count.
\<close>

fun count_loop :: "('x \<Rightarrow> 's \<Rightarrow> (nat \<times> err) \<times> 's) \<Rightarrow> 'x list \<Rightarrow> 's \<Rightarrow> (nat \<times> err) \<times> 's" where
  "count_loop f [] s = ((0, None), s)"
| "count_loop f (x # xs) s =
     (case f x s of
        ((n, Some e), s') \<Rightarrow> ((0, Some e), s')
      | ((n, None), s') \<Rightarrow> (case count_loop f xs s' of ((k, e), s'') \<Rightarrow> ((n + k, e), s'')))"

fun count_seq :: "('x \<Rightarrow> 's \<Rightarrow> (nat \<times> err) \<times> 's) \<Rightarrow> 'x list \<Rightarrow> 's \<Rightarrow> (nat \<times> err) \<times> 's" where
  "count_seq f [] s = ((0, None), s)"
| "count_seq f (x # xs) s =
     (case f x s of
        ((n, Some e), s') \<Rightarrow> ((n, Some e), s')
      | ((n, None), s') \<Rightarrow> (case count_seq f xs s' of ((k, e), s'') \<Rightarrow> ((n + k, e), s'')))"

text \<open>One sample: its delta is accumulated when asked for, then it is appended.\<close>

definition emit ::
  "'l translator_env \<Rightarrow> ('a, 'l) appender_ops \<Rightarrow> bool \<Rightarrow> i64 \<Rightarrow> 'l \<times> f64 \<Rightarrow> 'a trState \<Rightarrow> (nat \<times> err) \<times> 'a trState" where
  "emit E ops isDelta ts x st =
     (case (if isDelta then accumulateDelta E (fst x) (snd x) st else (snd x, st)) of
        (v, st) \<Rightarrow>
          (case apAppend ops (trApp st) (fst x) ts v of
             (Some e, a) \<Rightarrow> ((0, Some e), st\<lparr>trApp := a\<rparr>)
           | (None, a) \<Rightarrow> ((1, None), st\<lparr>trApp := a\<rparr>)))"

definition translateGauge where
  "translateGauge E ops name dps resourceL scopeL schemaL st =
     count_loop (\<lambda>dp. emit E ops False (unixMillis (ndTimeUnixNano dp))
       (buildLabels E name (ndAttributes dp) resourceL scopeL schemaL, numberValue (ndValue dp))) dps st"

definition translateSum where
  "translateSum E ops cfg name temp monotonic dps resourceL scopeL schemaL st =
     (let isDelta = (temp = Delta)
      in if isDelta \<and> \<not> tcDeltaConversion cfg then ((0, None), st)
         else
           let name = (if monotonic \<and> tcAddTypeSuffix cfg then addTypeSuffix name ''total'' else name)
           in count_loop (\<lambda>dp. emit E ops isDelta (unixMillis (ndTimeUnixNano dp))
                (buildLabels E name (ndAttributes dp) resourceL scopeL schemaL, numberValue (ndValue dp))) dps st)"

subsection \<open>Histograms\<close>

text \<open>
  The running count at every bound, and at the end of the list. \<open>counts\<close> is what is left of the
  bucket counts; a bound without a count adds nothing, and the first count left after the last bound
  is the overflow bucket.
\<close>

fun cumulativeBuckets :: "u64 \<Rightarrow> f64 list \<Rightarrow> u64 list \<Rightarrow> (f64 \<times> u64) list \<times> u64" where
  "cumulativeBuckets cum [] counts = ([], case counts of [] \<Rightarrow> cum | c # _ \<Rightarrow> cum + c)"
| "cumulativeBuckets cum (b # bounds) counts =
     (let cum = (case counts of [] \<Rightarrow> cum | c # _ \<Rightarrow> cum + c)
      in case cumulativeBuckets cum bounds (tl counts) of (rest, tot) \<Rightarrow> ((b, cum) # rest, tot))"

text \<open>The common tail of both histogram kinds: the \<open>+Inf\<close> bucket, the count, and the sum if there is one.\<close>

definition histogramTail :: "'l translator_env \<Rightarrow> string \<Rightarrow> 'l \<Rightarrow> u64 \<Rightarrow> u64 \<Rightarrow> f64 option \<Rightarrow> ('l \<times> f64) list" where
  "histogramTail E name base tot cnt sumV =
     [(appendLabel E base (name @ ''_bucket'') ''le'' ''+Inf'', f64_of_u64 tot),
      (replaceMetricName E base (name @ ''_count''), f64_of_u64 cnt)] @
     (case sumV of None \<Rightarrow> [] | Some s \<Rightarrow> [(replaceMetricName E base (name @ ''_sum''), s)])"

definition bucketSamples :: "'l translator_env \<Rightarrow> string \<Rightarrow> 'l \<Rightarrow> (f64 \<times> u64) list \<Rightarrow> ('l \<times> f64) list" where
  "bucketSamples E name base bs =
     map (\<lambda>(bound, c). (appendLabel E base (name @ ''_bucket'') ''le'' (teFmt E bound), f64_of_u64 c)) bs"

definition histogramSamples :: "'l translator_env \<Rightarrow> string \<Rightarrow> 'l \<Rightarrow> histogramDataPoint \<Rightarrow> ('l \<times> f64) list" where
  "histogramSamples E name base dp =
     (case cumulativeBuckets 0 (hdExplicitBounds dp) (hdBucketCounts dp) of
        (bs, tot) \<Rightarrow> bucketSamples E name base bs @ histogramTail E name base tot (hdCount dp) (hdSum dp))"

definition appendHistogramDataPoint where
  "appendHistogramDataPoint E ops name base ts dp isDelta st =
     count_loop (emit E ops isDelta ts) (histogramSamples E name base dp) st"

definition translateHistogram where
  "translateHistogram E ops cfg name temp dps resourceL scopeL schemaL st =
     (let isDelta = (temp = Delta)
      in if isDelta \<and> \<not> tcDeltaConversion cfg then ((0, None), st)
         else count_loop (\<lambda>dp. appendHistogramDataPoint E ops name
                (buildLabels E name (hdAttributes dp) resourceL scopeL schemaL)
                (unixMillis (hdTimeUnixNano dp)) dp isDelta) dps st)"

text \<open>
  Exponential histograms: the bound of the positive bucket \<open>i\<close> is \<open>base ^ (offset + i + 1)\<close> with
  \<open>base = 2 ^ 2 ^ -scale\<close>; the negation of the 32-bit scale wraps. Negative buckets are not read.
\<close>

definition f64_two :: f64 where
  "f64_two = 0x4000000000000000"

definition expBase :: "'l translator_env \<Rightarrow> 32 word \<Rightarrow> f64" where
  "expBase E sc = tePow E f64_two (tePow E f64_two (f64_of_i64 (scast (- sc))))"

fun expBucketBounds :: "'l translator_env \<Rightarrow> f64 \<Rightarrow> i64 \<Rightarrow> u64 \<Rightarrow> u64 list \<Rightarrow> (f64 \<times> u64) list \<times> u64" where
  "expBucketBounds E base idx cum [] = ([], cum)"
| "expBucketBounds E base idx cum (bc # bcs) =
     (let cum = cum + bc
      in case expBucketBounds E base (idx + 1) cum bcs of
           (rest, tot) \<Rightarrow> ((tePow E base (f64_of_i64 (idx + 1)), cum) # rest, tot))"

definition expHistogramSamples :: "'l translator_env \<Rightarrow> string \<Rightarrow> 'l \<Rightarrow> expHistogramDataPoint \<Rightarrow> ('l \<times> f64) list" where
  "expHistogramSamples E name base dp =
     (case (case edPositive dp of
              None \<Rightarrow> ([], edZeroCount dp)
            | Some p \<Rightarrow> expBucketBounds E (expBase E (edScale dp)) (scast (ebOffset p)) (edZeroCount dp) (ebBucketCounts p)) of
        (bs, tot) \<Rightarrow> bucketSamples E name base bs @ histogramTail E name base tot (edCount dp) (edSum dp))"

definition appendExponentialHistogramDataPoint where
  "appendExponentialHistogramDataPoint E ops name base ts dp isDelta st =
     count_loop (emit E ops isDelta ts) (expHistogramSamples E name base dp) st"

definition translateExponentialHistogram where
  "translateExponentialHistogram E ops cfg name temp dps resourceL scopeL schemaL st =
     (let isDelta = (temp = Delta)
      in if isDelta \<and> \<not> tcDeltaConversion cfg then ((0, None), st)
         else count_loop (\<lambda>dp. appendExponentialHistogramDataPoint E ops name
                (buildLabels E name (edAttributes dp) resourceL scopeL schemaL)
                (unixMillis (edTimeUnixNano dp)) dp isDelta) dps st)"

definition summarySamples :: "'l translator_env \<Rightarrow> string \<Rightarrow> 'l \<Rightarrow> summaryDataPoint \<Rightarrow> ('l \<times> f64) list" where
  "summarySamples E name base dp =
     map (\<lambda>(q, v). (appendLabel E base name ''quantile'' (teFmt E q), v)) (sdQuantileValues dp) @
     [(replaceMetricName E base (name @ ''_sum''), sdSum dp),
      (replaceMetricName E base (name @ ''_count''), f64_of_u64 (sdCount dp))]"

text \<open>In a summary an error returns the count of all samples written so far, also of the failing point.\<close>

definition translateSummary where
  "translateSummary E ops name dps resourceL scopeL schemaL st =
     count_seq (\<lambda>dp. count_loop (emit E ops False (unixMillis (sdTimeUnixNano dp)))
       (summarySamples E name (buildLabels E name (sdAttributes dp) resourceL scopeL schemaL) dp)) dps st"

subsection \<open>Metrics and requests\<close>

definition metricName :: "'l translator_env \<Rightarrow> translationConfig \<Rightarrow> metric \<Rightarrow> string" where
  "metricName E cfg m =
     (let name = mtName m;
          name = (if tcSanitizeMetricNames cfg then sanitizeMetricName (teUnicode E) name else name)
      in if tcAddUnitSuffix cfg \<and> mtUnit m \<noteq> '''' then addUnitSuffix (teUnicode E) name (mtUnit m) else name)"

definition translateMetric ::
  "'l translator_env \<Rightarrow> ('a, 'l) appender_ops \<Rightarrow> translationConfig \<Rightarrow> 'l \<Rightarrow> 'l \<Rightarrow> 'l \<Rightarrow> metric \<Rightarrow> 'a trState \<Rightarrow>
     (nat \<times> err) \<times> 'a trState" where
  "translateMetric E ops cfg resourceL scopeL schemaL m st =
     (let name = metricName E cfg m
      in case mtData m of
           Gauge dps \<Rightarrow> translateGauge E ops name dps resourceL scopeL schemaL st
         | Sum temp monotonic dps \<Rightarrow> translateSum E ops cfg name temp monotonic dps resourceL scopeL schemaL st
         | Histogram temp dps \<Rightarrow> translateHistogram E ops cfg name temp dps resourceL scopeL schemaL st
         | ExponentialHistogram temp dps \<Rightarrow>
             translateExponentialHistogram E ops cfg name temp dps resourceL scopeL schemaL st
         | Summary dps \<Rightarrow> translateSummary E ops name dps resourceL scopeL schemaL st
         | NoData \<Rightarrow> ((0, None), st))"

definition wrapError :: "'l translator_env \<Rightarrow> metric \<Rightarrow> (nat \<times> err) \<times> 's \<Rightarrow> (nat \<times> err) \<times> 's" where
  "wrapError E m r =
     (case r of
        ((n, None), s) \<Rightarrow> ((n, None), s)
      | ((n, Some e), s) \<Rightarrow> ((n, Some (''translating metric '' @ teQuote E (mtName m) @ '': '' @ e)), s))"

text \<open>
  The variable \<open>schemaLabel\<close> is declared per resource and assigned per scope, so a scope without a
  schema URL uses that of the scope before it.
\<close>

definition nextSchema :: "'l translator_env \<Rightarrow> translationConfig \<Rightarrow> string \<Rightarrow> 'l \<Rightarrow> 'l" where
  "nextSchema E cfg url schemaL = (if tcSchemaURL cfg \<and> url \<noteq> '''' then schemaLabels E url else schemaL)"

fun translateScopes ::
  "'l translator_env \<Rightarrow> ('a, 'l) appender_ops \<Rightarrow> translationConfig \<Rightarrow> 'l \<Rightarrow> 'l \<Rightarrow> scopeMetrics list \<Rightarrow> 'a trState \<Rightarrow>
     (nat \<times> err) \<times> 'a trState" where
  "translateScopes E ops cfg resourceL schemaL [] st = ((0, None), st)"
| "translateScopes E ops cfg resourceL schemaL (sm # sms) st =
     (let scopeL = scopeLabels E (smScope sm);
          schemaL = nextSchema E cfg (smSchemaUrl sm) schemaL
      in case count_loop (\<lambda>m st. wrapError E m (translateMetric E ops cfg resourceL scopeL schemaL m st)) (smMetrics sm) st of
           ((n, Some e), st) \<Rightarrow> ((n, Some e), st)
         | ((n, None), st) \<Rightarrow>
             (case translateScopes E ops cfg resourceL schemaL sms st of ((k, e), st) \<Rightarrow> ((n + k, e), st)))"

definition translateResource ::
  "'l translator_env \<Rightarrow> ('a, 'l) appender_ops \<Rightarrow> translationConfig \<Rightarrow> resourceMetrics \<Rightarrow> 'a trState \<Rightarrow>
     (nat \<times> err) \<times> 'a trState" where
  "translateResource E ops cfg rm st =
     translateScopes E ops cfg (resourceLabels E cfg (rmAttributes rm))
       (nextSchema E cfg (rmSchemaUrl rm) (lempty (teLabels E))) (rmScopeMetrics rm) st"

definition translate ::
  "'l translator_env \<Rightarrow> ('a, 'l) appender_ops \<Rightarrow> translationConfig \<Rightarrow> exportRequest option \<Rightarrow> 'a trState \<Rightarrow>
     (nat \<times> err) \<times> 'a trState" where
  "translate E ops cfg req st =
     (case req of None \<Rightarrow> ((0, None), st) | Some rms \<Rightarrow> count_seq (translateResource E ops cfg) rms st)"

section \<open>Exemplars\<close>

record 'l exemplar =
  emLabels :: 'l
  emValue :: f64
  emTs :: i64
  emTraceID :: string
  emSpanID :: string

text \<open>\<open>hex.EncodeToString\<close>.\<close>

definition hexEncode :: "byte list \<Rightarrow> string" where
  "hexEncode bs =
     concat (map (\<lambda>b. [''0123456789abcdef'' ! (unat b div 16), ''0123456789abcdef'' ! (unat b mod 16)]) bs)"

definition extractExemplar :: "'l translator_env \<Rightarrow> exemplarMsg \<Rightarrow> 'l exemplar" where
  "extractExemplar E e =
     (let trace = hexEncode (exTraceId e);
          span = hexEncode (exSpanId e)
      in \<lparr>emLabels = lbuild (teLabels E) (lempty (teLabels E))
            (map (\<lambda>kv. (sanitizeLabelName (teUnicode E) (kvKey kv), anyValueString E (kvValue kv))) (exFilteredAttributes e) @
             (if trace \<noteq> '''' then [(''trace_id'', trace)] else []) @
             (if span \<noteq> '''' then [(''span_id'', span)] else [])),
          emValue = numberValue (exValue e),
          emTs = unixMillis (exTimeUnixNano e),
          emTraceID = trace,
          emSpanID = span\<rparr>)"

definition extractExemplars :: "'l translator_env \<Rightarrow> exemplarMsg option list \<Rightarrow> 'l exemplar list" where
  "extractExemplars E es = map (extractExemplar E) (List.map_filter id es)"

end
