(* ===== verification/TranslatorSpec.thy ===== *)
theory TranslatorSpec
  imports Translator
begin

text \<open>
  What the translator promises: a request is flattened into jobs, and \<open>Translate\<close> over any appender
  appends the samples of the jobs (a refinement, proved in the locale \<open>store_appender\<close>). Then the
  labels of a sample, the buckets of a histogram, and the running sums of a delta series.
\<close>

section \<open>What a request asks to be written\<close>

text \<open>
  The abstract specification of the translator: a request is flattened into jobs, one per sample,
  and the jobs are run through the delta accumulator. No appender, no counting, no errors.
\<close>

record 'l job =
  jDelta :: bool
  jT :: i64
  jLabels :: 'l
  jV :: f64

definition points :: "bool \<Rightarrow> i64 \<Rightarrow> ('l \<times> f64) list \<Rightarrow> 'l job list" where
  "points d t xs = map (\<lambda>(l, v). \<lparr>jDelta = d, jT = t, jLabels = l, jV = v\<rparr>) xs"

definition converted :: "translationConfig \<Rightarrow> temporality \<Rightarrow> 'x list \<Rightarrow> 'x list" where
  "converted cfg temp js = (if temp = Delta \<and> \<not> tcDeltaConversion cfg then [] else js)"

definition metric_jobs ::
  "'l translator_env \<Rightarrow> translationConfig \<Rightarrow> 'l \<Rightarrow> 'l \<Rightarrow> 'l \<Rightarrow> metric \<Rightarrow> 'l job list" where
  "metric_jobs E cfg rl sl cl m =
     (let name = metricName E cfg m;
          lbl = (\<lambda>n attrs. buildLabels E n attrs rl sl cl)
      in case mtData m of
           Gauge dps \<Rightarrow>
             concat (map (\<lambda>dp. points False (unixMillis (ndTimeUnixNano dp))
               [(lbl name (ndAttributes dp), numberValue (ndValue dp))]) dps)
         | Sum temp mon dps \<Rightarrow>
             converted cfg temp (concat (map (\<lambda>dp. points (temp = Delta) (unixMillis (ndTimeUnixNano dp))
               [(lbl (if mon \<and> tcAddTypeSuffix cfg then addTypeSuffix name ''total'' else name) (ndAttributes dp),
                 numberValue (ndValue dp))]) dps))
         | Histogram temp dps \<Rightarrow>
             converted cfg temp (concat (map (\<lambda>dp. points (temp = Delta) (unixMillis (hdTimeUnixNano dp))
               (histogramSamples E name (lbl name (hdAttributes dp)) dp)) dps))
         | ExponentialHistogram temp dps \<Rightarrow>
             converted cfg temp (concat (map (\<lambda>dp. points (temp = Delta) (unixMillis (edTimeUnixNano dp))
               (expHistogramSamples E name (lbl name (edAttributes dp)) dp)) dps))
         | Summary dps \<Rightarrow>
             concat (map (\<lambda>dp. points False (unixMillis (sdTimeUnixNano dp))
               (summarySamples E name (lbl name (sdAttributes dp)) dp)) dps)
         | NoData \<Rightarrow> [])"

text \<open>The schema label in force after the URLs of the resource and of the scopes so far.\<close>

definition schema_in_force :: "'l translator_env \<Rightarrow> translationConfig \<Rightarrow> string list \<Rightarrow> 'l" where
  "schema_in_force E cfg urls =
     (case (if tcSchemaURL cfg then filter (\<lambda>u. u \<noteq> '''') (rev urls) else []) of
        [] \<Rightarrow> lempty (teLabels E)
      | url # _ \<Rightarrow> schemaLabels E url)"

definition scope_jobs ::
  "'l translator_env \<Rightarrow> translationConfig \<Rightarrow> 'l \<Rightarrow> string list \<Rightarrow> scopeMetrics \<Rightarrow> 'l job list" where
  "scope_jobs E cfg rl urls sm =
     concat (map (metric_jobs E cfg rl (scopeLabels E (smScope sm)) (schema_in_force E cfg urls)) (smMetrics sm))"

definition resource_jobs :: "'l translator_env \<Rightarrow> translationConfig \<Rightarrow> resourceMetrics \<Rightarrow> 'l job list" where
  "resource_jobs E cfg rm =
     concat (map (\<lambda>i. scope_jobs E cfg (resourceLabels E cfg (rmAttributes rm))
         (rmSchemaUrl rm # map smSchemaUrl (take (Suc i) (rmScopeMetrics rm))) (rmScopeMetrics rm ! i))
       [0..<length (rmScopeMetrics rm)])"

definition request_jobs :: "'l translator_env \<Rightarrow> translationConfig \<Rightarrow> exportRequest \<Rightarrow> 'l job list" where
  "request_jobs E cfg rms = concat (map (resource_jobs E cfg) rms)"

text \<open>Running jobs: the samples they give and the accumulator they leave.\<close>

definition job_value :: "'l translator_env \<Rightarrow> 'l job \<Rightarrow> 'a trState \<Rightarrow> f64 \<times> 'a trState" where
  "job_value E j st = (if jDelta j then accumulateDelta E (jLabels j) (jV j) st else (jV j, st))"

fun run_jobs :: "'l translator_env \<Rightarrow> 'l job list \<Rightarrow> 'a trState \<Rightarrow> 'l pendingSample list \<times> 'a trState" where
  "run_jobs E [] st = ([], st)"
| "run_jobs E (j # js) st =
     (case job_value E j st of
        (v, st') \<Rightarrow> (case run_jobs E js st' of (ps, st'') \<Rightarrow> (pending (jLabels j) (jT j) v # ps, st'')))"

definition runs ::
  "'l translator_env \<Rightarrow> ('a \<Rightarrow> 'l pendingSample list) \<Rightarrow> ('a \<Rightarrow> 's) \<Rightarrow> ('a trState \<Rightarrow> (nat \<times> err) \<times> 'a trState) \<Rightarrow>
     'l job list \<Rightarrow> bool" where
  "runs E pend store f js \<longleftrightarrow>
     (\<forall>st. \<exists>a. f st = ((length js, None), (snd (run_jobs E js st))\<lparr>trApp := a\<rparr>) \<and>
        pend a = pend (trApp st) @ fst (run_jobs E js st) \<and> store a = store (trApp st))"

lemma accumulateDelta_app:
  "accumulateDelta E l v (st\<lparr>trApp := a\<rparr>) =
     (fst (accumulateDelta E l v st), (snd (accumulateDelta E l v st))\<lparr>trApp := a\<rparr>)"
  by (simp add: accumulateDelta_def evictStale_def Let_def split: option.split)

lemma accumulateDelta_trApp [simp]: "trApp (snd (accumulateDelta E l v st)) = trApp st"
  by (simp add: accumulateDelta_def evictStale_def Let_def split: option.split)

lemma job_value_app:
  "job_value E j (st\<lparr>trApp := a\<rparr>) = (fst (job_value E j st), (snd (job_value E j st))\<lparr>trApp := a\<rparr>)"
  by (simp add: job_value_def accumulateDelta_app)

lemma job_value_trApp [simp]: "trApp (snd (job_value E j st)) = trApp st"
  by (simp add: job_value_def)

lemma run_jobs_app:
  "run_jobs E js (st\<lparr>trApp := a\<rparr>) = (fst (run_jobs E js st), (snd (run_jobs E js st))\<lparr>trApp := a\<rparr>)"
  by (induction js arbitrary: st) (simp_all add: job_value_app split: prod.split)

text \<open>What sits in the slot of the appender does not matter to a run.\<close>

lemma accumulateDelta_slot:
  assumes "trDelta st = trDelta st'" and "trClock st = trClock st'"
  shows "fst (accumulateDelta E l v st) = fst (accumulateDelta E l v st') \<and>
    trDelta (snd (accumulateDelta E l v st)) = trDelta (snd (accumulateDelta E l v st')) \<and>
    trClock (snd (accumulateDelta E l v st)) = trClock (snd (accumulateDelta E l v st'))"
  using assms by (auto simp: accumulateDelta_def evictStale_def Let_def split: option.split)

lemma run_jobs_slot:
  assumes "trDelta st = trDelta st'" and "trClock st = trClock st'"
  shows "fst (run_jobs E js st) = fst (run_jobs E js st') \<and>
    trDelta (snd (run_jobs E js st)) = trDelta (snd (run_jobs E js st')) \<and>
    trClock (snd (run_jobs E js st)) = trClock (snd (run_jobs E js st'))"
  using assms
proof (induction js arbitrary: st st')
  case (Cons j js)
  obtain v u where u: "job_value E j st = (v, u)" by fastforce
  obtain v' u' where u': "job_value E j st' = (v', u')" by fastforce
  have "v = v'" "trDelta u = trDelta u'" "trClock u = trClock u'"
    using accumulateDelta_slot [OF Cons.prems, of E "jLabels j" "jV j"] u u' Cons.prems
    by (auto simp: job_value_def split: if_splits)
  with Cons.IH [of u u'] u u' show ?case by (auto split: prod.split)
qed simp

lemma run_jobs_trApp [simp]: "trApp (snd (run_jobs E js st)) = trApp st"
proof (induction js arbitrary: st)
  case (Cons j js)
  from Cons [of "snd (job_value E j st)"] show ?case
    by (cases "job_value E j st", cases "run_jobs E js (snd (job_value E j st))")
      (use job_value_trApp [of E j st] in simp)
qed simp

lemma run_jobs_append:
  "run_jobs E (js @ ks) st =
     (fst (run_jobs E js st) @ fst (run_jobs E ks (snd (run_jobs E js st))),
      snd (run_jobs E ks (snd (run_jobs E js st))))"
  by (induction js arbitrary: st) (simp_all split: prod.split)

lemma length_run_jobs [simp]: "length (fst (run_jobs E js st)) = length js"
  by (induction js arbitrary: st) (simp_all split: prod.split, metis fst_conv)

subsection \<open>The translator runs the jobs\<close>

lemma runs_nil: "runs E pend store (\<lambda>st. ((0, None), st)) []"
proof -
  have "st = st\<lparr>trApp := trApp st\<rparr>" for st :: "'a trState" by simp
  then show ?thesis by (auto simp: runs_def intro!: exI)
qed

lemma runs_seq:
  fixes f :: "'a trState \<Rightarrow> (nat \<times> err) \<times> 'a trState"
  assumes f: "runs E pend store f js" and g: "runs E pend store g ks"
    and h: "\<And>st n st'. f st = ((n, None), st') \<Longrightarrow> h st = (case g st' of ((k, e), st'') \<Rightarrow> ((n + k, e), st''))"
  shows "runs E pend store h (js @ ks)"
  unfolding runs_def
proof
  fix st :: "'a trState"
  define st1 where "st1 = snd (run_jobs E js st)"
  from f obtain a where a: "f st = ((length js, None), st1\<lparr>trApp := a\<rparr>)"
    "pend a = pend (trApp st) @ fst (run_jobs E js st)" "store a = store (trApp st)"
    unfolding runs_def st1_def by blast
  from g obtain b where b: "g (st1\<lparr>trApp := a\<rparr>) = ((length ks, None), (snd (run_jobs E ks (st1\<lparr>trApp := a\<rparr>)))\<lparr>trApp := b\<rparr>)"
    "pend b = pend a @ fst (run_jobs E ks (st1\<lparr>trApp := a\<rparr>))" "store b = store a"
    using g [unfolded runs_def, THEN spec, of "st1\<lparr>trApp := a\<rparr>"] by auto
  have "h st = ((length (js @ ks), None), (snd (run_jobs E (js @ ks) st))\<lparr>trApp := b\<rparr>)"
    using h [OF a(1)] b(1) by (simp add: run_jobs_app run_jobs_append st1_def)
  moreover have "pend b = pend (trApp st) @ fst (run_jobs E (js @ ks) st)"
    using a(2) b(2) by (simp add: run_jobs_app run_jobs_append st1_def)
  ultimately show "\<exists>a. h st = ((length (js @ ks), None), (snd (run_jobs E (js @ ks) st))\<lparr>trApp := a\<rparr>) \<and>
      pend a = pend (trApp st) @ fst (run_jobs E (js @ ks) st) \<and> store a = store (trApp st)"
    using a(3) b(3) by auto
qed

lemma runs_count_loop:
  "(\<And>x. x \<in> set xs \<Longrightarrow> runs E pend store (f x) (g x)) \<Longrightarrow> runs E pend store (count_loop f xs) (concat (map g xs))"
proof (induction xs)
  case Nil
  have "count_loop f [] = (\<lambda>st. ((0, None), st))" by auto
  then show ?case by (simp add: runs_nil)
next
  case (Cons x xs)
  have "runs E pend store (f x) (g x)" "runs E pend store (count_loop f xs) (concat (map g xs))"
    using Cons by simp_all
  then have "runs E pend store (count_loop f (x # xs)) (g x @ concat (map g xs))"
    by (rule runs_seq) simp
  then show ?case by (simp only: list.map concat.simps)
qed

lemma runs_count_seq:
  "(\<And>x. x \<in> set xs \<Longrightarrow> runs E pend store (f x) (g x)) \<Longrightarrow> runs E pend store (count_seq f xs) (concat (map g xs))"
proof (induction xs)
  case Nil
  have "count_seq f [] = (\<lambda>st. ((0, None), st))" by auto
  then show ?case by (simp add: runs_nil)
next
  case (Cons x xs)
  have "runs E pend store (f x) (g x)" "runs E pend store (count_seq f xs) (concat (map g xs))"
    using Cons by simp_all
  then have "runs E pend store (count_seq f (x # xs)) (g x @ concat (map g xs))"
    by (rule runs_seq) simp
  then show ?case by (simp only: list.map concat.simps)
qed

lemma wrapError_ok: "wrapError E m ((n, None), s) = ((n, None), s)"
  by (simp add: wrapError_def)

lemma runs_wrapError: "runs E pend store f js \<Longrightarrow> runs E pend store (\<lambda>st. wrapError E m (f st)) js"
  unfolding runs_def by (metis wrapError_ok)

lemma points_single: "points d t [x] = [\<lparr>jDelta = d, jT = t, jLabels = fst x, jV = snd x\<rparr>]"
  by (simp add: points_def split: prod.split)

lemma points_concat: "points d t xs = concat (map (\<lambda>x. points d t [x]) xs)"
  by (induction xs) (auto simp: points_def)

lemma schema_in_force_snoc:
  "nextSchema E cfg url (schema_in_force E cfg urls) = schema_in_force E cfg (urls @ [url])"
  by (simp add: nextSchema_def schema_in_force_def)

fun scopes_jobs :: "'l translator_env \<Rightarrow> translationConfig \<Rightarrow> 'l \<Rightarrow> string list \<Rightarrow> scopeMetrics list \<Rightarrow> 'l job list" where
  "scopes_jobs E cfg rl urls [] = []"
| "scopes_jobs E cfg rl urls (sm # sms) =
     scope_jobs E cfg rl (urls @ [smSchemaUrl sm]) sm @ scopes_jobs E cfg rl (urls @ [smSchemaUrl sm]) sms"

lemma scopes_jobs_index:
  "scopes_jobs E cfg rl urls sms =
     concat (map (\<lambda>i. scope_jobs E cfg rl (urls @ map smSchemaUrl (take (Suc i) sms)) (sms ! i)) [0..<length sms])"
proof (induction sms arbitrary: urls)
  case (Cons sm sms)
  have "map (\<lambda>i. scope_jobs E cfg rl (urls @ map smSchemaUrl (take (Suc i) (sm # sms))) ((sm # sms) ! i)) [0..<length (sm # sms)] =
    scope_jobs E cfg rl (urls @ [smSchemaUrl sm]) sm #
    map (\<lambda>i. scope_jobs E cfg rl ((urls @ [smSchemaUrl sm]) @ map smSchemaUrl (take (Suc i) sms)) (sms ! i)) [0..<length sms]"
    by (simp add: upt_conv_Cons map_Suc_upt [symmetric] del: upt_Suc)
  then show ?case by (simp only: scopes_jobs.simps Cons concat.simps)
qed simp

context store_appender
begin

lemma runs_emit: "runs E pend store (emit E ops d t x) (points d t [x])"
  unfolding runs_def points_single
proof
  fix st :: "'a trState"
  let ?j = "\<lparr>jDelta = d, jT = t, jLabels = fst x, jV = snd x\<rparr>"
  obtain v st' where v: "job_value E ?j st = (v, st')" by fastforce
  have app: "trApp st' = trApp st" using job_value_trApp [of E ?j st] v by simp
  obtain a where a: "apAppend ops (trApp st) (fst x) t v = (None, a)" "pend a = pend (trApp st) @ [pending (fst x) t v]"
    by (rule append_step)
  moreover have "store a = store (trApp st)" using append_store [of "trApp st" "fst x" t v] a(1) by simp
  moreover have "emit E ops d t x st = ((1, None), st'\<lparr>trApp := a\<rparr>)"
  proof -
    have "(if d then accumulateDelta E (fst x) (snd x) st else (snd x, st)) = (v, st')"
      using v by (cases d) (simp_all add: job_value_def)
    then show ?thesis unfolding emit_def by (simp only: prod.case app a(1) option.case)
  qed
  ultimately show "\<exists>a. emit E ops d t x st = ((length [?j], None), (snd (run_jobs E [?j] st))\<lparr>trApp := a\<rparr>) \<and>
      pend a = pend (trApp st) @ fst (run_jobs E [?j] st) \<and> store a = store (trApp st)"
    using v by auto
qed

lemma runs_emits: "runs E pend store (count_loop (emit E ops d t) xs) (points d t xs)"
  unfolding points_concat [of d t xs] by (rule runs_count_loop) (rule runs_emit)

lemma runs_converted:
  "runs E pend store f js \<Longrightarrow>
   runs E pend store (\<lambda>st. if temp = Delta \<and> \<not> tcDeltaConversion cfg then ((0, None), st) else f st) (converted cfg temp js)"
  by (cases "temp = Delta \<and> \<not> tcDeltaConversion cfg")
    (simp_all only: converted_def if_True if_False simp_thms runs_nil)

lemma runs_metric:
  "runs E pend store (translateMetric E ops cfg rl sl cl m) (metric_jobs E cfg rl sl cl m)"
proof (cases "mtData m")
  case (Gauge dps)
  show ?thesis
    unfolding translateMetric_def metric_jobs_def Let_def Gauge metricData.case translateGauge_def
    by (intro runs_count_loop runs_emit)
next
  case (Sum temp mon dps)
  show ?thesis
    unfolding translateMetric_def metric_jobs_def Let_def Sum metricData.case translateSum_def
    by (intro runs_converted runs_count_loop runs_emit)
next
  case (Histogram temp dps)
  show ?thesis
    unfolding translateMetric_def metric_jobs_def Let_def Histogram metricData.case translateHistogram_def
      appendHistogramDataPoint_def
    by (intro runs_converted runs_count_loop runs_emits)
next
  case (ExponentialHistogram temp dps)
  show ?thesis
    unfolding translateMetric_def metric_jobs_def Let_def ExponentialHistogram metricData.case
      translateExponentialHistogram_def appendExponentialHistogramDataPoint_def
    by (intro runs_converted runs_count_loop runs_emits)
next
  case (Summary dps)
  show ?thesis
    unfolding translateMetric_def metric_jobs_def Let_def Summary metricData.case translateSummary_def
    by (intro runs_count_seq runs_emits)
next
  case NoData
  show ?thesis
    unfolding translateMetric_def metric_jobs_def Let_def NoData metricData.case by (rule runs_nil)
qed

lemma runs_scopes:
  "runs E pend store (translateScopes E ops cfg rl (schema_in_force E cfg urls) sms) (scopes_jobs E cfg rl urls sms)"
proof (induction sms arbitrary: urls)
  case Nil
  have "translateScopes E ops cfg rl (schema_in_force E cfg urls) [] = (\<lambda>st. ((0, None), st))" by auto
  then show ?case by (simp add: runs_nil)
next
  case (Cons sm sms)
  let ?urls = "urls @ [smSchemaUrl sm]"
  let ?f = "count_loop (\<lambda>m st. wrapError E m
    (translateMetric E ops cfg rl (scopeLabels E (smScope sm)) (schema_in_force E cfg ?urls) m st)) (smMetrics sm)"
  have "runs E pend store ?f (scope_jobs E cfg rl ?urls sm)"
    unfolding scope_jobs_def by (intro runs_count_loop runs_wrapError runs_metric)
  from runs_seq [OF this Cons [of ?urls]] show ?case
    by (simp add: schema_in_force_snoc Let_def)
qed

lemma runs_resource: "runs E pend store (translateResource E ops cfg rm) (resource_jobs E cfg rm)"
proof -
  have "nextSchema E cfg (rmSchemaUrl rm) (lempty (teLabels E)) = schema_in_force E cfg [rmSchemaUrl rm]"
    by (simp add: nextSchema_def schema_in_force_def)
  moreover have "translateResource E ops cfg rm =
    translateScopes E ops cfg (resourceLabels E cfg (rmAttributes rm))
      (nextSchema E cfg (rmSchemaUrl rm) (lempty (teLabels E))) (rmScopeMetrics rm)"
    by (simp add: fun_eq_iff translateResource_def)
  ultimately show ?thesis
    using runs_scopes [of E cfg "resourceLabels E cfg (rmAttributes rm)" "[rmSchemaUrl rm]" "rmScopeMetrics rm"]
    by (simp only: scopes_jobs_index resource_jobs_def append.simps)
qed

text \<open>The refinement: \<open>Translate\<close> cannot fail, and it appends what the specification says.\<close>

lemma translate_runs: "runs E pend store (translate E ops cfg (Some rms)) (request_jobs E cfg rms)"
proof -
  have "translate E ops cfg (Some rms) = count_seq (translateResource E ops cfg) rms"
    by (simp add: fun_eq_iff translate_def)
  then show ?thesis unfolding request_jobs_def by (simp only:) (intro runs_count_seq runs_resource)
qed

end

section \<open>The labels of a sample\<close>

text \<open>
  Layers of pairs, the strongest first: a name is decided by the last pair for it in the first layer
  that has one, and an empty value there leaves the name out.
\<close>

fun layered :: "(string \<times> string) list list \<Rightarrow> string \<rightharpoonup> string" where
  "layered [] n = None"
| "layered (kvs # rest) n =
     (case map_of (rev kvs) n of
        None \<Rightarrow> layered rest n
      | Some v \<Rightarrow> if v = '''' then None else Some v)"

definition attr_pairs :: "'l translator_env \<Rightarrow> keyValue list \<Rightarrow> (string \<times> string) list" where
  "attr_pairs E attrs = map (\<lambda>kv. (sanitizeLabelName (teUnicode E) (kvKey kv), anyValueString E (kvValue kv))) attrs"

definition scope_pairs :: "scope option \<Rightarrow> (string \<times> string) list" where
  "scope_pairs sc =
     (case sc of
        None \<Rightarrow> []
      | Some s \<Rightarrow> filter (\<lambda>p. snd p \<noteq> '''') [(''otel_scope_name'', scName s), (''otel_scope_version'', scVersion s)])"

definition schema_pairs :: "translationConfig \<Rightarrow> string list \<Rightarrow> (string \<times> string) list" where
  "schema_pairs cfg urls =
     (if tcSchemaURL cfg then map (\<lambda>u. (''__schema_url__'', u)) (filter (\<lambda>u. u \<noteq> '''') urls) else [])"

lemma foldl_set_label:
  "foldl set_label m kvs n =
     (case map_of (rev kvs) n of None \<Rightarrow> m n | Some v \<Rightarrow> if v = '''' then None else Some v)"
proof (induction kvs arbitrary: m)
  case (Cons kv kvs)
  then show ?case by (simp add: set_label_def map_add_def split: option.split)
qed simp

lemma lbuild_empty:
  assumes "labels_ok L"
  shows "label_map L (lbuild L (lempty L) kvs) n = layered [kvs] n"
    and "distinct (map fst (lrange L (lbuild L (lempty L) kvs)))"
  using lbuild_law [OF assms, of "lempty L" kvs] lbuild_distinct_law [OF assms, of "lempty L" kvs]
  by (simp_all add: lempty_law [OF assms] foldl_set_label label_map_def split: option.split)

text \<open>Setting the labels of a label set, when these have no empty value.\<close>

lemma map_of_rev_range:
  "distinct (map fst (lrange L l)) \<Longrightarrow> map_of (rev (lrange L l)) = label_map L l"
  unfolding label_map_def by (subst map_of_inject_set) (simp_all add: rev_map [symmetric])

lemma layered_concat: "layered [concat (rev kss)] n = layered kss n"
proof (induction kss)
  case (Cons kvs kss)
  then show ?case by (simp add: map_add_def split: option.split)
qed simp

lemma layered_range:
  assumes L: "labels_ok L"
  shows "layered [lrange L (lbuild L (lempty L) kvs)] n = layered [kvs] n"
    and "\<forall>p \<in> set kvs. snd p \<noteq> '''' \<Longrightarrow>
      map_of (rev (lrange L (lbuild L (lempty L) kvs))) n = map_of (rev kvs) n"
proof -
  have lk: "map_of (rev (lrange L (lbuild L (lempty L) kvs))) n = layered [kvs] n"
    using lbuild_empty [OF L] by (simp only: map_of_rev_range)
  then show "layered [lrange L (lbuild L (lempty L) kvs)] n = layered [kvs] n"
    by (simp split: option.split)
  assume "\<forall>p \<in> set kvs. snd p \<noteq> ''''"
  moreover have "map_of (rev kvs) n = Some v \<Longrightarrow> (n, v) \<in> set kvs" for v
    using map_of_SomeD [of "rev kvs" n v] by simp
  ultimately show "map_of (rev (lrange L (lbuild L (lempty L) kvs))) n = map_of (rev kvs) n"
    unfolding lk by (force split: option.split)
qed

lemma scopeLabels_range:
  assumes L: "labels_ok (teLabels E)"
  shows "map_of (rev (lrange (teLabels E) (scopeLabels E sc))) n = map_of (rev (scope_pairs sc)) n"
proof (cases sc)
  case None
  then show ?thesis by (simp add: scopeLabels_def scope_pairs_def lempty_law [OF L])
next
  case (Some s)
  have "scopeLabels E sc = lbuild (teLabels E) (lempty (teLabels E)) (scope_pairs sc)"
    by (simp add: Some scopeLabels_def scope_pairs_def)
  moreover have "\<forall>p \<in> set (scope_pairs sc). snd p \<noteq> ''''" by (simp add: Some scope_pairs_def)
  ultimately show ?thesis using layered_range(2) [OF L] by simp
qed

lemma map_of_rev_const:
  "map_of (rev (map (\<lambda>u. (k, u)) us)) n = (if n = k \<and> us \<noteq> [] then Some (last us) else None)"
  by (induction us rule: rev_induct) auto

lemma schema_range:
  assumes L: "labels_ok (teLabels E)"
  shows "map_of (rev (lrange (teLabels E) (schema_in_force E cfg urls))) n = map_of (rev (schema_pairs cfg urls)) n"
proof (cases "schema_pairs cfg urls = []")
  case True
  then have "schema_in_force E cfg urls = lempty (teLabels E)"
    by (simp add: schema_in_force_def schema_pairs_def rev_filter [symmetric] split: if_splits)
  with True show ?thesis by (simp add: lempty_law [OF L])
next
  case False
  let ?us = "filter (\<lambda>u. u \<noteq> '''') urls"
  from False have cfg: "tcSchemaURL cfg" and us: "?us \<noteq> []"
    by (auto simp: schema_pairs_def split: if_splits)
  then obtain us u where u: "?us = us @ [u]" by (metis rev_exhaust)
  then have "u \<in> set ?us" by simp
  then have "u \<noteq> ''''" by simp
  moreover have "schema_in_force E cfg urls = schemaLabels E u"
    using cfg u by (simp add: schema_in_force_def rev_filter [symmetric])
  ultimately have "map_of (rev (lrange (teLabels E) (schema_in_force E cfg urls))) n = map_of [(''__schema_url__'', u)] n"
    using layered_range(2) [OF L, of "[(''__schema_url__'', u)]" n] by (simp add: schemaLabels_def)
  then show ?thesis using cfg us u by (simp add: schema_pairs_def map_of_rev_const)
qed

text \<open>C22: the labels of every sample. A label is decided, in this order, by the metric name, the
  attributes of the data point, the schema URL in force, the scope, and the resource attributes that
  are mapped or promoted; within one layer the last one wins, and an empty value leaves the label out.
\<close>

theorem build_labels:
  assumes "labels_ok (teLabels E)"
  shows "label_map (teLabels E)
      (buildLabels E name attrs (resourceLabels E cfg rattrs) (scopeLabels E sc) (schema_in_force E cfg urls)) n =
    layered [[(''__name__'', name)], attr_pairs E attrs, schema_pairs cfg urls, scope_pairs sc,
      concat (map (resourceSet E cfg) rattrs)] n"
proof -
  let ?L = "teLabels E"
  let ?rl = "lrange ?L (resourceLabels E cfg rattrs)" and ?sl = "lrange ?L (scopeLabels E sc)"
    and ?cl = "lrange ?L (schema_in_force E cfg urls)"
  have "label_map ?L
      (buildLabels E name attrs (resourceLabels E cfg rattrs) (scopeLabels E sc) (schema_in_force E cfg urls)) n =
    layered [concat (rev [[(''__name__'', name)], attr_pairs E attrs, ?cl, ?sl, ?rl])] n"
    unfolding buildLabels_def attr_pairs_def [symmetric] lbuild_empty(1) [OF assms] by simp
  also have "\<dots> = layered [[(''__name__'', name)], attr_pairs E attrs, ?cl, ?sl, ?rl] n"
    by (rule layered_concat)
  also have "\<dots> = layered [[(''__name__'', name)], attr_pairs E attrs, schema_pairs cfg urls, scope_pairs sc,
      concat (map (resourceSet E cfg) rattrs)] n"
    using layered_range(1) [OF assms, of "concat (map (resourceSet E cfg) rattrs)" n]
    by (simp only: layered.simps scopeLabels_range [OF assms] schema_range [OF assms] resourceLabels_def)
  finally show ?thesis .
qed

definition ascii_env :: "(string \<times> string) list translator_env" where
  "ascii_env =
     \<lparr>teLabels = list_labels poly_hash, teUnicode = ascii_tables, teFmt = (\<lambda>v. fmt_int (uint v)),
      tePow = (\<lambda>a b. a), teQuote = (\<lambda>s. s), teNow = (\<lambda>n. int n)\<rparr>"

definition plain_cfg :: translationConfig where
  "plain_cfg =
     \<lparr>tcLabelMap = [(''service.name'', ''job'')], tcPromote = [''host.name''], tcSanitizeMetricNames = False,
      tcAddUnitSuffix = False, tcAddTypeSuffix = False, tcDeltaConversion = True, tcSchemaURL = True\<rparr>"

lemma ascii_env_ok: "labels_ok (teLabels ascii_env)"
  by (simp add: ascii_env_def list_labels_ok)

theorem build_labels_witness:
  "label_map (teLabels ascii_env)
      (buildLabels ascii_env ''up'' [\<lparr>kvKey = ''host'', kvValue = None\<rparr>]
        (resourceLabels ascii_env plain_cfg [\<lparr>kvKey = ''service.name'', kvValue = Some (StringValue ''a'')\<rparr>])
        (scopeLabels ascii_env None) (schema_in_force ascii_env plain_cfg [''u'', ''''])) ''job'' = Some ''a'' \<and>
   label_map (teLabels ascii_env)
      (buildLabels ascii_env ''up'' [\<lparr>kvKey = ''host'', kvValue = None\<rparr>]
        (resourceLabels ascii_env plain_cfg [\<lparr>kvKey = ''service.name'', kvValue = Some (StringValue ''a'')\<rparr>])
        (scopeLabels ascii_env None) (schema_in_force ascii_env plain_cfg [''u'', ''''])) ''__schema_url__'' = Some ''u''"
proof -
  have "sanitizeLabelName ascii_tables ''host'' = ''host''" by code_simp
  then show ?thesis
    unfolding build_labels [OF ascii_env_ok]
    by (simp add: attr_pairs_def schema_pairs_def scope_pairs_def resourceSet_def plain_cfg_def Let_def
      anyValueString_def ascii_env_def)
qed

section \<open>Histograms\<close>

lemma take_Suc_hd: "sum_list (take (Suc n) counts) = (case counts of [] \<Rightarrow> 0 | c # cs \<Rightarrow> c + sum_list (take n cs))"
  for counts :: "u64 list"
  by (cases counts) simp_all

lemma cumulativeBuckets_sums:
  "cumulativeBuckets cum bounds counts =
     (map (\<lambda>i. (bounds ! i, cum + sum_list (take (Suc i) counts))) [0..<length bounds],
      cum + sum_list (take (Suc (length bounds)) counts))"
proof (induction bounds arbitrary: cum counts)
  case Nil
  show ?case by (cases counts) simp_all
next
  case (Cons b bounds)
  show ?case
    by (cases counts) (simp_all add: Cons upt_conv_Cons map_Suc_upt [symmetric] add.assoc del: upt_Suc)
qed

lemma expBucketBounds_sums:
  "expBucketBounds E base idx cum bcs =
     (map (\<lambda>i. (tePow E base (f64_of_i64 (idx + of_nat i + 1)), cum + sum_list (take (Suc i) bcs))) [0..<length bcs],
      cum + sum_list bcs)"
proof (induction bcs arbitrary: idx cum)
  case (Cons bc bcs)
  show ?case
    by (simp add: Cons upt_conv_Cons map_Suc_upt [symmetric] algebra_simps Let_def del: upt_Suc)
qed simp

lemma unat_sum_list:
  fixes ws :: "u64 list"
  shows "sum_list (map unat ws) < 2 ^ 64 \<Longrightarrow> unat (sum_list ws) = sum_list (map unat ws)"
proof (induction ws)
  case (Cons w ws)
  then show ?case by (simp add: unat_word_ariths)
qed simp

text \<open>C35: a histogram data point becomes, for every bound, a \<open>_bucket\<close> sample with the cumulative count up
  to it, a \<open>+Inf\<close> bucket, a \<open>_count\<close> and, when the point has a sum, a \<open>_sum\<close>, in this order. When the
  point has one more count than bounds, and the counts add up to its count without wrapping, the
  buckets are non-decreasing and the \<open>+Inf\<close> bucket equals \<open>_count\<close>.
\<close>

theorem histogram_samples:
  fixes dp :: histogramDataPoint
  defines "bounds \<equiv> hdExplicitBounds dp" and "counts \<equiv> hdBucketCounts dp"
  defines "cum \<equiv> \<lambda>i. sum_list (take (Suc i) counts)"
  shows "histogramSamples E name base dp =
      map (\<lambda>i. (appendLabel E base (name @ ''_bucket'') ''le'' (teFmt E (bounds ! i)), f64_of_u64 (cum i))) [0..<length bounds] @
      [(appendLabel E base (name @ ''_bucket'') ''le'' ''+Inf'', f64_of_u64 (cum (length bounds))),
       (replaceMetricName E base (name @ ''_count''), f64_of_u64 (hdCount dp))] @
      (case hdSum dp of None \<Rightarrow> [] | Some s \<Rightarrow> [(replaceMetricName E base (name @ ''_sum''), s)]) \<and>
    (length counts = Suc (length bounds) \<and> sum_list (map unat counts) = unat (hdCount dp) \<longrightarrow>
      cum (length bounds) = hdCount dp \<and> (\<forall>i j. i \<le> j \<longrightarrow> cum i \<le> cum j))"
proof (intro conjI impI allI)
  show "histogramSamples E name base dp =
      map (\<lambda>i. (appendLabel E base (name @ ''_bucket'') ''le'' (teFmt E (bounds ! i)), f64_of_u64 (cum i))) [0..<length bounds] @
      [(appendLabel E base (name @ ''_bucket'') ''le'' ''+Inf'', f64_of_u64 (cum (length bounds))),
       (replaceMetricName E base (name @ ''_count''), f64_of_u64 (hdCount dp))] @
      (case hdSum dp of None \<Rightarrow> [] | Some s \<Rightarrow> [(replaceMetricName E base (name @ ''_sum''), s)])"
    by (simp add: histogramSamples_def cumulativeBuckets_sums bucketSamples_def histogramTail_def comp_def
      bounds_def counts_def cum_def)
next
  assume hyp: "length counts = Suc (length bounds) \<and> sum_list (map unat counts) = unat (hdCount dp)"
  have lim: "sum_list (map unat counts) < 2 ^ 64" using hyp unsigned_less [of "hdCount dp"] by simp
  have "unat (sum_list counts) = unat (hdCount dp)" using unat_sum_list [OF lim] hyp by simp
  then have "sum_list counts = hdCount dp" by (rule word_unat_eq_iff [THEN iffD2])
  then show "cum (length bounds) = hdCount dp" using hyp by (simp add: cum_def)
  fix i j :: nat assume "i \<le> j"
  have pre: "sum_list (map unat (take k counts)) + sum_list (map unat (drop k counts)) = sum_list (map unat counts)" for k
    by (metis append_take_drop_id map_append sum_list_append)
  have small: "unat (sum_list (take k counts)) = sum_list (map unat (take k counts))" for k
    using unat_sum_list [of "take k counts"] pre [of k] lim by simp
  have "take (Suc j) counts = take (Suc i) counts @ take (j - i) (drop (Suc i) counts)"
    using \<open>i \<le> j\<close> take_add [of "Suc i" "j - i" counts] by simp
  then have "sum_list (map unat (take (Suc i) counts)) \<le> sum_list (map unat (take (Suc j) counts))" by simp
  then show "cum i \<le> cum j" by (simp add: cum_def word_le_nat_alt small)
qed

definition demo_histogram :: histogramDataPoint where
  "demo_histogram =
     \<lparr>hdAttributes = [], hdTimeUnixNano = 5000000, hdCount = 6, hdSum = Some 1,
      hdExplicitBounds = [3, 4], hdBucketCounts = [1, 2, 3]\<rparr>"

theorem histogram_samples_witness:
  "map snd (histogramSamples ascii_env ''h'' [] demo_histogram) =
     [f64_of_u64 1, f64_of_u64 3, f64_of_u64 6, f64_of_u64 6, 1] \<and>
   sum_list (take (Suc 2) (hdBucketCounts demo_histogram)) = hdCount demo_histogram"
  using histogram_samples [of ascii_env "''h''" "[]" demo_histogram]
  by (simp add: demo_histogram_def upt_rec)

text \<open>an exponential histogram data point becomes the cumulative counts of its zero bucket and its
  positive buckets, and the \<open>+Inf\<close> bucket is their sum. The negative buckets are not read: when the
  counts add up, the \<open>+Inf\<close> bucket falls short of \<open>_count\<close> by what the negative buckets hold.
\<close>

theorem exp_histogram_samples:
  fixes dp :: expHistogramDataPoint
  defines "counts \<equiv> (case edPositive dp of None \<Rightarrow> [] | Some p \<Rightarrow> ebBucketCounts p)"
  defines "offset \<equiv> (case edPositive dp of None \<Rightarrow> (0 :: i64) | Some p \<Rightarrow> scast (ebOffset p))"
  defines "neg \<equiv> (case edNegative dp of None \<Rightarrow> [] | Some p \<Rightarrow> ebBucketCounts p)"
  defines "cum \<equiv> \<lambda>i. edZeroCount dp + sum_list (take i counts)"
  shows "expHistogramSamples E name base dp =
      map (\<lambda>i. (appendLabel E base (name @ ''_bucket'') ''le''
          (teFmt E (tePow E (expBase E (edScale dp)) (f64_of_i64 (offset + of_nat i + 1)))), f64_of_u64 (cum (Suc i))))
        [0..<length counts] @
      [(appendLabel E base (name @ ''_bucket'') ''le'' ''+Inf'', f64_of_u64 (cum (length counts))),
       (replaceMetricName E base (name @ ''_count''), f64_of_u64 (edCount dp))] @
      (case edSum dp of None \<Rightarrow> [] | Some s \<Rightarrow> [(replaceMetricName E base (name @ ''_sum''), s)]) \<and>
    (edCount dp = edZeroCount dp + sum_list counts + sum_list neg \<longrightarrow>
      cum (length counts) + sum_list neg = edCount dp)"
  by (cases "edPositive dp")
    (simp_all add: expHistogramSamples_def expBucketBounds_sums bucketSamples_def histogramTail_def comp_def
      counts_def offset_def cum_def)

definition demo_exp_histogram :: expHistogramDataPoint where
  "demo_exp_histogram =
     \<lparr>edAttributes = [], edTimeUnixNano = 5000000, edCount = 7, edSum = None, edScale = 0, edZeroCount = 1,
      edPositive = Some \<lparr>ebOffset = 0, ebBucketCounts = [2]\<rparr>,
      edNegative = Some \<lparr>ebOffset = 0, ebBucketCounts = [4]\<rparr>\<rparr>"

theorem exp_histogram_samples_witness:
  "map snd (expHistogramSamples ascii_env ''h'' [] demo_exp_histogram) =
     [f64_of_u64 3, f64_of_u64 3, f64_of_u64 7]"
  using exp_histogram_samples [of ascii_env "''h''" "[]" demo_exp_histogram]
  by (simp add: demo_exp_histogram_def)

section \<open>Delta accumulation\<close>

definition series_job :: "'l translator_env \<Rightarrow> u64 \<Rightarrow> 'l job \<Rightarrow> bool" where
  "series_job E fp j \<longleftrightarrow> jDelta j \<and> lhash (teLabels E) (jLabels j) = fp"

text \<open>
  No delta of the series comes later than \<open>deltaTTL\<close> after the one before it. Every delta job reads
  the clock twice; \<open>seen\<close> is the reading of the last delta of the series.
\<close>

fun alive :: "'l translator_env \<Rightarrow> u64 \<Rightarrow> nat \<Rightarrow> int option \<Rightarrow> 'l job list \<Rightarrow> bool" where
  "alive E fp c seen [] = True"
| "alive E fp c seen (j # js) =
     (if \<not> jDelta j then alive E fp c seen js
      else if series_job E fp j then
        (case seen of None \<Rightarrow> True | Some t \<Rightarrow> teNow E c - deltaTTL \<le> t) \<and> alive E fp (c + 2) (Some (teNow E (c + 1))) js
      else alive E fp (c + 2) seen js)"

definition series_values :: "'l translator_env \<Rightarrow> u64 \<Rightarrow> 'l job list \<Rightarrow> 'l pendingSample list \<Rightarrow> f64 list" where
  "series_values E fp js ps = map (\<lambda>(j, p). pV p) (filter (\<lambda>(j, p). series_job E fp j) (zip js ps))"

fun partial_sums :: "int \<Rightarrow> int list \<Rightarrow> int list" where
  "partial_sums s [] = []"
| "partial_sums s (d # ds) = (s + d) # partial_sums (s + d) ds"

lemma partial_sums_take: "partial_sums s ds = map (\<lambda>i. s + sum_list (take (Suc i) ds)) [0..<length ds]"
  by (induction ds arbitrary: s)
    (simp_all add: upt_conv_Cons map_Suc_upt [symmetric] algebra_simps del: upt_Suc)

lemma alive_now:
  assumes mono: "\<forall>n. teNow E n \<le> teNow E (Suc n)"
  shows "alive E fp c (Some t) js \<Longrightarrow> \<exists>j \<in> set js. series_job E fp j \<Longrightarrow> teNow E c - deltaTTL \<le> t"
proof (induction js arbitrary: c)
  case (Cons j js)
  have step: "teNow E c \<le> teNow E (c + 2)"
    using mono [THEN spec, of c] mono [THEN spec, of "Suc c"] by (simp add: numeral_2_eq_2)
  show ?case
  proof (cases "series_job E fp j")
    case True
    then show ?thesis using Cons.prems by (simp add: series_job_def)
  next
    case False
    then have later: "\<exists>j \<in> set js. series_job E fp j" using Cons.prems by auto
    show ?thesis
    proof (cases "jDelta j")
      case True
      then have "alive E fp (c + 2) (Some t) js" using Cons.prems(1) False by simp
      from Cons.IH [OF this later] step show ?thesis by simp
    next
      case nd: False
      then have "alive E fp c (Some t) js" using Cons.prems(1) by simp
      from Cons.IH [OF this later] show ?thesis .
    qed
  qed
qed simp

text \<open>What one accumulation does to the entry of a series.\<close>

definition live_entry :: "'l translator_env \<Rightarrow> nat \<Rightarrow> deltaEntry option \<Rightarrow> deltaEntry option" where
  "live_entry E c e = (case e of None \<Rightarrow> None | Some e \<Rightarrow> if deLastSeen e < teNow E c - deltaTTL then None else Some e)"

lemma accumulate_other:
  "lhash (teLabels E) l \<noteq> fp \<Longrightarrow>
   trDelta (snd (accumulateDelta E l v st)) fp = live_entry E (trClock st) (trDelta st fp)"
  by (auto simp: accumulateDelta_def evictStale_def Let_def live_entry_def split: option.splits)

lemma accumulate_clock: "trClock (snd (accumulateDelta E l v st)) = trClock st + 2"
  by (simp add: accumulateDelta_def evictStale_def Let_def split: option.split)

lemma accumulate_same:
  fixes v :: f64 and st :: "'a trState"
  assumes "lhash (teLabels E) l = fp"
  defines "w \<equiv> (case live_entry E (trClock st) (trDelta st fp) of None \<Rightarrow> v | Some e \<Rightarrow> f64_add (deValue e) v)"
  shows "fst (accumulateDelta E l v st) = w"
    and "trDelta (snd (accumulateDelta E l v st)) fp = Some \<lparr>deValue = w, deLastSeen = teNow E (trClock st + 1)\<rparr>"
  using assms(1)
  by (auto simp: accumulateDelta_def evictStale_def Let_def live_entry_def w_def split: option.splits)

lemma delta_partial_sums:
  assumes mono: "\<forall>n. teNow E n \<le> teNow E (Suc n)"
  shows "alive E fp (trClock st) (map_option deLastSeen (trDelta st fp)) js \<Longrightarrow>
    (case trDelta st fp of None \<Rightarrow> s = 0 | Some e \<Rightarrow> f64_is_int (deValue e) s) \<Longrightarrow>
    list_all2 f64_is_int (map jV (filter (series_job E fp) js)) ds \<Longrightarrow>
    \<forall>x \<in> set (partial_sums s ds). \<bar>x\<bar> < 2 ^ 53 \<Longrightarrow>
    list_all2 f64_is_int (series_values E fp js (fst (run_jobs E js st))) (partial_sums s ds)"
proof (induction js arbitrary: st s ds)
  case Nil
  then show ?case by (simp add: series_values_def)
next
  case (Cons j js)
  obtain v st' where v: "job_value E j st = (v, st')" by fastforce
  have vals: "series_values E fp (j # js) (fst (run_jobs E (j # js) st)) =
    (if series_job E fp j then [v] else []) @ series_values E fp js (fst (run_jobs E js st'))"
    using v by (simp add: series_values_def split: prod.split)
  show ?case
  proof (cases "series_job E fp j")
    case True
    then have d: "jDelta j" and fp: "lhash (teLabels E) (jLabels j) = fp" by (simp_all add: series_job_def)
    from True Cons.prems(3) obtain d0 ds' where ds: "ds = d0 # ds'" "f64_is_int (jV j) d0"
      "list_all2 f64_is_int (map jV (filter (series_job E fp) js)) ds'"
      by (auto simp: list_all2_Cons1)
    have acc: "accumulateDelta E (jLabels j) (jV j) st = (v, st')" using v d by (simp add: job_value_def)
    note same = accumulate_same [OF fp, where v = "jV j" and st = st]
    have live: "live_entry E (trClock st) (trDelta st fp) = trDelta st fp"
      using Cons.prems(1) True d by (cases "trDelta st fp") (auto simp: live_entry_def)
    have "f64_is_int v (s + d0)"
    proof (cases "trDelta st fp")
      case None
      then show ?thesis using same(1) live ds(2) acc Cons.prems(2) by simp
    next
      case (Some e)
      then show ?thesis using same(1) live ds acc Cons.prems(2,4) f64_add_int [of "deValue e" s "jV j" d0] by simp
    qed
    moreover have "list_all2 f64_is_int (series_values E fp js (fst (run_jobs E js st'))) (partial_sums (s + d0) ds')"
    proof (rule Cons.IH)
      have e: "trDelta st' fp = Some \<lparr>deValue = v, deLastSeen = teNow E (trClock st + 1)\<rparr>"
        using same acc by simp
      show "alive E fp (trClock st') (map_option deLastSeen (trDelta st' fp)) js"
        using Cons.prems(1) True d e accumulate_clock [of E "jLabels j" "jV j" st] acc by simp
      show "case trDelta st' fp of None \<Rightarrow> s + d0 = 0 | Some e \<Rightarrow> f64_is_int (deValue e) (s + d0)"
        using e \<open>f64_is_int v (s + d0)\<close> by simp
    qed (use ds Cons.prems(4) in simp_all)
    ultimately show ?thesis unfolding vals using True ds by simp
  next
    case False
    have "list_all2 f64_is_int (series_values E fp js (fst (run_jobs E js st'))) (partial_sums s ds)"
    proof (cases "jDelta j \<and> (\<exists>j \<in> set js. series_job E fp j)")
      case True
      then have fp: "lhash (teLabels E) (jLabels j) \<noteq> fp" and d: "jDelta j" using False by (auto simp: series_job_def)
      have acc: "accumulateDelta E (jLabels j) (jV j) st = (v, st')" using v d by (simp add: job_value_def)
      have al: "alive E fp (trClock st + 2) (map_option deLastSeen (trDelta st fp)) js"
        using Cons.prems(1) False d by simp
      have "teNow E (trClock st) \<le> teNow E (trClock st + 2)"
        using mono [THEN spec, of "trClock st"] mono [THEN spec, of "Suc (trClock st)"] by (simp add: numeral_2_eq_2)
      moreover have "teNow E (trClock st + 2) - deltaTTL \<le> deLastSeen e" if "trDelta st fp = Some e" for e
        using alive_now [OF mono, of fp "trClock st + 2" "deLastSeen e" js] al that True by simp
      ultimately have "live_entry E (trClock st) (trDelta st fp) = trDelta st fp"
        by (force simp: live_entry_def split: option.split)
      then have "trDelta st' fp = trDelta st fp" "trClock st' = trClock st + 2"
        using accumulate_other [OF fp, of "jV j" st] accumulate_clock [of E "jLabels j" "jV j" st] acc by simp_all
      then show ?thesis using Cons.IH [of st' s ds] al Cons.prems(2-4) False by simp
    next
      case no: False
      show ?thesis
      proof (cases "jDelta j")
        case True
        with no have none: "filter (series_job E fp) js = []" by (auto simp: filter_empty_conv)
        then have "ds = []" using Cons.prems(3) False by simp
        moreover have "series_values E fp js ps = []" for ps
          using none by (auto simp: series_values_def filter_empty_conv dest: set_zip_leftD)
        ultimately show ?thesis by simp
      next
        case nd: False
        then have "st' = st" using v by (simp add: job_value_def)
        then show ?thesis using Cons.IH [of st s ds] Cons.prems False nd by simp
      qed
    qed
    then show ?thesis unfolding vals using False by simp
  qed
qed

text \<open>C21: the cumulative value of a delta series. Whatever else is translated in between, and provided
  no two deltas of the series are more than \<open>deltaTTL\<close> apart, its samples are the exact running sums
  of its deltas, while these are integers below \<open>2 ^ 53\<close>. The series is identified by the label hash alone.
\<close>

theorem delta_running_sums:
  assumes "\<forall>n. teNow E n \<le> teNow E (Suc n)"
    and "trDelta st fp = None" and "alive E fp (trClock st) None js"
    and "list_all2 f64_is_int (map jV (filter (series_job E fp) js)) ds"
    and "\<forall>i < length ds. \<bar>sum_list (take (Suc i) ds)\<bar> < 2 ^ 53"
  shows "list_all2 f64_is_int (series_values E fp js (fst (run_jobs E js st)))
    (map (\<lambda>i. sum_list (take (Suc i) ds)) [0..<length ds])"
  using delta_partial_sums [OF assms(1), of fp st js 0 ds] assms(2-5)
  by (auto simp: partial_sums_take)

theorem delta_running_sums_witness:
  "list_all2 f64_is_int
     (series_values ascii_env (poly_hash [])
       [\<lparr>jDelta = True, jT = 1, jLabels = [], jV = f64_of_nat 5\<rparr>, \<lparr>jDelta = False, jT = 1, jLabels = [], jV = 0\<rparr>,
        \<lparr>jDelta = True, jT = 2, jLabels = [], jV = f64_of_nat 7\<rparr>]
       (fst (run_jobs ascii_env
         [\<lparr>jDelta = True, jT = 1, jLabels = [], jV = f64_of_nat 5\<rparr>, \<lparr>jDelta = False, jT = 1, jLabels = [], jV = 0\<rparr>,
          \<lparr>jDelta = True, jT = 2, jLabels = [], jV = f64_of_nat 7\<rparr>] (newTranslator ()))))
     [5, 12]"
proof -
  let ?js = "[\<lparr>jDelta = True, jT = 1, jLabels = [], jV = f64_of_nat 5\<rparr>, \<lparr>jDelta = False, jT = 1, jLabels = [], jV = 0\<rparr>,
    \<lparr>jDelta = True, jT = 2, jLabels = [], jV = f64_of_nat 7\<rparr>]"
  have "list_all2 f64_is_int (series_values ascii_env (poly_hash []) ?js (fst (run_jobs ascii_env ?js (newTranslator ()))))
    (map (\<lambda>i. sum_list (take (Suc i) [5, 7])) [0..<length [5, 7 :: int]])"
  proof (rule delta_running_sums)
    show "\<forall>n. teNow ascii_env n \<le> teNow ascii_env (Suc n)" by (simp add: ascii_env_def)
    show "trDelta (newTranslator ()) (poly_hash []) = None" by (simp add: newTranslator_def)
    show "alive ascii_env (poly_hash []) (trClock (newTranslator ())) None ?js"
      by (simp add: newTranslator_def series_job_def ascii_env_def list_labels_def deltaTTL_def)
    show "list_all2 f64_is_int (map jV (filter (series_job ascii_env (poly_hash [])) ?js)) [5, 7]"
      using f64_of_nat_int [of 5] f64_of_nat_int [of 7]
      by (simp add: series_job_def ascii_env_def list_labels_def)
    show "\<forall>i < length [5, 7 :: int]. \<bar>sum_list (take (Suc i) [5, 7 :: int])\<bar> < 2 ^ 53"
      by (simp add: less_Suc_eq)
  qed
  then show ?thesis by (simp add: upt_rec)
qed

end
