(* ===== verification/RemoteSpec.thy ===== *)
theory RemoteSpec
  imports Remote TranslatorSpec
begin

text \<open>
  What the remote stores do on the wire: the retry loop against a reference that looks for the first
  decisive answer, the division into batches, and the rows of VictoriaMetrics read back.
\<close>

section \<open>Retrying\<close>

definition retryable :: "answer \<Rightarrow> bool" where
  "retryable a = (case a of NoResponse _ \<Rightarrow> True | Status code \<Rightarrow> code div 100 = 5)"

definition accepted :: "answer \<Rightarrow> bool" where
  "accepted a = (case a of NoResponse _ \<Rightarrow> False | Status code \<Rightarrow> code div 100 = 2)"

text \<open>What has happened once a request has been posted \<open>k\<close> times, and the answer to its posting number \<open>k\<close>.\<close>

fun tried :: "httpReq \<Rightarrow> nat \<Rightarrow> netEvent list \<Rightarrow> netEvent list" where
  "tried req 0 net = net"
| "tried req (Suc k) net = tried req k net @ (if 0 < k then [Slept (backoff k)] else []) @ [Posted req]"

definition reply :: "remote_env \<Rightarrow> httpReq \<Rightarrow> netEvent list \<Rightarrow> nat \<Rightarrow> answer" where
  "reply E req net k = rePeer E (tried req (Suc k) net)"

definition status_text :: "string \<Rightarrow> answer \<Rightarrow> string" where
  "status_text what a = (case a of NoResponse e \<Rightarrow> e | Status code \<Rightarrow> what @ '': status '' @ fmt_nat code)"

text \<open>The reference: the first answer that is not retryable decides; without one the batch is given up.\<close>

definition retry_spec :: "remote_env \<Rightarrow> string \<Rightarrow> httpReq \<Rightarrow> nat \<Rightarrow> nat \<Rightarrow> netEvent list \<Rightarrow> err \<times> netEvent list" where
  "retry_spec E what req k n net =
     (case find (\<lambda>i. \<not> retryable (reply E req net i)) [k..<k + n] of
        None \<Rightarrow> (None, tried req (k + n) net)
      | Some i \<Rightarrow>
          (if accepted (reply E req net i) then None else Some (status_text what (reply E req net i)),
           tried req (Suc i) net))"

lemma attempts_spec:
  assumes "reNewRequest E (hqURL req) = None"
  shows "attempts E what req k n (tried req k net) = retry_spec E what req k n net"
proof (induction n arbitrary: k)
  case 0
  then show ?case by (simp add: retry_spec_def)
next
  case (Suc n)
  have upt: "[k..<k + Suc n] = k # [Suc k..<Suc k + n]" by (simp add: upt_conv_Cons)
  have net: "(if k > 0 then tried req k net @ [Slept (backoff k)] else tried req k net) @ [Posted req] = tried req (Suc k) net"
    by simp
  show ?case
  proof (cases "retryable (reply E req net k)")
    case True
    then have "attempts E what req k (Suc n) (tried req k net) = attempts E what req (Suc k) n (tried req (Suc k) net)"
      using assms by (auto simp: reply_def retryable_def Let_def split: answer.splits)
    also have "\<dots> = retry_spec E what req (Suc k) n net" by (rule Suc.IH)
    also have "\<dots> = retry_spec E what req k (Suc n) net"
      using True unfolding retry_spec_def upt by (simp del: tried.simps upt_Suc cong: option.case_cong)
    finally show ?thesis .
  next
    case False
    then have "retry_spec E what req k (Suc n) net =
        (if accepted (reply E req net k) then None else Some (status_text what (reply E req net k)), tried req (Suc k) net)"
      unfolding retry_spec_def upt by (simp del: tried.simps upt_Suc)
    then show ?thesis
      using assms False
      by (auto simp: reply_def retryable_def accepted_def status_text_def Let_def split: answer.splits if_splits)
  qed
qed

lemma retry_spec_cases:
  assumes "retry_spec E what req 0 n net = (r, net')"
  obtains (gave_up) "r = None" "net' = tried req n net" "\<forall>i < n. retryable (reply E req net i)"
  | (decided) i where "i < n" "net' = tried req (Suc i) net" "\<forall>j < i. retryable (reply E req net j)"
      "\<not> retryable (reply E req net i)"
      "r = (if accepted (reply E req net i) then None else Some (status_text what (reply E req net i)))"
proof (cases "find (\<lambda>i. \<not> retryable (reply E req net i)) [0..<n]")
  case None
  then have "\<forall>i < n. retryable (reply E req net i)" by (auto simp: find_None_iff)
  with None assms show ?thesis by (intro gave_up) (simp_all add: retry_spec_def)
next
  case (Some i)
  then obtain k where "k < n" "i = k" "\<not> retryable (reply E req net k)" "\<forall>j < k. retryable (reply E req net j)"
    by (auto simp: find_Some_iff)
  with Some assms show ?thesis by (intro decided [of i]) (auto simp: retry_spec_def)
qed

lemma tried_posts: "filter (\<lambda>e. e = Posted req) (tried req k net) = filter (\<lambda>e. e = Posted req) net @ replicate k (Posted req)"
  by (induction k) (simp_all add: replicate_append_same)

section \<open>Batches\<close>

function chunks :: "nat \<Rightarrow> 'b list \<Rightarrow> 'b list list" where
  "chunks n xs = (if xs = [] \<or> n = 0 then [] else take n xs # chunks n (drop n xs))"
  by pat_completeness auto
termination by (relation "measure (\<lambda>(n, xs). length xs)") auto

declare chunks.simps [simp del]

lemma concat_chunks: "0 < n \<Longrightarrow> concat (chunks n xs) = xs"
  by (induction n xs rule: chunks.induct) (simp add: chunks.simps)

lemma chunks_bound: "c \<in> set (chunks n xs) \<Longrightarrow> c \<noteq> [] \<and> length c \<le> n"
  by (induction n xs rule: chunks.induct) (subst (asm) (2) chunks.simps, auto split: if_splits)

fun sendAll :: "('b list \<Rightarrow> netEvent list \<Rightarrow> err \<times> netEvent list) \<Rightarrow> 'b list list \<Rightarrow> netEvent list \<Rightarrow> err \<times> netEvent list" where
  "sendAll send [] net = (None, net)"
| "sendAll send (c # cs) net =
     (case send c net of (Some e, net) \<Rightarrow> (Some e, net) | (None, net) \<Rightarrow> sendAll send cs net)"

lemma sendBatches_chunks: "sendBatches send n xs net = sendAll send (chunks n xs) net"
proof (induction send n xs net rule: sendBatches.induct)
  case (1 send n xs net)
  then show ?case
    by (subst sendBatches.simps, subst chunks.simps) (auto split: prod.split option.split)
qed

lemma sendAll_ok:
  assumes "\<And>c net. c \<in> set cs \<Longrightarrow> send c net = (None, net @ f c)"
  shows "sendAll send cs net = (None, net @ concat (map f cs))"
  using assms by (induction cs arbitrary: net) auto

lemma sendAll_unit: "(\<And>c net. fst (send c net) = None) \<Longrightarrow> fst (sendAll send cs net) = None"
proof (induction cs arbitrary: net)
  case (Cons c cs)
  then show ?case by (cases "send c net") (metis (no_types, lifting) fst_conv option.case(1) prod.case sendAll.simps(2))
qed simp

section \<open>The Prometheus store\<close>

text \<open>The pending series of a batch.\<close>

definition prom_series :: "'l labels_api \<Rightarrow> 'l pendingSample \<Rightarrow> promTimeSeries" where
  "prom_series L p = \<lparr>tsLabels = lrange L (pLabels p), tsSamples = [\<lparr>sT = pT p, sV = pV p\<rparr>]\<rparr>"

lemma append_batch_prom:
  "append_batch (prom_appender_ops L E cfg) a ps = (None, (fst a, snd a @ map (prom_series L) ps))"
  by (induction ps arbitrary: a) (simp_all add: prom_appender_ops_def promAppend_def prom_series_def)

text \<open>
  Over label sets that are lists of pairs the pending series are the batch, so that the Prometheus
  store is a \<open>store_appender\<close>: its store is the network, which only \<open>Commit\<close> touches.
\<close>

definition prom_pend :: "promAppender \<Rightarrow> (string \<times> string) list pendingSample list" where
  "prom_pend a = concat (map (\<lambda>ts. map (\<lambda>s. pending (tsLabels ts) (sT s) (sV s)) (tsSamples ts)) (snd a))"

interpretation promapp: store_appender "prom_appender_ops (list_labels h) E cfg" prom_pend fst
  by unfold_locales
    (auto simp: prom_appender_ops_def promAppend_def promCommit_def promRollback_def prom_pend_def list_labels_def
      split: prod.splits)

lemma promSend_attempts:
  assumes "reMarshal E tss = Inr data" and "reNewRequest E (rcWriteURL cfg) = None"
  shows "promSend E cfg tss net =
    retry_spec E ''remote write'' (promRequest cfg (reSnappy E data)) 0 (rcMaxRetries cfg) net"
  using attempts_spec [of E "promRequest cfg (reSnappy E data)" "''remote write''" 0 "rcMaxRetries cfg" net] assms
  by (simp add: promSend_def promRequest_def)

lemma promCommit_chunks:
  "promCommit E cfg (net, tss) =
    (case sendAll (promSend E cfg) (chunks (rcBatchSize cfg) tss) net of (r, net) \<Rightarrow> (r, (net, [])))"
  by (auto simp: promCommit_def sendBatches_chunks chunks.simps [of _ "[]"])

definition prom_usable :: "remote_env \<Rightarrow> remoteConfig \<Rightarrow> bool" where
  "prom_usable E cfg \<longleftrightarrow> reNewRequest E (rcWriteURL cfg) = None \<and> (\<forall>tss. \<exists>data. reMarshal E tss = Inr data)"

definition prom_post :: "remote_env \<Rightarrow> remoteConfig \<Rightarrow> promTimeSeries list \<Rightarrow> httpReq" where
  "prom_post E cfg tss = promRequest cfg (reSnappy E (projr (reMarshal E tss)))"

lemma promSend_spec:
  "prom_usable E cfg \<Longrightarrow> promSend E cfg tss net = retry_spec E ''remote write'' (prom_post E cfg tss) 0 (rcMaxRetries cfg) net"
  unfolding prom_usable_def prom_post_def using promSend_attempts [of E tss _ cfg net] by (metis sum.sel(2))

lemma retry_spec_accepted: "0 < n \<Longrightarrow> (\<And>net. accepted (rePeer E net)) \<Longrightarrow> retry_spec E what req 0 n net = (None, net @ [Posted req])"
proof -
  assume n: "0 < n" and acc: "\<And>net. accepted (rePeer E net)"
  have "\<not> retryable (reply E req net 0)" using acc [of "tried req (Suc 0) net"]
    by (auto simp: reply_def retryable_def accepted_def split: answer.splits)
  moreover have "[0..<0 + n] = 0 # [Suc 0..<n]" using n by (simp add: upt_conv_Cons)
  ultimately show ?thesis using acc unfolding retry_spec_def by (simp add: reply_def)
qed

lemma retry_spec_gives_up: "(\<And>net. retryable (rePeer E net)) \<Longrightarrow> retry_spec E what req 0 n net = (None, tried req n net)"
proof -
  assume "\<And>net. retryable (rePeer E net)"
  then have "find (\<lambda>i. \<not> retryable (reply E req net i)) [0..<0 + n] = None" by (simp add: find_None_iff reply_def)
  then show ?thesis unfolding retry_spec_def by simp
qed

subsection \<open>A bound on the requests of a commit\<close>

definition is_post :: "netEvent \<Rightarrow> bool" where
  "is_post e \<longleftrightarrow> (case e of Posted req \<Rightarrow> True | Slept d \<Rightarrow> False)"

definition posts :: "netEvent list \<Rightarrow> nat" where
  "posts net = length (filter is_post net)"

lemma posts_append [simp]: "posts (net @ net') = posts net + posts net'"
  "posts [Slept d] = 0" "posts [Posted req] = 1" "posts [] = 0" "posts [Slept d, Posted req] = 1"
  by (simp_all add: posts_def is_post_def)

lemma attempts_posts: "posts (snd (attempts E what req attempt n net)) \<le> posts net + n"
proof (induction E what req attempt n net rule: attempts.induct)
  case (2 E what req attempt left net)
  let ?net = "if attempt > 0 then net @ [Slept (backoff attempt)] else net"
  have n: "posts ?net = posts net" by simp
  show ?case
    using 2 [OF refl _ refl] n
    by (auto simp: Let_def split: option.split answer.split if_splits)
qed simp

lemma promSend_posts: "posts (snd (promSend E cfg tss net)) \<le> posts net + rcMaxRetries cfg"
  using attempts_posts by (auto simp: promSend_def split: sum.split)

lemma sendAll_posts:
  assumes "\<And>c net. posts (snd (send c net)) \<le> posts net + k"
  shows "posts (snd (sendAll send cs net)) \<le> posts net + k * length cs"
proof (induction cs arbitrary: net)
  case (Cons c cs)
  obtain x net1 where x: "send c net = (x, net1)" by fastforce
  then have "posts net1 \<le> posts net + k" using assms [of c net] by simp
  with Cons [of net1] x show ?case by (cases x) auto
qed simp

lemma length_chunks: "length (chunks n xs) = (length xs + n - 1) div n"
proof (induction n xs rule: chunks.induct)
  case (1 n xs)
  show ?case
  proof (cases "xs = [] \<or> n = 0")
    case True
    then show ?thesis by (cases "n = 0") (auto simp: chunks.simps)
  next
    case False
    then have step: "length (chunks n xs) = Suc ((length xs - n + n - 1) div n)"
      using 1 by (simp add: chunks.simps [of n xs])
    have n: "n \<noteq> 0" using False by simp
    show ?thesis
    proof (cases "n \<le> length xs")
      case True
      then have "length xs + n - 1 = (length xs - n + n - 1) + n" using False by simp
      then show ?thesis by (simp only: step div_add_self2 [OF n] Suc_eq_plus1)
    next
      case le: False
      then have "(length xs - n + n - 1) div n = 0" "length xs + n - 1 = (length xs - 1) + n" "(length xs - 1) div n = 0"
        using False by (auto simp: Suc_leI)
      then show ?thesis using step div_add_self2 [OF n, of "length xs - 1"] by simp
    qed
  qed
qed

section \<open>The VictoriaMetrics store\<close>

abbreviation samples_of :: "'l pendingSample list \<Rightarrow> sample list" where
  "samples_of ps \<equiv> map (\<lambda>p. \<lparr>sT = pT p, sV = pV p\<rparr>) ps"

text \<open>
  The pending map after a batch: a series per hash, with the labels of the first sample of that hash
  and, in order, all samples of that hash.
\<close>

definition vm_pending :: "'l labels_api \<Rightarrow> 'l pendingSample list \<Rightarrow> (u64 \<times> 'l vmPendingSeries) list \<Rightarrow> bool" where
  "vm_pending L ps P \<longleftrightarrow>
     distinct (map fst P) \<and>
     fst ` set P = (\<lambda>p. lhash L (pLabels p)) ` set ps \<and>
     (\<forall>fp v. (fp, v) \<in> set P \<longrightarrow>
        (\<exists>p \<in> set ps. lhash L (pLabels p) = fp \<and> vpLset v = pLabels p) \<and>
        vpSamples v = samples_of (filter (\<lambda>p. lhash L (pLabels p) = fp) ps))"

lemma vm_pending_Nil: "vm_pending L [] []"
  by (simp add: vm_pending_def)

lemma set_update_distinct:
  "distinct (map fst P) \<Longrightarrow> set (AList.update k v P) = {kv \<in> set P. fst kv \<noteq> k} \<union> {(k, v)}"
  by (induction P) (auto, force)

lemma vm_pending_append:
  assumes "vm_pending L ps P"
  shows "vm_pending L (ps @ [pending l t v]) (snd (snd (vmAppend L (net, P) l t v)))"
proof -
  let ?fp = "lhash L l" and ?s = "\<lparr>sT = t, sV = v\<rparr>"
  define x where "x = (case map_of P ?fp of None \<Rightarrow> \<lparr>vpLset = l, vpSamples = []\<rparr> | Some x \<Rightarrow> x)"
  have d: "distinct (map fst P)" and keys: "fst ` set P = (\<lambda>p. lhash L (pLabels p)) ` set ps"
    and old: "\<And>fp v. (fp, v) \<in> set P \<Longrightarrow>
      (\<exists>p \<in> set ps. lhash L (pLabels p) = fp \<and> vpLset v = pLabels p) \<and>
      vpSamples v = samples_of (filter (\<lambda>p. lhash L (pLabels p) = fp) ps)"
    using assms unfolding vm_pending_def by blast+
  have x: "(\<exists>p \<in> set (ps @ [pending l t v]). lhash L (pLabels p) = ?fp \<and> vpLset x = pLabels p) \<and>
      vpSamples x = samples_of (filter (\<lambda>p. lhash L (pLabels p) = ?fp) ps)"
  proof (cases "map_of P ?fp")
    case None
    then have "?fp \<notin> fst ` set P" by (simp add: map_of_eq_None_iff)
    then have "filter (\<lambda>p. lhash L (pLabels p) = ?fp) ps = []"
      unfolding keys by (force simp: filter_empty_conv image_iff)
    with None show ?thesis by (simp add: x_def)
  next
    case (Some y)
    from old [OF map_of_SomeD [OF this]] Some show ?thesis by (auto simp: x_def)
  qed
  have P': "snd (snd (vmAppend L (net, P) l t v)) = AList.update ?fp (x\<lparr>vpSamples := vpSamples x @ [?s]\<rparr>) P"
    by (simp add: vmAppend_def x_def Let_def)
  have dom: "fst ` set (AList.update ?fp (x\<lparr>vpSamples := vpSamples x @ [?s]\<rparr>) P) = insert ?fp (fst ` set P)"
    by (simp add: dom_update)
  show ?thesis
    unfolding vm_pending_def P'
  proof (intro conjI allI impI)
    show "distinct (map fst (AList.update ?fp (x\<lparr>vpSamples := vpSamples x @ [?s]\<rparr>) P))"
      using d by (rule distinct_update)
    show "fst ` set (AList.update ?fp (x\<lparr>vpSamples := vpSamples x @ [?s]\<rparr>) P) =
        (\<lambda>p. lhash L (pLabels p)) ` set (ps @ [pending l t v])"
      by (simp add: dom keys)
    fix fp y
    assume "(fp, y) \<in> set (AList.update ?fp (x\<lparr>vpSamples := vpSamples x @ [?s]\<rparr>) P)"
    then consider "fp \<noteq> ?fp" "(fp, y) \<in> set P" | "fp = ?fp" "y = x\<lparr>vpSamples := vpSamples x @ [?s]\<rparr>"
      unfolding set_update_distinct [OF d] by auto
    then have both: "(\<exists>p \<in> set (ps @ [pending l t v]). lhash L (pLabels p) = fp \<and> vpLset y = pLabels p) \<and>
        vpSamples y = samples_of (filter (\<lambda>p. lhash L (pLabels p) = fp) (ps @ [pending l t v]))"
    proof cases
      case 1
      then show ?thesis using old [OF 1(2)] by auto
    next
      case 2
      then show ?thesis using x by simp
    qed
    from both show "\<exists>p \<in> set (ps @ [pending l t v]). lhash L (pLabels p) = fp \<and> vpLset y = pLabels p" by blast
    from both show "vpSamples y = samples_of (filter (\<lambda>p. lhash L (pLabels p) = fp) (ps @ [pending l t v]))" by blast
  qed
qed

lemma append_batch_vm:
  "\<exists>P'. append_batch (vm_appender_ops L E cfg ord) (net, P) qs = (None, (net, P')) \<and> (vm_pending L ps P \<longrightarrow> vm_pending L (ps @ qs) P')"
proof (induction qs arbitrary: P ps)
  case (Cons q qs)
  define P1 where "P1 = snd (snd (vmAppend L (net, P) (pLabels q) (pT q) (pV q)))"
  have step: "apAppend (vm_appender_ops L E cfg ord) (net, P) (pLabels q) (pT q) (pV q) = (None, (net, P1))"
    by (simp add: vm_appender_ops_def vmAppend_def P1_def Let_def)
  obtain P' where P': "append_batch (vm_appender_ops L E cfg ord) (net, P1) qs = (None, (net, P'))"
    "vm_pending L (ps @ [q]) P1 \<longrightarrow> vm_pending L ((ps @ [q]) @ qs) P'"
    using Cons.IH [of P1 "ps @ [q]"] by blast
  have "vm_pending L ps P \<longrightarrow> vm_pending L (ps @ [q]) P1"
    using vm_pending_append [of L ps P "pLabels q" "pT q" "pV q" net] by (cases q) (simp add: P1_def)
  with P' step show ?case by auto
qed simp

text \<open>Distinct hashes for distinct label sets, and label sets as the labels package builds them.\<close>

definition distinct_hashes :: "'l labels_api \<Rightarrow> 'l pendingSample list \<Rightarrow> bool" where
  "distinct_hashes L ps \<longleftrightarrow>
     (\<forall>p \<in> set ps. \<forall>q \<in> set ps. lhash L (pLabels p) = lhash L (pLabels q) \<longrightarrow> lequal L (pLabels p) (pLabels q))"

definition proper_labels :: "'l labels_api \<Rightarrow> 'l \<Rightarrow> bool" where
  "proper_labels L l \<longleftrightarrow> sorted_wrt (<) (map fst (lrange L l)) \<and> '''' \<notin> snd ` set (lrange L l)"

lemma vm_pending_samples:
  assumes L: "labels_ok L" and inj: "distinct_hashes L ps" and P: "vm_pending L ps P" "(fp, v) \<in> set P"
  shows "vpSamples v = batch_samples L ps (vpLset v)"
proof -
  obtain p where p: "p \<in> set ps" "lhash L (pLabels p) = fp" "vpLset v = pLabels p"
    and s: "vpSamples v = samples_of (filter (\<lambda>p. lhash L (pLabels p) = fp) ps)"
    using P unfolding vm_pending_def by blast
  have "filter (\<lambda>q. lhash L (pLabels q) = fp) ps = filter (\<lambda>q. lequal L (pLabels q) (pLabels p)) ps"
    using p inj L by (intro filter_cong) (auto simp: distinct_hashes_def lhash_law)
  with s p(3) show ?thesis by (simp add: batch_samples_def)
qed

subsection \<open>Rows read back\<close>

lemma proper_distinct: "proper_labels L l \<Longrightarrow> distinct (map fst (lrange L l))"
  by (simp add: proper_labels_def strict_sorted_iff)

lemma foldl_update: "distinct (map fst m @ map fst kvs) \<Longrightarrow> foldl (\<lambda>m (n, v). AList.update n v m) m kvs = m @ kvs"
proof (induction kvs arbitrary: m)
  case (Cons kv kvs)
  have "AList.update k v m = m @ [(k, v)]" if "k \<notin> fst ` set m" for k v
    using that by (induction m) auto
  with Cons show ?case by (cases kv) auto
qed simp

lemma foldl_set_label_map:
  "distinct (map fst kvs) \<Longrightarrow> '''' \<notin> snd ` set kvs \<Longrightarrow> foldl set_label m kvs = m ++ map_of kvs"
proof (induction kvs arbitrary: m)
  case (Cons kv kvs)
  then have "fst kv \<notin> dom (map_of kvs)" and step: "set_label m kv = m(fst kv \<mapsto> snd kv)"
    by (auto simp: dom_map_of_conv_image_fst set_label_def)
  then have "m(fst kv \<mapsto> snd kv) ++ map_of kvs = m ++ map_of (kv # kvs)"
    by (cases kv) (auto simp: fun_eq_iff map_add_def split: option.split)
  moreover have "foldl set_label (set_label m kv) kvs = set_label m kv ++ map_of kvs"
    using Cons.prems by (intro Cons.IH) auto
  ultimately show ?case by (simp only: foldl_Cons step)
qed simp

lemma rowSeries_vmRow:
  assumes "proper_labels L (vpLset v)"
  shows "rowSeries L (vmRow L v) = Some \<lparr>srLabels = lbuild L (lempty L) (lrange L (vpLset v)), srSamples = vpSamples v\<rparr>"
proof -
  have "map (\<lambda>(t, x). \<lparr>sT = t, sV = x\<rparr>) (zip (map sT ss) (map sV ss)) = ss" for ss
    by (induction ss) simp_all
  then show ?thesis
    using foldl_update [of "[]" "lrange L (vpLset v)"] proper_distinct [OF assms]
    by (simp add: rowSeries_def vmRow_def)
qed

lemma lbuild_label_map:
  assumes "labels_ok L" and "proper_labels L l"
  shows "label_map L (lbuild L (lempty L) (lrange L l)) = label_map L l"
proof -
  have empty: "lrange L (lempty L) = []" using assms(1) by (rule lempty_law)
  have "label_map L (lbuild L (lempty L) (lrange L l)) = foldl set_label (label_map L (lempty L)) (lrange L l)"
    using assms(1) by (rule lbuild_law) (simp add: empty)
  also have "\<dots> = Map.empty ++ map_of (lrange L l)"
    using assms(2) foldl_set_label_map [OF proper_distinct [OF assms(2)]] by (simp add: label_map_def empty proper_labels_def)
  finally show ?thesis by (simp add: label_map_def)
qed

lemma label_map_unique:
  assumes "labels_ok L" and "proper_labels L a" and "proper_labels L b" and "label_map L a = label_map L b"
  shows "lequal L a b"
  using keys_sorted_unique [of "lrange L a" "lrange L b"] assms
  by (simp add: lequal_law label_map_def proper_labels_def)

definition row_series :: "'l labels_api \<Rightarrow> 'l vmPendingSeries \<Rightarrow> 'l series" where
  "row_series L v = \<lparr>srLabels = lbuild L (lempty L) (lrange L (vpLset v)), srSamples = vpSamples v\<rparr>"

lemma readRows_rows:
  "\<forall>(fp, v) \<in> set Q. proper_labels L (vpLset v) \<Longrightarrow>
   readRows L (map Inr (map (\<lambda>(fp, v). vmRow L v) Q)) = Some (map (\<lambda>(fp, v). row_series L v) Q)"
  by (induction Q) (auto simp: rowSeries_vmRow row_series_def)

lemma vm_pending_distinct:
  assumes L: "labels_ok L" and P: "vm_pending L ps P" and proper: "\<forall>p \<in> set ps. proper_labels L (pLabels p)"
  shows "distinct (map (\<lambda>(fp, v). label_map L (vpLset v)) P)"
proof -
  have d: "distinct (map fst P)" using P by (simp add: vm_pending_def)
  have lab: "lhash L (vpLset v) = fp \<and> proper_labels L (vpLset v)" if "(fp, v) \<in> set P" for fp v
    using P that proper unfolding vm_pending_def by metis
  have "x = y" if "x \<in> set P" "y \<in> set P" "(\<lambda>(fp, v). label_map L (vpLset v)) x = (\<lambda>(fp, v). label_map L (vpLset v)) y" for x y
  proof -
    obtain fp v fp' v' where xy: "x = (fp, v)" "y = (fp', v')" by fastforce
    then have "lequal L (vpLset v) (vpLset v')" using that lab L by (intro label_map_unique) auto
    then have "fp = fp'" using lhash_law [OF L] lab that xy by metis
    then show ?thesis using d that xy by (metis eq_key_imp_eq_value)
  qed
  then have "inj_on (\<lambda>(fp, v). label_map L (vpLset v)) (set P)" by (intro inj_onI) blast
  then show ?thesis using d by (simp add: distinct_map)
qed

lemma vmSend_spec:
  assumes "reNewRequest E (trimSlashes (rcWriteURL cfg) @ ''/api/v1/import'') = None" and "encodeRows E rows = Inr buf"
  shows "vmSend E cfg rows net = retry_spec E ''VM write'' (vmRequest cfg buf) 0 (rcMaxRetries cfg) net"
  using attempts_spec [of E "vmRequest cfg buf" "''VM write''" 0 "rcMaxRetries cfg" net] assms
  by (simp add: vmSend_def vmRequest_def)

lemma encodeRows_ok: "(\<And>row. row \<in> set rows \<Longrightarrow> reEncodeRow E row = Inr (enc row)) \<Longrightarrow> encodeRows E rows = Inr (concat (map enc rows))"
  by (induction rows) auto

lemma vmCommit_chunks:
  assumes "ord [] = []"
  shows "vmCommit L E cfg ord (net, P) =
    (case sendAll (vmSend E cfg) (chunks (rcBatchSize cfg) (map (\<lambda>(fp, ps). vmRow L ps) (ord P))) net of (r, net) \<Rightarrow> (r, (net, [])))"
  using assms by (auto simp: vmCommit_def sendBatches_chunks chunks.simps [of _ "[]"])

text \<open>The bytes posted so far, which is what an importing server has been given.\<close>

fun posted :: "netEvent list \<Rightarrow> byte list" where
  "posted [] = []"
| "posted (Slept d # net) = posted net"
| "posted (Posted req # net) = hqBody req @ posted net"

lemma posted_append: "posted (net @ net') = posted net @ posted net'"
  by (induction net rule: posted.induct) simp_all

lemma posted_bodies: "posted (map (\<lambda>c. Posted (req c)) cs) = concat (map (\<lambda>c. hqBody (req c)) cs)"
  by (induction cs) simp_all

lemma vmCommit_accepted:
  assumes "\<And>net. accepted (rePeer E net)" and "\<And>url. reNewRequest E url = None"
    and "0 < rcBatchSize cfg" and "0 < rcMaxRetries cfg"
    and "\<And>row. row \<in> set rows \<Longrightarrow> reEncodeRow E row = Inr (enc row)"
  shows "sendAll (vmSend E cfg) (chunks (rcBatchSize cfg) rows) net =
    (None, net @ concat (map (\<lambda>c. [Posted (vmRequest cfg (concat (map enc c)))]) (chunks (rcBatchSize cfg) rows)))"
proof (rule sendAll_ok)
  fix c net
  assume c: "c \<in> set (chunks (rcBatchSize cfg) rows)"
  have "set c \<subseteq> set (concat (chunks (rcBatchSize cfg) rows))" using c by auto
  then have "set c \<subseteq> set rows" by (simp add: concat_chunks [OF assms(3)])
  then have "encodeRows E c = Inr (concat (map enc c))" using assms(5) by (intro encodeRows_ok) auto
  then show "vmSend E cfg c net = (None, net @ [Posted (vmRequest cfg (concat (map enc c)))])"
    using retry_spec_accepted [OF assms(4), of E] assms(1) by (simp add: vmSend_spec assms(2))
qed

lemma concat_map_chunks: "0 < n \<Longrightarrow> concat (map (\<lambda>c. concat (map enc c)) (chunks n rows)) = concat (map enc rows)"
proof -
  assume "0 < n"
  have "concat (map (\<lambda>c. concat (map enc c)) cs) = concat (map enc (concat cs))" for cs
    by (induction cs) simp_all
  with concat_chunks [OF \<open>0 < n\<close>, of rows] show ?thesis by simp
qed

section \<open>Properties\<close>

text \<open>C29: The retry loop of both stores is the search for the first decisive answer. A request is posted at
  most \<open>MaxRetries\<close> times, with growing pauses in between; an error is only returned for an answer that
  is neither a success nor a server error, at the first such answer. \<open>nil\<close> means either that the last
  posting was accepted, or that all of them failed and the batch is dropped.\<close>

theorem remote_retries:
  assumes "reNewRequest E (hqURL req) = None" and "attempts E what req 0 n net = (r, net')"
  shows "(r, net') = retry_spec E what req 0 n net \<and>
    (\<exists>k \<le> n. net' = tried req k net \<and> (\<forall>i. Suc i < k \<longrightarrow> retryable (reply E req net i)) \<and>
      (case r of
         None \<Rightarrow> 0 < k \<and> accepted (reply E req net (k - 1)) \<or> k = n \<and> (\<forall>i < n. retryable (reply E req net i))
       | Some e \<Rightarrow> 0 < k \<and> \<not> accepted (reply E req net (k - 1)) \<and> \<not> retryable (reply E req net (k - 1))))"
proof -
  have spec: "retry_spec E what req 0 n net = (r, net')"
    using attempts_spec [OF assms(1), of what 0 n net] assms(2) by simp
  then show ?thesis
  proof (cases rule: retry_spec_cases)
    case gave_up
    with spec show ?thesis by (intro conjI exI [of _ n]) auto
  next
    case (decided i)
    with spec show ?thesis by (intro conjI exI [of _ "Suc i"]) auto
  qed
qed

text \<open>C30: While the endpoint accepts, committing a batch posts its samples to Prometheus, each as a series of
  its own, in the order they were appended and in requests of at most \<open>BatchSize\<close> series.\<close>

theorem prom_delivers:
  fixes L :: "'l labels_api" and ps :: "'l pendingSample list"
  assumes "prom_usable E cfg" and "\<And>net. accepted (rePeer E net)" and "0 < rcBatchSize cfg" and "0 < rcMaxRetries cfg"
  defines "cs \<equiv> chunks (rcBatchSize cfg) (map (prom_series L) ps)"
  shows "promCommit E cfg (snd (append_batch (prom_appender_ops L E cfg) (promRemoteAppender net) ps)) =
      (None, (net @ map (\<lambda>c. Posted (prom_post E cfg c)) cs, [])) \<and>
    concat cs = map (prom_series L) ps \<and> (\<forall>c \<in> set cs. c \<noteq> [] \<and> length c \<le> rcBatchSize cfg)"
proof -
  have "promSend E cfg c net = (None, net @ [Posted (prom_post E cfg c)])" for c net
    using promSend_spec [OF assms(1)] retry_spec_accepted [OF assms(4), of E] assms(2) by simp
  then have "sendAll (promSend E cfg) cs net = (None, net @ concat (map (\<lambda>c. [Posted (prom_post E cfg c)]) cs))"
    by (intro sendAll_ok)
  then show ?thesis
    using concat_chunks [OF assms(3)] chunks_bound
    by (auto simp: append_batch_prom promRemoteAppender_def promCommit_chunks cs_def comp_def)
qed

text \<open>When a commit to Prometheus fails, the batches before the refused one are delivered or dropped, those
  after it are never sent, and nothing is kept for another attempt.\<close>

theorem prom_commit_error:
  assumes "promCommit E cfg (net, tss) = (Some e, (net', tss'))"
  shows "tss' = [] \<and> (\<exists>before refused after net1. chunks (rcBatchSize cfg) tss = before @ refused # after \<and>
    sendAll (promSend E cfg) before net = (None, net1) \<and> promSend E cfg refused net1 = (Some e, net'))"
proof -
  have "sendAll send cs net = (Some e, net') \<Longrightarrow> \<exists>before refused after net1. cs = before @ refused # after \<and>
      sendAll send before net = (None, net1) \<and> send refused net1 = (Some e, net')"
    for send and cs :: "promTimeSeries list list"
  proof (induction cs arbitrary: net)
    case (Cons c cs)
    obtain x net1 where x: "send c net = (x, net1)" by fastforce
    show ?case
    proof (cases x)
      case (Some e')
      with x Cons.prems have "c # cs = [] @ c # cs \<and> sendAll send [] net = (None, net) \<and> send c net = (Some e, net')"
        by simp
      then show ?thesis by blast
    next
      case None
      with Cons.prems x have "sendAll send cs net1 = (Some e, net')" by simp
      then obtain before refused after net2 where "cs = before @ refused # after"
        "sendAll send before net1 = (None, net2)" "send refused net2 = (Some e, net')"
        using Cons.IH by blast
      with None x have "c # cs = (c # before) @ refused # after \<and> sendAll send (c # before) net = (None, net2) \<and>
          send refused net2 = (Some e, net')"
        by simp
      then show ?thesis by blast
    qed
  qed simp
  with assms show ?thesis by (auto simp: promCommit_chunks split: prod.splits)
qed

text \<open>C31: A commit of a Prometheus store comes to an end whatever the endpoint answers: of \<open>n\<close> pending series
  it makes at most \<open>MaxRetries\<close> requests for each of the \<open>n / BatchSize\<close> batches (rounded up), and is left
  with nothing pending. The constructor makes both settings positive, without which the loop over the
  batches would not end.\<close>

theorem prom_commit_bounded:
  fixes cfg0 :: remoteConfig
  defines "cfg \<equiv> newPrometheusRemote cfg0"
  shows "0 < rcBatchSize cfg \<and> 0 < rcMaxRetries cfg \<and> (\<exists>r net'. promCommit E cfg (net, tss) = (r, (net', [])) \<and>
    posts net' \<le> posts net + rcMaxRetries cfg * ((length tss + rcBatchSize cfg - 1) div rcBatchSize cfg))"
proof -
  obtain r net' where run: "sendAll (promSend E cfg) (chunks (rcBatchSize cfg) tss) net = (r, net')" by fastforce
  from sendAll_posts [of "promSend E cfg" "rcMaxRetries cfg" "chunks (rcBatchSize cfg) tss" net] promSend_posts [of E cfg] run
  have "\<exists>r net'. promCommit E cfg (net, tss) = (r, (net', [])) \<and>
      posts net' \<le> posts net + rcMaxRetries cfg * ((length tss + rcBatchSize cfg - 1) div rcBatchSize cfg)"
    by (simp add: promCommit_chunks length_chunks)
  then show ?thesis by (simp add: cfg_def newPrometheusRemote_def Let_def)
qed


end
