(* ===== verification/FileSys.thy ===== *)
theory FileSys
  imports Prelude
begin

text \<open>
  The part of the operating system's file system that the store relies on: a directory, as a
  finite table from names to entries, which may themselves hold directories. \<open>os.ReadDir\<close> lists a directory sorted by name. The content
  type of a file is a parameter: bytes for the write-ahead log, decoded JSON for the blocks.
\<close>

datatype 'c entry = File 'c | SubDir

type_synonym 'c dir = "(string \<times> 'c entry) list"

definition dir_ok :: "(string \<times> 'e) list \<Rightarrow> bool" where
  "dir_ok d \<longleftrightarrow> distinct (map fst d)"

definition dir_put :: "string \<Rightarrow> 'e \<Rightarrow> (string \<times> 'e) list \<Rightarrow> (string \<times> 'e) list" where
  "dir_put n e d = (n, e) # filter (\<lambda>x. fst x \<noteq> n) d"

definition dir_remove :: "string \<Rightarrow> (string \<times> 'e) list \<Rightarrow> (string \<times> 'e) list" where
  "dir_remove n d = filter (\<lambda>x. fst x \<noteq> n) d"

definition readDir :: "(string \<times> 'e) list \<Rightarrow> (string \<times> 'e) list" where
  "readDir d = sort_key fst d"

lemma set_readDir [simp]: "set (readDir d) = set d"
  by (simp add: readDir_def)

lemma map_of_filter_neq_name: "map_of (filter (\<lambda>x. fst x \<noteq> n) d) = (map_of d)(n := None)"
  by (induction d) (auto simp: fun_eq_iff)

lemma dir_put_put [simp]: "dir_put n e (dir_put n e' d) = dir_put n e d"
  by (simp add: dir_put_def)

lemma map_of_dir_put [simp]: "map_of (dir_put n e d) = (map_of d)(n \<mapsto> e)"
  by (simp add: dir_put_def map_of_filter_neq_name)

lemma map_of_dir_remove [simp]: "map_of (dir_remove n d) = (map_of d)(n := None)"
  by (simp add: dir_remove_def map_of_filter_neq_name)

lemma distinct_filter_fst: "distinct (map fst d) \<Longrightarrow> distinct (map fst (filter P d))"
  by (rule distinct_map_filter)

lemma dir_ok_Nil [simp]: "dir_ok []"
  by (simp add: dir_ok_def)

lemma dir_ok_put [simp]: "dir_ok d \<Longrightarrow> dir_ok (dir_put n e d)"
  by (auto simp: dir_ok_def dir_put_def distinct_filter_fst)

lemma dir_ok_remove [simp]: "dir_ok d \<Longrightarrow> dir_ok (dir_remove n d)"
  by (simp add: dir_ok_def dir_remove_def distinct_filter_fst)

lemma dir_ok_mem: "dir_ok d \<Longrightarrow> (n, e) \<in> set d \<longleftrightarrow> map_of d n = Some e"
  by (simp add: dir_ok_def)

lemma dir_ok_readDir: "dir_ok d \<Longrightarrow> distinct (map fst (readDir d))"
proof -
  assume "dir_ok d"
  then have "distinct (map fst d)" by (simp add: dir_ok_def)
  moreover have "mset (map fst (readDir d)) = mset (map fst d)" by (simp add: readDir_def)
  ultimately show ?thesis by (metis mset_eq_imp_distinct_iff)
qed

end
