(* ===== verification/Wal.thy ===== *)
theory Wal
  imports StoreApi FileSys
begin

text \<open>
  \<open>internal/store/wal.go\<close>: the write-ahead log. First the record format, byte for byte, with its
  wrap-around length fields and every way \<open>decodeWALRecord\<close> can fail; then the log as a directory
  of segments.
\<close>

section \<open>The record format\<close>

record 'l walRecord =
  wrLabels :: "'l"
  wrT :: i64
  wrV :: f64

text \<open>Go's conversion of a length to \<open>uint16\<close> or \<open>uint32\<close> keeps the low bits.\<close>

definition u16 :: "nat \<Rightarrow> 16 word" where
  "u16 n = word_of_nat n"

definition u32 :: "nat \<Rightarrow> 32 word" where
  "u32 n = word_of_nat n"

definition appendUint16 :: "byte list \<Rightarrow> 16 word \<Rightarrow> byte list" where
  "appendUint16 buf x = buf @ be_bytes 2 (unat x)"

definition appendUint64 :: "byte list \<Rightarrow> u64 \<Rightarrow> byte list" where
  "appendUint64 buf x = buf @ be_bytes 8 (unat x)"

definition appendLabelBytes :: "byte list \<Rightarrow> string \<times> string \<Rightarrow> byte list" where
  "appendLabelBytes buf l =
     appendUint16 (appendUint16 buf (u16 (length (fst l))) @ string_bytes (fst l))
       (u16 (length (snd l))) @ string_bytes (snd l)"

definition encodeWALRecord :: "'l labels_api \<Rightarrow> 'l walRecord \<Rightarrow> byte list" where
  "encodeWALRecord L rec =
     (let lbls = lrange L (wrLabels rec);
          buf = appendUint16 [] (u16 (length lbls));
          buf = foldl appendLabelBytes buf lbls;
          buf = appendUint64 buf (wrT rec);
          buf = appendUint64 buf (wrV rec);
          size = be_bytes 4 (unat (u32 (length buf)))
      in size @ buf)"

text \<open>
  Reading fails with \<open>io.EOF\<close> before the first byte, with \<open>io.ErrUnexpectedEOF\<close> in the middle,
  and an index or slice out of range panics.
\<close>

datatype read_err = EOF | UnexpectedEOF | Panic

definition readFull :: "nat \<Rightarrow> byte list \<Rightarrow> read_err + byte list \<times> byte list" where
  "readFull n r =
     (if n \<le> length r then Inr (take n r, drop n r)
      else if r = [] then Inl EOF else Inl UnexpectedEOF)"

text \<open>\<open>data[offset:]\<close> read as a big-endian integer of \<open>n\<close> bytes; \<open>data\<close> is what is left from \<open>offset\<close>.\<close>

definition getUint :: "nat \<Rightarrow> byte list \<Rightarrow> read_err + nat \<times> byte list" where
  "getUint n data = (if n \<le> length data then Inr (be_value (take n data), drop n data) else Inl Panic)"

definition getBytes :: "nat \<Rightarrow> byte list \<Rightarrow> read_err + string \<times> byte list" where
  "getBytes n data = (if n \<le> length data then Inr (bytes_string (take n data), drop n data) else Inl Panic)"

fun decodeLabels :: "nat \<Rightarrow> byte list \<Rightarrow> read_err + (string \<times> string) list \<times> byte list" where
  "decodeLabels 0 data = Inr ([], data)"
| "decodeLabels (Suc n) data =
     sbind (getUint 2 data) (\<lambda>(keyLen, data).
     sbind (getBytes keyLen data) (\<lambda>(key, data).
     sbind (getUint 2 data) (\<lambda>(valLen, data).
     sbind (getBytes valLen data) (\<lambda>(val, data).
     sbind (decodeLabels n data) (\<lambda>(kvs, data). Inr ((key, val) # kvs, data))))))"

definition decodeWALRecord :: "'l labels_api \<Rightarrow> byte list \<Rightarrow> read_err + 'l walRecord \<times> byte list" where
  "decodeWALRecord L r =
     sbind (readFull 4 r) (\<lambda>(sizeBuf, r).
     sbind (readFull (be_value sizeBuf) r) (\<lambda>(data, r).
     sbind (getUint 2 data) (\<lambda>(labelCount, data).
     sbind (decodeLabels labelCount data) (\<lambda>(kvs, data).
     sbind (getUint 8 data) (\<lambda>(t, data).
     sbind (getUint 8 data) (\<lambda>(v, _).
       Inr (\<lparr>wrLabels = lscratch L kvs, wrT = word_of_nat t, wrV = word_of_nat v\<rparr>, r)))))))"

text \<open>Every successful decode consumes at least the size field.\<close>

lemma decodeWALRecord_shorter:
  "decodeWALRecord L r = Inr (rec, rest) \<Longrightarrow> length rest < length r"
  by (auto simp: decodeWALRecord_def sbind_Inr_iff readFull_def split: if_splits)

text \<open>
  \<open>replaySegment\<close> hands every decoded record to the callback; the result is the list of the
  records delivered and the error that stopped it, \<open>io.EOF\<close> being the regular end.
\<close>

function replaySegment :: "'l labels_api \<Rightarrow> byte list \<Rightarrow> 'l walRecord list \<times> read_err option" where
  "replaySegment L f =
     (case decodeWALRecord L f of
        Inl EOF \<Rightarrow> ([], None)
      | Inl e \<Rightarrow> ([], Some e)
      | Inr (rec, rest) \<Rightarrow> (case replaySegment L rest of (recs, e) \<Rightarrow> (rec # recs, e)))"
  by pat_completeness auto
termination
  by (relation "measure (\<lambda>(L, f). length f)") (auto dest: decodeWALRecord_shorter)

declare replaySegment.simps [simp del]

section \<open>Round trip of one record\<close>

text \<open>A record whose counts and lengths fit their fields.\<close>

definition rec_body_size :: "(string \<times> string) list \<Rightarrow> nat" where
  "rec_body_size kvs = 2 + sum_list (map (\<lambda>(k, v). 4 + length k + length v) kvs) + 16"

definition rec_fits :: "'l labels_api \<Rightarrow> 'l walRecord \<Rightarrow> bool" where
  "rec_fits L rec \<longleftrightarrow>
     (let kvs = lrange L (wrLabels rec)
      in length kvs < 2 ^ 16 \<and> (\<forall>(k, v) \<in> set kvs. length k < 2 ^ 16 \<and> length v < 2 ^ 16) \<and>
         rec_body_size kvs < 2 ^ 32)"

text \<open>What decoding gives back: the same label sequence, packed by the scratch builder.\<close>

definition wal_norm :: "'l labels_api \<Rightarrow> 'l walRecord \<Rightarrow> 'l walRecord" where
  "wal_norm L rec = rec\<lparr>wrLabels := lscratch L (lrange L (wrLabels rec))\<rparr>"

definition label_bytes :: "string \<times> string \<Rightarrow> byte list" where
  "label_bytes l = appendLabelBytes [] l"

lemma appendLabelBytes_eq: "appendLabelBytes buf l = buf @ label_bytes l"
  by (simp add: label_bytes_def appendLabelBytes_def appendUint16_def)

lemma foldl_appendLabelBytes: "foldl appendLabelBytes buf kvs = buf @ concat (map label_bytes kvs)"
  by (induction kvs arbitrary: buf) (simp_all add: appendLabelBytes_eq)

definition rec_body :: "(string \<times> string) list \<Rightarrow> i64 \<Rightarrow> f64 \<Rightarrow> byte list" where
  "rec_body kvs t v = be_bytes 2 (unat (u16 (length kvs))) @ concat (map label_bytes kvs)
     @ be_bytes 8 (unat t) @ be_bytes 8 (unat v)"

lemma encodeWALRecord_eq:
  "encodeWALRecord L rec =
     (let body = rec_body (lrange L (wrLabels rec)) (wrT rec) (wrV rec)
      in be_bytes 4 (unat (u32 (length body))) @ body)"
  by (simp add: encodeWALRecord_def rec_body_def foldl_appendLabelBytes appendUint16_def
      appendUint64_def Let_def)

lemma length_label_bytes: "length (label_bytes l) = 4 + length (fst l) + length (snd l)"
  by (simp add: label_bytes_def appendLabelBytes_def appendUint16_def)

lemma length_rec_body: "length (rec_body kvs t v) = rec_body_size kvs"
  by (simp add: rec_body_def rec_body_size_def length_concat comp_def length_label_bytes case_prod_unfold)

lemma length_encodeWALRecord:
  "length (encodeWALRecord L rec) = 4 + rec_body_size (lrange L (wrLabels rec))"
  by (simp add: encodeWALRecord_eq Let_def length_rec_body)

lemma getUint_be_bytes [codec]:
  "x < 256 ^ n \<Longrightarrow> getUint n (be_bytes n x @ data) = Inr (x, data)"
  by (simp add: getUint_def be_value_bytes)

lemma getBytes_string [codec]: "getBytes (length s) (string_bytes s @ data) = Inr (s, data)"
  by (simp add: getBytes_def)

lemma unat_u16 [codec]: "n < 2 ^ 16 \<Longrightarrow> unat (u16 n) = n"
  by (simp add: u16_def unat_of_nat)

lemma unat_u32 [codec]: "n < 2 ^ 32 \<Longrightarrow> unat (u32 n) = n"
  by (simp add: u32_def unat_of_nat)

lemma decodeLabels_encoded:
  assumes "\<forall>(k, v) \<in> set kvs. length k < 2 ^ 16 \<and> length v < 2 ^ 16"
  shows "decodeLabels (length kvs) (concat (map label_bytes kvs) @ data) = Inr (kvs, data)"
  using assms
proof (induction kvs)
  case Nil
  show ?case by simp
next
  case (Cons l kvs)
  obtain k v where l: "l = (k, v)" by (cases l)
  have "length k < 65536" "length v < 65536" using Cons.prems l by auto
  then show ?case
    using Cons by (simp add: l label_bytes_def appendLabelBytes_def appendUint16_def codec)
qed

lemma unat_u64_bound: "unat (x :: u64) < 256 ^ 8"
  using unsigned_less [where 'b = 64 and 'a = nat, of x] by simp

lemma decode_encode:
  assumes "rec_fits L rec"
  shows "decodeWALRecord L (encodeWALRecord L rec @ rest) = Inr (wal_norm L rec, rest)"
proof -
  define kvs where "kvs = lrange L (wrLabels rec)"
  define body where "body = rec_body kvs (wrT rec) (wrV rec)"
  have fits: "length kvs < 65536" "\<forall>(k, v) \<in> set kvs. length k < 2 ^ 16 \<and> length v < 2 ^ 16"
    and size: "length body < 4294967296"
    using assms by (simp_all add: rec_fits_def kvs_def [symmetric] body_def length_rec_body Let_def)
  have enc: "encodeWALRecord L rec = be_bytes 4 (length body) @ body"
    using size by (simp add: encodeWALRecord_eq kvs_def [symmetric] body_def [symmetric] Let_def codec)
  have "readFull 4 (encodeWALRecord L rec @ rest) = Inr (be_bytes 4 (length body), body @ rest)"
    by (simp add: enc readFull_def)
  moreover have "readFull (be_value (be_bytes 4 (length body))) (body @ rest) = Inr (body, rest)"
    using size by (simp add: be_value_bytes readFull_def)
  moreover have "getUint 2 body = Inr (length kvs, concat (map label_bytes kvs)
      @ be_bytes 8 (unat (wrT rec)) @ be_bytes 8 (unat (wrV rec)))"
    using fits(1) by (simp add: body_def rec_body_def codec)
  moreover note decodeLabels_encoded [OF fits(2), of "be_bytes 8 (unat (wrT rec)) @ be_bytes 8 (unat (wrV rec))"]
  moreover have "getUint 8 (be_bytes 8 (unat (wrT rec)) @ be_bytes 8 (unat (wrV rec)))
      = Inr (unat (wrT rec), be_bytes 8 (unat (wrV rec)))"
    by (rule getUint_be_bytes [OF unat_u64_bound])
  moreover have "getUint 8 (be_bytes 8 (unat (wrV rec))) = Inr (unat (wrV rec), [])"
    using getUint_be_bytes [OF unat_u64_bound, of "wrV rec" "[]"] by simp
  ultimately show ?thesis
    by (simp add: decodeWALRecord_def wal_norm_def kvs_def)
qed

section \<open>The log as a directory of segments\<close>

text \<open>
  The \<open>WAL\<close> struct together with the directory it owns. \<open>walOpen\<close> says that the handle
  \<open>w.segment\<close> refers to the open file of the current sequence number.
\<close>

record wal =
  walFiles :: "byte list dir"
  walMaxSegSize :: int
  walSegmentSeq :: nat
  walSegmentSize :: int
  walOpen :: bool

definition segmentName :: "nat \<Rightarrow> string" where
  "segmentName seq = fmt_pad_nat 8 seq"

definition parseSegmentSeq :: "string \<Rightarrow> int option" where
  "parseSegmentSeq name =
     (let name = dropWhile (\<lambda>c. c = CHR ''0'') name
      in if name = '''' then Some 0 else atoi name)"

text \<open>The regular files of the directory whose names parse, in \<open>ReadDir\<close> order.\<close>

fun segmentEntries :: "(string \<times> byte list entry) list \<Rightarrow> (int \<times> string \<times> byte list) list" where
  "segmentEntries [] = []"
| "segmentEntries ((n, SubDir) # es) = segmentEntries es"
| "segmentEntries ((n, File c) # es) =
     (case parseSegmentSeq n of
        None \<Rightarrow> segmentEntries es
      | Some seq \<Rightarrow> (seq, n, c) # segmentEntries es)"

definition latestSegmentSeq :: "byte list dir \<Rightarrow> int" where
  "latestSegmentSeq d =
     foldl (\<lambda>maxSeq (seq, _). if seq > maxSeq then seq else maxSeq) 0 (segmentEntries (readDir d))"

text \<open>\<open>sort.Strings\<close> on the paths; they share the directory prefix, so this is the order of the names.\<close>

definition listSegments :: "byte list dir \<Rightarrow> (string \<times> byte list) list" where
  "listSegments d = sort_key fst (map snd (segmentEntries (readDir d)))"

text \<open>\<open>os.OpenFile\<close> with \<open>O_CREATE|O_APPEND\<close>: creates a missing file, fails on a directory.\<close>

definition openAppend :: "string \<Rightarrow> byte list dir \<Rightarrow> byte list dir option" where
  "openAppend n d =
     (case map_of d n of
        None \<Rightarrow> Some (dir_put n (File []) d)
      | Some (File _) \<Rightarrow> Some d
      | Some SubDir \<Rightarrow> None)"

definition fileSize :: "string \<Rightarrow> byte list dir \<Rightarrow> nat" where
  "fileSize n d = (case map_of d n of Some (File c) \<Rightarrow> length c | _ \<Rightarrow> 0)"

text \<open>
  The operating system may fail any call. Each operation takes the outcome of its system calls
  as an argument.
\<close>

datatype open_outcome = OpenOk | MkdirErr | OpenErr | StatErr

definition newWAL :: "open_outcome \<Rightarrow> byte list dir \<Rightarrow> int \<Rightarrow> string + wal" where
  "newWAL io d maxSegmentSize =
     (if io = MkdirErr then Inl ''creating WAL dir''
      else
        let seq = nat (latestSegmentSeq d)
        in case (if io = OpenErr then None else openAppend (segmentName seq) d) of
             None \<Rightarrow> Inl ''opening WAL segment''
           | Some d' \<Rightarrow>
               if io = StatErr then Inl ''stat''
               else Inr \<lparr>walFiles = d', walMaxSegSize = maxSegmentSize, walSegmentSeq = seq,
                         walSegmentSize = int (fileSize (segmentName seq) d'), walOpen = True\<rparr>)"

datatype write_outcome = Written | WriteErr nat
datatype rotate_outcome = Rotated | SyncErr | CloseErr | ReopenErr

definition appendToFile :: "string \<Rightarrow> byte list \<Rightarrow> byte list dir \<Rightarrow> byte list dir" where
  "appendToFile n data d =
     (case map_of d n of Some (File c) \<Rightarrow> dir_put n (File (c @ data)) d | _ \<Rightarrow> d)"

text \<open>\<open>w.segment.Write\<close>: on an error only a prefix of the data may have reached the file.\<close>

definition segmentWrite :: "write_outcome \<Rightarrow> byte list \<Rightarrow> wal \<Rightarrow> err \<times> wal" where
  "segmentWrite o1 data w =
     (if \<not> walOpen w then (Some ''file already closed'', w)
      else case o1 of
        Written \<Rightarrow> (None, w\<lparr>walFiles := appendToFile (segmentName (walSegmentSeq w)) data (walFiles w)\<rparr>)
      | WriteErr k \<Rightarrow>
          (Some ''write'',
           w\<lparr>walFiles := appendToFile (segmentName (walSegmentSeq w)) (take k data) (walFiles w)\<rparr>))"

definition rotate_segment :: "rotate_outcome \<Rightarrow> wal \<Rightarrow> err \<times> wal" where
  "rotate_segment o2 w =
     (case o2 of
        SyncErr \<Rightarrow> (Some ''sync'', w)
      | CloseErr \<Rightarrow> (Some ''close'', w\<lparr>walOpen := False\<rparr>)
      | _ \<Rightarrow>
          let w = w\<lparr>walOpen := False, walSegmentSeq := walSegmentSeq w + 1\<rparr>
          in case (if o2 = ReopenErr then None else openAppend (segmentName (walSegmentSeq w)) (walFiles w)) of
               None \<Rightarrow> (Some ''open'', w)
             | Some d \<Rightarrow> (None, w\<lparr>walFiles := d, walOpen := True, walSegmentSize := 0\<rparr>))"

fun walLog ::
  "'l labels_api \<Rightarrow> (write_outcome \<times> rotate_outcome) list \<Rightarrow> wal \<Rightarrow> 'l walRecord list \<Rightarrow> err \<times> wal" where
  "walLog L outs w [] = (None, w)"
| "walLog L outs w (rec # records) =
     (let (o1, o2) = (case outs of [] \<Rightarrow> (Written, Rotated) | x # _ \<Rightarrow> x);
          data = encodeWALRecord L rec
      in case segmentWrite o1 data w of
           (Some e, w) \<Rightarrow> (Some (''writing WAL record: '' @ e), w)
         | (None, w) \<Rightarrow>
             let w = w\<lparr>walSegmentSize := walSegmentSize w + int (length data)\<rparr>
             in if walSegmentSize w \<ge> walMaxSegSize w
                then case rotate_segment o2 w of
                       (Some e, w) \<Rightarrow> (Some (''rotating WAL segment: '' @ e), w)
                     | (None, w) \<Rightarrow> walLog L (drop 1 outs) w records
                else walLog L (drop 1 outs) w records)"

text \<open>\<open>Replay\<close> stops at the first segment that fails, after delivering the records before the failure.\<close>

fun replaySegments :: "'l labels_api \<Rightarrow> (string \<times> byte list) list \<Rightarrow> 'l walRecord list \<times> (string \<times> read_err) option" where
  "replaySegments L [] = ([], None)"
| "replaySegments L ((n, c) # segs) =
     (case replaySegment L c of
        (recs, Some e) \<Rightarrow> (recs, Some (n, e))
      | (recs, None) \<Rightarrow> (case replaySegments L segs of (recs', e) \<Rightarrow> (recs @ recs', e)))"

definition walReplay :: "'l labels_api \<Rightarrow> wal \<Rightarrow> 'l walRecord list \<times> (string \<times> read_err) option" where
  "walReplay L w = replaySegments L (listSegments (walFiles w))"

text \<open>\<open>Truncate\<close>: \<open>fails\<close> says for which names \<open>os.Remove\<close> returns an error.\<close>

fun truncateEntries ::
  "(string \<Rightarrow> bool) \<Rightarrow> int \<Rightarrow> (int \<times> string \<times> byte list) list \<Rightarrow> byte list dir \<Rightarrow> err \<times> byte list dir" where
  "truncateEntries fails beforeSeq [] d = (None, d)"
| "truncateEntries fails beforeSeq ((seq, n, _) # es) d =
     (if seq < beforeSeq then
        if fails n then (Some ''removing old segment'', d)
        else truncateEntries fails beforeSeq es (dir_remove n d)
      else truncateEntries fails beforeSeq es d)"

definition walTruncate :: "(string \<Rightarrow> bool) \<Rightarrow> wal \<Rightarrow> int \<Rightarrow> err \<times> wal" where
  "walTruncate fails w beforeSeq =
     (case truncateEntries fails beforeSeq (segmentEntries (readDir (walFiles w))) (walFiles w) of
        (e, d) \<Rightarrow> (e, w\<lparr>walFiles := d\<rparr>))"

datatype close_outcome = Closed | CloseSyncErr | CloseFileErr

definition walClose :: "close_outcome \<Rightarrow> wal \<Rightarrow> err \<times> wal" where
  "walClose io w =
     (if \<not> walOpen w then (Some ''file already closed'', w)
      else case io of
        CloseSyncErr \<Rightarrow> (Some ''sync'', w)
      | CloseFileErr \<Rightarrow> (Some ''close'', w\<lparr>walOpen := False\<rparr>)
      | Closed \<Rightarrow> (None, w\<lparr>walOpen := False\<rparr>))"

section \<open>Segment names\<close>

lemma dropWhile_replicate_zero:
  "dropWhile (\<lambda>c. c = x) (replicate k x @ s) = dropWhile (\<lambda>c. c = x) s"
  by (induction k) auto

lemma digit_char_eq_zero: "d < 10 \<Longrightarrow> digit_char d = CHR ''0'' \<longleftrightarrow> d = 0"
  using char_digit_char [of d] by (auto simp: char_digit_def)

lemma parse_segmentName: "seq < 2 ^ 63 \<Longrightarrow> parseSegmentSeq (segmentName seq) = Some (int seq)"
proof -
  assume bound: "seq < 2 ^ 63"
  have drop: "dropWhile (\<lambda>c. c = CHR ''0'') (segmentName seq) = dropWhile (\<lambda>c. c = CHR ''0'') (fmt_nat seq)"
    by (simp add: segmentName_def fmt_pad_nat_def dropWhile_replicate_zero)
  show ?thesis
  proof (cases "seq = 0")
    case True
    have "fmt_nat 0 = ''0''" by (simp add: fmt_nat_def dec_digits.simps)
    with True drop show ?thesis by (simp add: parseSegmentSeq_def)
  next
    case False
    then obtain d ds where s: "fmt_nat seq = digit_char d # ds" "d < 10" "0 < d"
      by (metis fmt_nat_cons not_gr_zero)
    then have "dropWhile (\<lambda>c. c = CHR ''0'') (fmt_nat seq) = fmt_nat seq"
      by (simp add: digit_char_eq_zero)
    moreover have "fmt_nat seq \<noteq> ''''" using s by simp
    ultimately show ?thesis using atoi_fmt_nat [OF bound] by (simp add: parseSegmentSeq_def drop)
  qed
qed

lemma segmentName_inj: "segmentName m = segmentName n \<longleftrightarrow> m = n"
  using fmt_pad_nat_inj by (auto simp: segmentName_def)

lemma segmentName_less: "m < 10 ^ 8 \<Longrightarrow> n < 10 ^ 8 \<Longrightarrow> segmentName m < segmentName n \<longleftrightarrow> m < n"
  unfolding segmentName_def by (rule fmt_pad_nat_less_iff) simp_all

section \<open>The directory invariant\<close>

text \<open>
  The abstract log: the segments in order, each with the records written to it. The directory
  represents it when the names that parse as segment numbers are exactly the canonical names of
  these segments, each holding the concatenated encodings of its records. Other entries of the
  directory are not constrained.
\<close>

type_synonym 'l segs = "(nat \<times> 'l walRecord list) list"

definition segBytes :: "'l labels_api \<Rightarrow> 'l walRecord list \<Rightarrow> byte list" where
  "segBytes L recs = concat (map (encodeWALRecord L) recs)"

definition segFiles :: "'l labels_api \<Rightarrow> 'l segs \<Rightarrow> byte list dir" where
  "segFiles L segs = map (\<lambda>(q, recs). (segmentName q, File (segBytes L recs))) segs"

definition segRecords :: "'l segs \<Rightarrow> 'l walRecord list" where
  "segRecords segs = concat (map snd segs)"

definition segs_ok :: "'l labels_api \<Rightarrow> 'l segs \<Rightarrow> bool" where
  "segs_ok L segs \<longleftrightarrow> sorted_wrt (<) (map fst segs) \<and> (\<forall>(q, recs) \<in> set segs. q < 10 ^ 8) \<and>
     (\<forall>r \<in> set (segRecords segs). rec_fits L r)"

definition wal_dir :: "'l labels_api \<Rightarrow> byte list dir \<Rightarrow> 'l segs \<Rightarrow> bool" where
  "wal_dir L d segs \<longleftrightarrow> dir_ok d \<and> segs_ok L segs \<and>
     (\<forall>n. parseSegmentSeq n \<noteq> None \<longrightarrow> map_of d n = map_of (segFiles L segs) n)"

definition wal_inv :: "'l labels_api \<Rightarrow> wal \<Rightarrow> 'l segs \<Rightarrow> bool" where
  "wal_inv L w segs \<longleftrightarrow> wal_dir L (walFiles w) segs \<and> walOpen w \<and>
     segs \<noteq> [] \<and> walSegmentSeq w = fst (last segs)"

lemma segFiles_append [simp]: "segFiles L (xs @ ys) = segFiles L xs @ segFiles L ys"
  by (simp add: segFiles_def)

lemma segFiles_single [simp]: "segFiles L [(q, recs)] = [(segmentName q, File (segBytes L recs))]"
  by (simp add: segFiles_def)

lemma segRecords_append [simp]: "segRecords (xs @ ys) = segRecords xs @ segRecords ys"
  by (simp add: segRecords_def)

lemma segRecords_single [simp]: "segRecords [(q, recs)] = recs"
  by (simp add: segRecords_def)

lemma segBytes_snoc: "segBytes L (recs @ [r]) = segBytes L recs @ encodeWALRecord L r"
  by (simp add: segBytes_def)

lemma segBytes_Nil [simp]: "segBytes L [] = []"
  by (simp add: segBytes_def)

lemma map_of_segFiles_None: "q \<notin> fst ` set segs \<Longrightarrow> map_of (segFiles L segs) (segmentName q) = None"
  by (force simp: map_of_eq_None_iff segFiles_def segmentName_inj)

lemma map_of_segFiles_last:
  "q \<notin> fst ` set segs \<Longrightarrow>
   map_of (segFiles L (segs @ [(q, recs)])) (segmentName q) = Some (File (segBytes L recs))"
  by (simp add: map_of_segFiles_None map_add_def)

lemma distinct_segFiles: "sorted_wrt (<) (map fst segs) \<Longrightarrow> distinct (map fst (segFiles L segs))"
proof -
  assume "sorted_wrt (<) (map fst segs)"
  then have "distinct (map fst segs)" by (simp add: strict_sorted_iff)
  then have "distinct (map segmentName (map fst segs))"
    by (simp add: distinct_map inj_on_def segmentName_inj)
  moreover have "map fst (segFiles L segs) = map segmentName (map fst segs)"
    by (simp add: segFiles_def split_def)
  ultimately show ?thesis by simp
qed

lemma map_of_segFiles_Some:
  "segs_ok L segs \<Longrightarrow> map_of (segFiles L segs) n = Some e \<longleftrightarrow>
    (\<exists>q recs. (q, recs) \<in> set segs \<and> n = segmentName q \<and> e = File (segBytes L recs))"
  using distinct_segFiles [of segs L] by (auto simp: segs_ok_def segFiles_def map_of_eq_Some_iff)

lemma wal_dir_parse: "q < 10 ^ 8 \<Longrightarrow> parseSegmentSeq (segmentName q) = Some (int q)"
  by (rule parse_segmentName) simp

lemma segs_ok_mem: "segs_ok L segs \<Longrightarrow> (q, recs) \<in> set segs \<Longrightarrow> parseSegmentSeq (segmentName q) = Some (int q)"
  by (auto simp: segs_ok_def intro!: wal_dir_parse)

text \<open>Reading the directory gives the segments back.\<close>

lemma set_segmentEntries:
  "(s, n, c) \<in> set (segmentEntries es) \<longleftrightarrow> (n, File c) \<in> set es \<and> parseSegmentSeq n = Some s"
  by (induction es rule: segmentEntries.induct) (auto split: option.splits)

lemma distinct_segmentEntries:
  "distinct (map fst es) \<Longrightarrow> distinct (map (fst \<circ> snd) (segmentEntries es))"
proof (induction es rule: segmentEntries.induct)
  case (3 n c es)
  have "n \<notin> (fst \<circ> snd) ` set (segmentEntries es)"
    using 3 by (force simp: set_segmentEntries)
  with 3 show ?case by (auto split: option.splits)
qed auto

lemma wal_dir_entries:
  assumes "wal_dir L d segs"
  shows "(s, n, c) \<in> set (segmentEntries (readDir d)) \<longleftrightarrow>
    (\<exists>q recs. (q, recs) \<in> set segs \<and> s = int q \<and> n = segmentName q \<and> c = segBytes L recs)"
proof -
  have ok: "dir_ok d" "segs_ok L segs" using assms by (simp_all add: wal_dir_def)
  have mem: "map_of (segFiles L segs) n = Some (File c) \<longleftrightarrow>
      (\<exists>q recs. (q, recs) \<in> set segs \<and> n = segmentName q \<and> c = segBytes L recs)"
    using distinct_segFiles [of segs L] ok(2) by (auto simp: segs_ok_def segFiles_def map_of_eq_Some_iff)
  have "(s, n, c) \<in> set (segmentEntries (readDir d)) \<longleftrightarrow>
      map_of (segFiles L segs) n = Some (File c) \<and> parseSegmentSeq n = Some s"
    using assms ok(1) by (auto simp: set_segmentEntries dir_ok_mem wal_dir_def)
  also have "\<dots> \<longleftrightarrow> (\<exists>q recs. (q, recs) \<in> set segs \<and> s = int q \<and> n = segmentName q \<and> c = segBytes L recs)"
    using segs_ok_mem [OF ok(2)] unfolding mem by fastforce
  finally show ?thesis .
qed

lemma listSegments_unique:
  assumes ok: "dir_ok d" and sorted: "sorted_wrt (<) (map fst ys)"
    and mem: "\<And>n c. (n, c) \<in> set ys \<longleftrightarrow> map_of d n = Some (File c) \<and> parseSegmentSeq n \<noteq> None"
  shows "listSegments d = ys"
proof -
  let ?xs = "map snd (segmentEntries (readDir d))"
  have dx: "distinct (map fst ?xs)"
    using distinct_segmentEntries [OF dir_ok_readDir [OF ok]] by (simp add: comp_def)
  have "distinct (map fst ys)" using sorted by (simp add: strict_sorted_iff)
  moreover have "set ?xs = set ys"
  proof -
    have "(n, c) \<in> set ?xs \<longleftrightarrow> (n, c) \<in> set ys" for n c
    proof -
      have "(n, c) \<in> set ?xs \<longleftrightarrow> (\<exists>s. (s, n, c) \<in> set (segmentEntries (readDir d)))"
        by (force simp: image_iff)
      also have "\<dots> \<longleftrightarrow> (n, c) \<in> set ys"
        using ok unfolding mem by (auto simp: set_segmentEntries dir_ok_mem)
      finally show ?thesis .
    qed
    then show ?thesis by auto
  qed
  ultimately have "mset ?xs = mset ys"
    using dx by (metis distinct_map set_eq_iff_mset_eq_distinct)
  moreover have "inj_on fst (set ?xs)" using dx unfolding distinct_map by blast
  moreover have "sorted (map fst ys)" using sorted by (simp add: strict_sorted_iff)
  ultimately show ?thesis
    unfolding listSegments_def by (rule sort_key_inj_key_eq)
qed

lemma segmentName_sorted:
  assumes "sorted_wrt (<) qs" and "\<forall>q \<in> set qs. q < 10 ^ 8"
  shows "sorted_wrt (<) (map segmentName qs)"
proof -
  have "sorted_wrt (\<lambda>m n. segmentName m < segmentName n) qs"
    by (rule sorted_wrt_mono_rel [rotated, OF assms(1)]) (use assms(2) segmentName_less in blast)
  then show ?thesis by (simp add: sorted_wrt_map)
qed

lemma segs_ok_names:
  assumes "segs_ok L segs"
  shows "sorted_wrt (<) (map segmentName (map fst segs))"
proof (rule segmentName_sorted)
  show "sorted_wrt (<) (map fst segs)" using assms by (simp add: segs_ok_def)
  show "\<forall>q \<in> set (map fst segs). q < 10 ^ 8"
    using assms unfolding segs_ok_def by (metis (no_types, lifting) case_prod_beta imageE list.set_map)
qed

lemma wal_dir_mem:
  assumes dir: "wal_dir L d segs"
  shows "(n, c) \<in> set (map (\<lambda>(q, recs). (segmentName q, segBytes L recs)) segs) \<longleftrightarrow>
    map_of d n = Some (File c) \<and> parseSegmentSeq n \<noteq> None"
proof -
  have "map_of d n = Some (File c) \<and> parseSegmentSeq n \<noteq> None \<longleftrightarrow>
      (\<exists>s. (s, n, c) \<in> set (segmentEntries (readDir d)))"
    using dir by (auto simp: set_segmentEntries dir_ok_mem wal_dir_def)
  then show ?thesis by (fastforce simp: wal_dir_entries [OF dir])
qed

lemma wal_dir_list:
  assumes dir: "wal_dir L d segs"
  shows "listSegments d = map (\<lambda>(q, recs). (segmentName q, segBytes L recs)) segs"
proof (rule listSegments_unique)
  show "dir_ok d" using dir by (simp add: wal_dir_def)
  have "segs_ok L segs" using dir by (simp add: wal_dir_def)
  from segs_ok_names [OF this]
  show "sorted_wrt (<) (map fst (map (\<lambda>(q, recs). (segmentName q, segBytes L recs)) segs))"
    by (simp add: split_def comp_def)
qed (rule wal_dir_mem [OF dir])

lemma latest_fold:
  "\<forall>e \<in> set es. fst e \<le> m \<Longrightarrow> m = a \<or> m \<in> fst ` set es \<Longrightarrow> a \<le> m \<Longrightarrow>
   foldl (\<lambda>maxSeq (seq, _). if seq > maxSeq then seq else maxSeq) a es = (m :: int)"
proof (induction es arbitrary: a)
  case Nil
  then show ?case by simp
next
  case (Cons e es)
  obtain s x where e: "e = (s, x)" by (cases e)
  show ?case
    using Cons.prems e by (simp, intro conjI impI Cons.IH) auto
qed

lemma latest_Max: "latestSegmentSeq d = Max (insert 0 (fst ` set (segmentEntries (readDir d))))"
proof -
  have "foldl (\<lambda>maxSeq (seq, _). if seq > maxSeq then seq else maxSeq) a es = Max (insert a (fst ` set es))"
    for a :: int and es :: "(int \<times> string \<times> byte list) list"
  proof (rule latest_fold)
    let ?M = "Max (insert a (fst ` set es))"
    show "\<forall>e \<in> set es. fst e \<le> ?M" "a \<le> ?M" by simp_all
    have "?M \<in> insert a (fst ` set es)" by (rule Max_in) simp_all
    then show "?M = a \<or> ?M \<in> fst ` set es" by blast
  qed
  then show ?thesis by (simp add: latestSegmentSeq_def)
qed

text \<open>Rewriting an existing file does not change the sequence numbers found.\<close>

lemma latest_put:
  assumes ok: "dir_ok d" and old: "map_of d n = Some (File c)"
  shows "latestSegmentSeq (dir_put n (File c') d) = latestSegmentSeq d"
proof -
  have mem: "s \<in> fst ` set (segmentEntries (readDir d)) \<longleftrightarrow>
      (\<exists>n c. map_of d n = Some (File c) \<and> parseSegmentSeq n = Some s)" if "dir_ok d" for s d
  proof -
    have "s \<in> fst ` set (segmentEntries (readDir d)) \<longleftrightarrow> (\<exists>n c. (s, n, c) \<in> set (segmentEntries (readDir d)))"
      by force
    with that show ?thesis by (simp add: set_segmentEntries dir_ok_mem)
  qed
  have "s \<in> fst ` set (segmentEntries (readDir (dir_put n (File c') d)))
      \<longleftrightarrow> s \<in> fst ` set (segmentEntries (readDir d))" for s
    using old by (auto simp: mem [OF ok] mem [OF dir_ok_put [OF ok]])
  then have "fst ` set (segmentEntries (readDir (dir_put n (File c') d))) = fst ` set (segmentEntries (readDir d))"
    by blast
  then show ?thesis unfolding latest_Max by simp
qed

lemma wal_dir_latest:
  assumes dir: "wal_dir L d segs"
  shows "latestSegmentSeq d = (if segs = [] then 0 else int (fst (last segs)))"
proof (cases "segs = []")
  case True
  then have "x \<notin> set (segmentEntries (readDir d))" for x
    using wal_dir_entries [OF dir] by (cases x) simp
  then have "segmentEntries (readDir d) = []" by (meson list.set_sel(1))
  with True show ?thesis by (simp add: latestSegmentSeq_def)
next
  case False
  then obtain segs0 q recs where segs: "segs = segs0 @ [(q, recs)]" by (metis rev_exhaust prod.collapse)
  have "sorted_wrt (<) (map fst segs)" using dir by (simp add: wal_dir_def segs_ok_def)
  then have "\<forall>(q', _) \<in> set segs. q' \<le> q" unfolding segs by (auto simp: sorted_wrt_append less_imp_le)
  then have "\<forall>e \<in> set (segmentEntries (readDir d)). fst e \<le> int q"
    using wal_dir_entries [OF dir] by fastforce
  moreover have "int q \<in> fst ` set (segmentEntries (readDir d))"
    using wal_dir_entries [OF dir, of "int q" "segmentName q" "segBytes L recs"] segs
    by (metis fst_conv image_eqI in_set_conv_decomp)
  ultimately show ?thesis
    unfolding latestSegmentSeq_def segs by (subst latest_fold [of _ "int q"]) auto
qed

section \<open>Operations against the invariant\<close>

lemma wal_dir_empty: "wal_dir L [] []"
  by (simp add: wal_dir_def segs_ok_def segRecords_def segFiles_def)

text \<open>Opening a log finds its last segment, or creates the first one.\<close>

lemma newWAL_ok:
  assumes dir: "wal_dir L d segs"
  shows "\<exists>w. newWAL OpenOk d m = Inr w \<and> walMaxSegSize w = m \<and>
    wal_inv L w (if segs = [] then [(0, [])] else segs)"
proof (cases "segs = []")
  case True
  have parse: "parseSegmentSeq (segmentName 0) = Some 0" using wal_dir_parse [of 0] by simp
  with dir True have "map_of d (segmentName 0) = None" by (simp add: wal_dir_def segFiles_def)
  then have "newWAL OpenOk d m = Inr \<lparr>walFiles = dir_put (segmentName 0) (File []) d, walMaxSegSize = m,
      walSegmentSeq = 0, walSegmentSize = 0, walOpen = True\<rparr>"
    using wal_dir_latest [OF dir] True by (simp add: newWAL_def openAppend_def fileSize_def)
  moreover have "wal_dir L (dir_put (segmentName 0) (File []) d) [(0, [])]"
    using dir True by (auto simp: wal_dir_def segs_ok_def segRecords_def segFiles_def)
  ultimately show ?thesis using True by (simp add: wal_inv_def)
next
  case False
  then obtain segs0 q recs where segs: "segs = segs0 @ [(q, recs)]" by (metis rev_exhaust prod.collapse)
  have q: "parseSegmentSeq (segmentName q) = Some (int q)"
    using dir segs by (intro segs_ok_mem [of L segs]) (auto simp: wal_dir_def)
  have "q \<notin> fst ` set segs0"
    using dir segs by (force simp: wal_dir_def segs_ok_def sorted_wrt_append)
  then have "map_of d (segmentName q) = Some (File (segBytes L recs))"
    using dir q map_of_segFiles_last [of q segs0 L recs] by (simp add: wal_dir_def segs)
  then show ?thesis
    using dir False wal_dir_latest [OF dir] segs
    by (simp add: newWAL_def openAppend_def wal_inv_def)
qed

lemma wal_inv_last:
  assumes "wal_inv L w segs"
  obtains segs0 recs where "segs = segs0 @ [(walSegmentSeq w, recs)]"
    "map_of (walFiles w) (segmentName (walSegmentSeq w)) = Some (File (segBytes L recs))"
proof -
  have segs: "segs \<noteq> []" "fst (last segs) = walSegmentSeq w" and dir: "wal_dir L (walFiles w) segs"
    using assms by (simp_all add: wal_inv_def)
  then obtain segs0 recs where s: "segs = segs0 @ [(walSegmentSeq w, recs)]"
    by (metis append_butlast_last_id prod.collapse)
  have q: "parseSegmentSeq (segmentName (walSegmentSeq w)) = Some (int (walSegmentSeq w))"
    using dir s by (intro segs_ok_mem [of L segs]) (auto simp: wal_dir_def)
  have "walSegmentSeq w \<notin> fst ` set segs0"
    using dir s by (force simp: wal_dir_def segs_ok_def sorted_wrt_append)
  then have "map_of (walFiles w) (segmentName (walSegmentSeq w)) = Some (File (segBytes L recs))"
    using dir q map_of_segFiles_last [of "walSegmentSeq w" segs0 L recs] by (simp add: wal_dir_def s)
  with s show thesis by (rule that)
qed

text \<open>A complete write extends the last segment by the record.\<close>

lemma segmentWrite_ok:
  assumes inv: "wal_inv L w (segs0 @ [(walSegmentSeq w, recs)])" and fits: "rec_fits L r"
  shows "\<exists>w'. segmentWrite Written (encodeWALRecord L r) w = (None, w') \<and>
    wal_inv L w' (segs0 @ [(walSegmentSeq w, recs @ [r])]) \<and>
    walSegmentSeq w' = walSegmentSeq w \<and> walMaxSegSize w' = walMaxSegSize w"
proof -
  let ?q = "walSegmentSeq w"
  have content: "map_of (walFiles w) (segmentName ?q) = Some (File (segBytes L recs))"
    using wal_inv_last [OF inv] by (metis append1_eq_conv prod.inject)
  have dir: "wal_dir L (walFiles w) (segs0 @ [(?q, recs)])" using inv by (simp add: wal_inv_def)
  have none: "map_of (segFiles L segs0) (segmentName ?q) = None"
    using dir by (intro map_of_segFiles_None) (force simp: wal_dir_def segs_ok_def sorted_wrt_append)
  have "wal_dir L (dir_put (segmentName ?q) (File (segBytes L (recs @ [r]))) (walFiles w)) (segs0 @ [(?q, recs @ [r])])"
    using dir fits none by (auto simp: wal_dir_def segs_ok_def map_add_def split: option.splits)
  with inv content show ?thesis
    by (simp add: segmentWrite_def wal_inv_def appendToFile_def segBytes_snoc)
qed

text \<open>A rotation starts an empty segment with the next number.\<close>

lemma rotate_ok:
  assumes inv: "wal_inv L w segs" and room: "walSegmentSeq w + 1 < 10 ^ 8"
  shows "\<exists>w'. rotate_segment Rotated w = (None, w') \<and> wal_inv L w' (segs @ [(walSegmentSeq w + 1, [])]) \<and>
    walSegmentSeq w' = walSegmentSeq w + 1 \<and> walMaxSegSize w' = walMaxSegSize w"
proof -
  let ?q = "walSegmentSeq w + 1"
  obtain segs0 recs where segs: "segs = segs0 @ [(walSegmentSeq w, recs)]"
    using inv by (rule wal_inv_last)
  have dir: "wal_dir L (walFiles w) segs" using inv by (simp add: wal_inv_def)
  then have sorted: "sorted_wrt (<) (map fst segs)" by (simp add: wal_dir_def segs_ok_def)
  then have less: "\<forall>(q', _) \<in> set segs. q' < ?q"
    unfolding segs by (auto simp: sorted_wrt_append less_SucI)
  then have "map_of (segFiles L segs) (segmentName ?q) = None"
    by (intro map_of_segFiles_None) auto
  moreover have parse: "parseSegmentSeq (segmentName ?q) = Some (int ?q)"
    using room by (intro wal_dir_parse) simp
  ultimately have none: "map_of (walFiles w) (segmentName ?q) = None"
    using dir by (simp add: wal_dir_def)
  have "sorted_wrt (<) (map fst (segs @ [(?q, [])]))"
    using sorted less by (auto simp: sorted_wrt_append)
  then have "wal_dir L (dir_put (segmentName ?q) (File []) (walFiles w)) (segs @ [(?q, [])])"
    using dir room \<open>map_of (segFiles L segs) (segmentName ?q) = None\<close>
    by (auto simp: wal_dir_def segs_ok_def map_add_def split: option.splits)
  with none show ?thesis
    by (simp add: rotate_segment_def openAppend_def wal_inv_def Let_def)
qed

text \<open>Without failures \<open>Log\<close> adds the records, in order, behind those already logged.\<close>

lemma walLog_ok:
  assumes "wal_inv L w segs" and "\<forall>r \<in> set recs. rec_fits L r"
    and "walSegmentSeq w + length recs < 10 ^ 8"
  shows "\<exists>w' segs'. walLog L [] w recs = (None, w') \<and> wal_inv L w' segs' \<and>
    segRecords segs' = segRecords segs @ recs \<and> walSegmentSeq w' \<le> walSegmentSeq w + length recs \<and>
    walMaxSegSize w' = walMaxSegSize w"
  using assms
proof (induction recs arbitrary: w segs)
  case Nil
  then show ?case by auto
next
  case (Cons r recs)
  obtain segs0 rs where segs: "segs = segs0 @ [(walSegmentSeq w, rs)]"
    using Cons.prems(1) by (rule wal_inv_last)
  have "rec_fits L r" using Cons.prems(2) by simp
  from segmentWrite_ok [OF Cons.prems(1) [unfolded segs] this] obtain w1 where
    w1: "segmentWrite Written (encodeWALRecord L r) w = (None, w1)"
    "wal_inv L w1 (segs0 @ [(walSegmentSeq w, rs @ [r])])"
    "walSegmentSeq w1 = walSegmentSeq w" "walMaxSegSize w1 = walMaxSegSize w" by blast
  define w2 where "w2 = w1\<lparr>walSegmentSize := walSegmentSize w1 + int (length (encodeWALRecord L r))\<rparr>"
  have w2: "wal_inv L w2 (segs0 @ [(walSegmentSeq w, rs @ [r])])"
    "walSegmentSeq w2 = walSegmentSeq w" "walMaxSegSize w2 = walMaxSegSize w"
    using w1 by (simp_all add: w2_def wal_inv_def)
  have step: "walLog L [] w (r # recs) =
      (if walMaxSegSize w2 \<le> walSegmentSize w2
       then case rotate_segment Rotated w2 of
              (Some e, w) \<Rightarrow> (Some (''rotating WAL segment: '' @ e), w)
            | (None, w) \<Rightarrow> walLog L [] w recs
       else walLog L [] w2 recs)"
    using w1(1) by (simp add: Let_def w2_def split: prod.split option.split)
  show ?case
  proof (cases "walSegmentSize w2 \<ge> walMaxSegSize w2")
    case False
    have "walLog L [] w (r # recs) = walLog L [] w2 recs"
      using False step by simp
    moreover have "\<forall>r \<in> set recs. rec_fits L r" "walSegmentSeq w2 + length recs < 10 ^ 8"
      using Cons.prems w2(2) by simp_all
    ultimately show ?thesis
      using Cons.IH [OF w2(1)] w2(2,3) by (fastforce simp: segs)
  next
    case True
    have "walSegmentSeq w2 + 1 < 10 ^ 8" using Cons.prems(3) w2(2) by simp
    from rotate_ok [OF w2(1) this] obtain w3 where
      w3: "rotate_segment Rotated w2 = (None, w3)"
      "wal_inv L w3 ((segs0 @ [(walSegmentSeq w, rs @ [r])]) @ [(walSegmentSeq w2 + 1, [])])"
      "walSegmentSeq w3 = walSegmentSeq w + 1" "walMaxSegSize w3 = walMaxSegSize w"
      using w2(2,3) by auto
    have "walLog L [] w (r # recs) = walLog L [] w3 recs"
      using True step w3(1) by simp
    moreover have "\<forall>r \<in> set recs. rec_fits L r" "walSegmentSeq w3 + length recs < 10 ^ 8"
      using Cons.prems w3(3) by simp_all
    moreover from this obtain w' segs' where "walLog L [] w3 recs = (None, w')" "wal_inv L w' segs'"
      "segRecords segs' = segRecords ((segs0 @ [(walSegmentSeq w, rs @ [r])]) @ [(walSegmentSeq w2 + 1, [])]) @ recs"
      "walSegmentSeq w' \<le> walSegmentSeq w3 + length recs" "walMaxSegSize w' = walMaxSegSize w3"
      using Cons.IH [OF w3(2)] by blast
    ultimately show ?thesis
      using w3(3,4) by (intro exI [of _ w'] exI [of _ segs']) (simp add: segs segRecords_def)
  qed
qed

lemma decode_empty [simp]: "decodeWALRecord L [] = Inl EOF"
  by (simp add: decodeWALRecord_def readFull_def)

lemma replaySegment_records:
  "\<forall>r \<in> set recs. rec_fits L r \<Longrightarrow>
   replaySegment L (segBytes L recs @ tail) =
     (case replaySegment L tail of (rs, e) \<Rightarrow> (map (wal_norm L) recs @ rs, e))"
proof (induction recs)
  case Nil
  then show ?case by (simp split: prod.splits)
next
  case (Cons r recs)
  have "segBytes L (r # recs) @ tail = encodeWALRecord L r @ (segBytes L recs @ tail)"
    by (simp add: segBytes_def)
  then have "decodeWALRecord L (segBytes L (r # recs) @ tail) = Inr (wal_norm L r, segBytes L recs @ tail)"
    using Cons.prems by (simp add: decode_encode)
  with Cons show ?case
    by (simp add: replaySegment.simps [of L "segBytes L (r # recs) @ tail"] split: prod.splits)
qed

lemma replaySegment_Nil [simp]: "replaySegment L [] = ([], None)"
  by (simp add: replaySegment.simps [of L "[]"])

lemma replaySegments_append:
  "\<forall>r \<in> set (segRecords segs). rec_fits L r \<Longrightarrow>
   replaySegments L (map (\<lambda>(q, recs). (segmentName q, segBytes L recs)) segs @ tail) =
     (case replaySegments L tail of (rs, e) \<Rightarrow> (map (wal_norm L) (segRecords segs) @ rs, e))"
proof (induction segs)
  case Nil
  show ?case by (simp add: segRecords_def split: prod.splits)
next
  case (Cons x segs)
  obtain q recs where x: "x = (q, recs)" by (cases x)
  with Cons.prems have fits: "\<forall>r \<in> set recs. rec_fits L r" "\<forall>r \<in> set (segRecords segs). rec_fits L r"
    by (simp_all add: segRecords_def)
  have "replaySegment L (segBytes L recs) = (map (wal_norm L) recs, None)"
    using replaySegment_records [OF fits(1), of "[]"] by simp
  with Cons.IH [OF fits(2)] show ?case
    by (simp add: x segRecords_def split: prod.splits)
qed

lemma walReplay_ok:
  assumes "wal_dir L (walFiles w) segs"
  shows "walReplay L w = (map (wal_norm L) (segRecords segs), None)"
proof -
  have "\<forall>r \<in> set (segRecords segs). rec_fits L r"
    using assms by (simp add: wal_dir_def segs_ok_def)
  from replaySegments_append [OF this, of "[]"] show ?thesis
    by (simp add: walReplay_def wal_dir_list [OF assms])
qed

section \<open>Torn writes\<close>

text \<open>A proper prefix of a record's encoding does not decode.\<close>

lemma decode_torn:
  assumes fits: "rec_fits L r" and k: "k < length (encodeWALRecord L r)"
  shows "decodeWALRecord L (take k (encodeWALRecord L r))
    = Inl (if k = 0 \<or> k = 4 then EOF else UnexpectedEOF)"
proof -
  define body where "body = rec_body (lrange L (wrLabels r)) (wrT r) (wrV r)"
  have size: "length body < 4294967296"
    using fits by (simp add: rec_fits_def body_def length_rec_body Let_def)
  have enc: "encodeWALRecord L r = be_bytes 4 (length body) @ body"
    using size by (simp add: encodeWALRecord_eq body_def [symmetric] Let_def codec)
  have len: "k < 4 + length body" using k by (simp add: enc)
  show ?thesis
  proof (cases "k < 4")
    case True
    then have "readFull 4 (take k (encodeWALRecord L r)) = Inl (if k = 0 then EOF else UnexpectedEOF)"
      using length_be_bytes [of 4 "length body"] by (auto simp: enc readFull_def simp del: length_be_bytes)
    with True show ?thesis by (simp add: decodeWALRecord_def)
  next
    case False
    then have "readFull 4 (take k (encodeWALRecord L r)) = Inr (be_bytes 4 (length body), take (k - 4) body)"
      by (simp add: enc readFull_def)
    moreover have "readFull (be_value (be_bytes 4 (length body))) (take (k - 4) body)
        = Inl (if k = 4 then EOF else UnexpectedEOF)"
      using size len False by (auto simp: be_value_bytes readFull_def)
    ultimately show ?thesis using False by (auto simp: decodeWALRecord_def)
  qed
qed

lemma replaySegment_torn:
  assumes "\<forall>r \<in> set recs. rec_fits L r" and "rec_fits L r" and "k < length (encodeWALRecord L r)"
  shows "replaySegment L (segBytes L recs @ take k (encodeWALRecord L r))
    = (map (wal_norm L) recs, if k = 0 \<or> k = 4 then None else Some UnexpectedEOF)"
  using replaySegment_records [OF assms(1), of "take k (encodeWALRecord L r)"]
    decode_torn [OF assms(2,3)]
  by (simp add: replaySegment.simps [of L "take k (encodeWALRecord L r)"])

text \<open>\<open>Log\<close> processes its records one by one; as long as the calls succeed it can be split.\<close>

lemma walLog_append:
  "walLog L (replicate (length recs) (Written, Rotated) @ outs) w (recs @ recs2) =
     (case walLog L [] w recs of
        (None, w') \<Rightarrow> walLog L outs w' recs2
      | (Some e, w') \<Rightarrow> (Some e, w'))"
  by (induction recs arbitrary: w) (simp_all add: Let_def split: prod.splits option.splits)

text \<open>What a replay delivers when the last segment, the one written to, has any other content.\<close>

lemma replay_last_content:
  assumes inv: "wal_inv L w segs"
  obtains segs0 recs where "segs = segs0 @ [(walSegmentSeq w, recs)]" "\<forall>r \<in> set recs. rec_fits L r"
    "map_of (walFiles w) (segmentName (walSegmentSeq w)) = Some (File (segBytes L recs))"
    "\<And>c. replaySegments L (listSegments (dir_put (segmentName (walSegmentSeq w)) (File c) (walFiles w))) =
       (case replaySegment L c of (rs, e) \<Rightarrow>
          (map (wal_norm L) (segRecords segs0) @ rs, map_option (Pair (segmentName (walSegmentSeq w))) e))"
proof -
  let ?n = "segmentName (walSegmentSeq w)" and ?f = "\<lambda>(q, recs). (segmentName q, segBytes L recs)"
  obtain segs0 recs where segs: "segs = segs0 @ [(walSegmentSeq w, recs)]"
    and content: "map_of (walFiles w) ?n = Some (File (segBytes L recs))"
    using inv by (rule wal_inv_last)
  have dir: "wal_dir L (walFiles w) segs" using inv by (simp add: wal_inv_def)
  have ok: "segs_ok L segs" using dir by (simp add: wal_dir_def)
  have fits: "\<forall>r \<in> set (segRecords segs0). rec_fits L r" "\<forall>r \<in> set recs. rec_fits L r"
    using ok by (simp_all add: segs segs_ok_def)
  have other: "(n, c) \<in> set (map ?f segs0) \<longleftrightarrow>
      map_of (walFiles w) n = Some (File c) \<and> parseSegmentSeq n \<noteq> None \<and> n \<noteq> ?n" for n c
  proof -
    have "?n \<notin> fst ` set (map ?f segs0)"
      using segs_ok_names [OF ok] by (force simp: segs sorted_wrt_append)
    with wal_dir_mem [OF dir, of n c] show ?thesis by (force simp: segs)
  qed
  have "listSegments (dir_put ?n (File c) (walFiles w)) = map ?f segs0 @ [(?n, c)]" for c
  proof (rule listSegments_unique)
    show "dir_ok (dir_put ?n (File c) (walFiles w))" using dir by (simp add: wal_dir_def)
    show "sorted_wrt (<) (map fst (map ?f segs0 @ [(?n, c)]))"
      using segs_ok_names [OF ok] by (simp add: segs split_def comp_def)
    have "parseSegmentSeq ?n \<noteq> None"
      using segs_ok_mem [OF ok, of "walSegmentSeq w" recs] segs by simp
    then show "(n, x) \<in> set (map ?f segs0 @ [(?n, c)]) \<longleftrightarrow>
        map_of (dir_put ?n (File c) (walFiles w)) n = Some (File x) \<and> parseSegmentSeq n \<noteq> None" for n x
      using other [of n x] by auto
  qed
  then have "replaySegments L (listSegments (dir_put ?n (File c) (walFiles w))) =
      (case replaySegment L c of (rs, e) \<Rightarrow> (map (wal_norm L) (segRecords segs0) @ rs, map_option (Pair ?n) e))" for c
    by (simp add: replaySegments_append fits(1) split: prod.split option.split)
  with segs fits(2) content show thesis by (rule that)
qed

text \<open>A failed write leaves a prefix of one record behind the records of the last segment.\<close>

lemma segmentWrite_torn:
  assumes inv: "wal_inv L w segs" and fits: "rec_fits L r" and k: "k < length (encodeWALRecord L r)"
  shows "\<exists>w'. segmentWrite (WriteErr k) (encodeWALRecord L r) w = (Some ''write'', w') \<and>
    newWAL OpenOk (walFiles w') m = Inr (w'\<lparr>walMaxSegSize := m, walSegmentSize := int (fileSize (segmentName (walSegmentSeq w)) (walFiles w'))\<rparr>) \<and>
    walReplay L w' = (map (wal_norm L) (segRecords segs),
      if k = 0 \<or> k = 4 then None else Some (segmentName (walSegmentSeq w), UnexpectedEOF))"
proof -
  let ?n = "segmentName (walSegmentSeq w)" and ?piece = "take k (encodeWALRecord L r)"
  obtain segs0 recs where segs: "segs = segs0 @ [(walSegmentSeq w, recs)]" and recs: "\<forall>r \<in> set recs. rec_fits L r"
    and content: "map_of (walFiles w) ?n = Some (File (segBytes L recs))"
    and replay: "\<And>c. replaySegments L (listSegments (dir_put ?n (File c) (walFiles w))) =
      (case replaySegment L c of (rs, e) \<Rightarrow> (map (wal_norm L) (segRecords segs0) @ rs, map_option (Pair ?n) e))"
    using inv by (rule replay_last_content) blast
  have dir: "wal_dir L (walFiles w) segs" and opn: "walOpen w" using inv by (simp_all add: wal_inv_def)
  let ?d = "dir_put ?n (File (segBytes L recs @ ?piece)) (walFiles w)"
  have "replaySegments L (listSegments ?d) = (map (wal_norm L) (segRecords segs),
      if k = 0 \<or> k = 4 then None else Some (?n, UnexpectedEOF))"
    by (simp add: replay replaySegment_torn [OF recs fits k] segs)
  moreover have "latestSegmentSeq ?d = int (walSegmentSeq w)"
    using latest_put [OF _ content] dir wal_dir_latest [OF dir] segs by (simp add: wal_dir_def)
  ultimately show ?thesis
    using opn content
    by (cases w) (simp add: segmentWrite_def appendToFile_def walReplay_def newWAL_def openAppend_def Let_def)
qed

text \<open>What is written behind a torn record is read as its missing bytes.\<close>

lemma decode_torn_behind:
  assumes fits: "rec_fits L r" and k: "4 \<le> k" "k + length x < length (encodeWALRecord L r)" and x: "x \<noteq> []"
  shows "decodeWALRecord L (take k (encodeWALRecord L r) @ x) = Inl UnexpectedEOF"
proof -
  define body where "body = rec_body (lrange L (wrLabels r)) (wrT r) (wrV r)"
  have size: "length body < 4294967296"
    using fits by (simp add: rec_fits_def body_def length_rec_body Let_def)
  have enc: "encodeWALRecord L r = be_bytes 4 (length body) @ body"
    using size by (simp add: encodeWALRecord_eq body_def [symmetric] Let_def codec)
  have "readFull 4 (take k (encodeWALRecord L r) @ x) = Inr (be_bytes 4 (length body), take (k - 4) body @ x)"
    using k(1) by (simp add: enc readFull_def)
  moreover have "readFull (be_value (be_bytes 4 (length body))) (take (k - 4) body @ x) = Inl UnexpectedEOF"
    using size k x by (auto simp: enc be_value_bytes readFull_def)
  ultimately show ?thesis by (simp add: decodeWALRecord_def)
qed

text \<open>After a tear the next record that is written, and acknowledged, cannot be replayed.\<close>

lemma wal_write_behind_tear:
  assumes inv: "wal_inv L w segs" and fits: "rec_fits L r"
    and k: "4 \<le> k" "k + length (encodeWALRecord L r2) < length (encodeWALRecord L r)"
    and room: "walSegmentSize w + int (length (encodeWALRecord L r2)) < walMaxSegSize w"
  shows "\<exists>w1 w2. walLog L [(WriteErr k, o2)] w [r] = (Some ''writing WAL record: write'', w1) \<and>
    walLog L [] w1 [r2] = (None, w2) \<and>
    walReplay L w2 = (map (wal_norm L) (segRecords segs), Some (segmentName (walSegmentSeq w), UnexpectedEOF)) \<and>
    newWAL OpenOk (walFiles w2) m = Inr (w2\<lparr>walMaxSegSize := m, walSegmentSize := int (fileSize (segmentName (walSegmentSeq w)) (walFiles w2))\<rparr>)"
proof -
  let ?n = "segmentName (walSegmentSeq w)" and ?e = "encodeWALRecord L r2"
  obtain segs0 recs where segs: "segs = segs0 @ [(walSegmentSeq w, recs)]" and recs: "\<forall>r \<in> set recs. rec_fits L r"
    and content: "map_of (walFiles w) ?n = Some (File (segBytes L recs))"
    and replay: "\<And>c. replaySegments L (listSegments (dir_put ?n (File c) (walFiles w))) =
      (case replaySegment L c of (rs, e) \<Rightarrow> (map (wal_norm L) (segRecords segs0) @ rs, map_option (Pair ?n) e))"
    using inv by (rule replay_last_content) blast
  have dir: "wal_dir L (walFiles w) segs" and opn: "walOpen w" using inv by (simp_all add: wal_inv_def)
  let ?c1 = "segBytes L recs @ take k (encodeWALRecord L r)"
  let ?w1 = "w\<lparr>walFiles := dir_put ?n (File ?c1) (walFiles w)\<rparr>"
  let ?d2 = "dir_put ?n (File (?c1 @ ?e)) (walFiles w)"
  let ?w2 = "w\<lparr>walFiles := ?d2, walSegmentSize := walSegmentSize w + int (length ?e)\<rparr>"
  have "?e \<noteq> []" by (simp add: encodeWALRecord_eq Let_def codec flip: length_0_conv)
  from decode_torn_behind [OF fits k this]
  have "replaySegment L (?c1 @ ?e) = (map (wal_norm L) recs, Some UnexpectedEOF)"
    using replaySegment_records [OF recs, of "take k (encodeWALRecord L r) @ ?e"]
    by (simp add: replaySegment.simps [of L "take k (encodeWALRecord L r) @ ?e"])
  then have "walReplay L ?w2 = (map (wal_norm L) (segRecords segs), Some (?n, UnexpectedEOF))"
    using replay [of "?c1 @ ?e"] by (simp add: walReplay_def segs)
  moreover have "walLog L [(WriteErr k, o2)] w [r] = (Some ''writing WAL record: write'', ?w1)"
    using opn content by (simp add: segmentWrite_def appendToFile_def)
  moreover have "walLog L [] ?w1 [r2] = (None, ?w2)"
    using opn room by (simp add: segmentWrite_def appendToFile_def Let_def)
  moreover have "latestSegmentSeq ?d2 = int (walSegmentSeq w)"
    using latest_put [OF _ content] dir wal_dir_latest [OF dir] segs by (simp add: wal_dir_def)
  then have "newWAL OpenOk (walFiles ?w2) m = Inr (?w2\<lparr>walMaxSegSize := m, walSegmentSize := int (fileSize ?n ?d2)\<rparr>)"
    using opn by (cases w) (simp add: newWAL_def openAppend_def Let_def)
  ultimately show ?thesis by - (rule exI [of _ ?w1], rule exI [of _ ?w2], simp)
qed

section \<open>Truncation\<close>

lemma truncateEntries_ok:
  "truncateEntries (\<lambda>_. False) b es d = (None, filter (\<lambda>(n, _). \<forall>s c. (s, n, c) \<in> set es \<longrightarrow> \<not> s < b) d)"
proof (induction es arbitrary: d)
  case Nil
  show ?case by simp
next
  case (Cons x es)
  obtain s n c where x: "x = (s, n, c)" by (cases x)
  show ?case
    by (auto simp: x Cons.IH dir_remove_def split_def intro!: filter_cong)
qed

lemma ex_all_inj:
  assumes "\<And>q q'. N q = N q' \<Longrightarrow> q = q'"
  shows "(\<exists>q r. M q r \<and> n = N q \<and> e = F r) \<and> (\<forall>q r. M q r \<longrightarrow> n = N q \<longrightarrow> B q) \<longleftrightarrow>
    (\<exists>q r. (M q r \<and> B q) \<and> n = N q \<and> e = F r)"
  using assms by (safe; blast)

lemma walTruncate_ok:
  assumes dir: "wal_dir L (walFiles w) segs"
  shows "\<exists>w'. walTruncate (\<lambda>_. False) w b = (None, w') \<and>
    wal_dir L (walFiles w') (filter (\<lambda>(q, _). b \<le> int q) segs) \<and>
    walSegmentSeq w' = walSegmentSeq w \<and> walOpen w' = walOpen w \<and>
    walMaxSegSize w' = walMaxSegSize w \<and> walSegmentSize w' = walSegmentSize w"
proof -
  let ?segs = "filter (\<lambda>(q, _). b \<le> int q) segs"
  let ?P = "\<lambda>(n, _). \<forall>s c. (s, n, c) \<in> set (segmentEntries (readDir (walFiles w))) \<longrightarrow> \<not> s < b"
  have ok: "dir_ok (walFiles w)" "segs_ok L segs" using dir by (simp_all add: wal_dir_def)
  have distinct: "distinct (map fst (walFiles w))" using ok(1) by (simp add: dir_ok_def)
  have P: "?P (n, e) \<longleftrightarrow> (\<forall>q recs. (q, recs) \<in> set segs \<longrightarrow> n = segmentName q \<longrightarrow> b \<le> int q)" for n and e :: "byte list entry"
    by (simp add: wal_dir_entries [OF dir]) (metis linorder_not_less)
  have segs': "segs_ok L ?segs"
    using ok(2) by (auto simp: segs_ok_def segRecords_def sorted_wrt_map sorted_wrt_filter)
  have "map_of (filter ?P (walFiles w)) n = map_of (segFiles L ?segs) n"
    if "parseSegmentSeq n \<noteq> None" for n
  proof -
    have mem: "map_of (filter ?P (walFiles w)) n = Some e \<longleftrightarrow> map_of (segFiles L ?segs) n = Some e" for e
    proof -
      have kept: "map_of (filter ?P (walFiles w)) n = Some e \<longleftrightarrow> map_of (walFiles w) n = Some e \<and> ?P (n, e)"
        using distinct distinct_filter_fst [OF distinct, of ?P]
        by (simp only: map_of_eq_Some_iff set_filter mem_Collect_eq)
      have old: "map_of (walFiles w) n = Some e \<longleftrightarrow>
          (\<exists>q recs. (q, recs) \<in> set segs \<and> n = segmentName q \<and> e = File (segBytes L recs))"
        using dir that map_of_segFiles_Some [OF ok(2)] by (simp add: wal_dir_def)
      have new: "map_of (segFiles L ?segs) n = Some e \<longleftrightarrow>
          (\<exists>q recs. ((q, recs) \<in> set segs \<and> b \<le> int q) \<and> n = segmentName q \<and> e = File (segBytes L recs))"
        using map_of_segFiles_Some [OF segs'] by simp
      show ?thesis
        unfolding kept P old new by (rule ex_all_inj) (simp add: segmentName_inj)
    qed
    then show ?thesis by (rule option_ext)
  qed
  then have "wal_dir L (filter ?P (walFiles w)) ?segs"
    using segs' distinct_filter_fst [OF distinct] by (simp add: wal_dir_def dir_ok_def)
  then show ?thesis by (simp add: walTruncate_def truncateEntries_ok)
qed

lemma walClose_ok: "walOpen w \<Longrightarrow> walClose Closed w = (None, w\<lparr>walOpen := False\<rparr>)"
  by (simp add: walClose_def)

text \<open>A label value of 65536 bytes: the length field wraps to 0, so the value's own bytes are read
  as the timestamp and the value of the sample.\<close>

lemma decode_wrapped:
  assumes name: "length n < 2 ^ 16" and val: "length v = 2 ^ 16" and lbls: "lrange L (wrLabels r) = [(n, v)]"
  shows "\<exists>t x. decodeWALRecord L (encodeWALRecord L r @ rest)
    = Inr (\<lparr>wrLabels = lscratch L [(n, '''')], wrT = t, wrV = x\<rparr>, rest)"
proof -
  define body where "body = rec_body [(n, v)] (wrT r) (wrV r)"
  have name': "length n < 65536" using name by simp
  have size: "length body < 4294967296"
    using name' val by (simp add: body_def length_rec_body rec_body_size_def)
  have enc: "encodeWALRecord L r = be_bytes 4 (length body) @ body"
    using size by (simp add: encodeWALRecord_eq lbls body_def [symmetric] Let_def codec)
  have zero: "unat (u16 65536) = 0" by (simp add: u16_def unat_of_nat)
  have body: "body = be_bytes 2 1 @ be_bytes 2 (length n) @ string_bytes n @ be_bytes 2 0 @
      string_bytes v @ be_bytes 8 (unat (wrT r)) @ be_bytes 8 (unat (wrV r))"
    using name' val
    by (simp add: body_def rec_body_def label_bytes_def appendLabelBytes_def appendUint16_def zero codec)
  define tail where "tail = string_bytes v @ be_bytes 8 (unat (wrT r)) @ be_bytes 8 (unat (wrV r))"
  have labels: "decodeLabels 1 (be_bytes 2 (length n) @ string_bytes n @ be_bytes 2 0 @ tail) = Inr ([(n, '''')], tail)"
    using name' by (simp add: codec getBytes_def [of 0] bytes_string_def [of "[]"])
  have "8 \<le> length tail" "8 \<le> length (drop 8 tail)" using val by (simp_all add: tail_def)
  then obtain t u where t: "getUint 8 tail = Inr (t, drop 8 tail)" and u: "getUint 8 (drop 8 tail) = Inr (u, drop 8 (drop 8 tail))"
    by (simp add: getUint_def)
  have "readFull 4 (encodeWALRecord L r @ rest) = Inr (be_bytes 4 (length body), body @ rest)"
    by (simp add: enc readFull_def)
  moreover have "readFull (be_value (be_bytes 4 (length body))) (body @ rest) = Inr (body, rest)"
    using size by (simp add: be_value_bytes readFull_def)
  moreover have "getUint 2 body = Inr (1, be_bytes 2 (length n) @ string_bytes n @ be_bytes 2 0 @ tail)"
    unfolding body tail_def by (simp add: codec)
  ultimately show ?thesis
    using labels t u by (simp add: decodeWALRecord_def)
qed

section \<open>Properties\<close>

text \<open>C20: Decoding the encoding of a record that fits its length fields gives the record back, with
  an equal label set, and leaves the following bytes unread.\<close>

theorem wal_record_roundtrip:
  assumes "labels_ok L" and "rec_fits L r"
  shows "\<exists>r'. decodeWALRecord L (encodeWALRecord L r @ rest) = Inr (r', rest) \<and>
    lequal L (wrLabels r') (wrLabels r) \<and> wrT r' = wrT r \<and> wrV r' = wrV r"
  using decode_encode [OF assms(2), of rest] assms(1)
  by (simp add: wal_norm_def lequal_law lscratch_law)

abbreviation demo_record :: "(string \<times> string) list walRecord" where
  "demo_record \<equiv> \<lparr>wrLabels = [(''__name__'', ''up''), (''job'', ''olt'')], wrT = -5, wrV = 4607182418800017408\<rparr>"

lemma demo_record_fits: "rec_fits (list_labels poly_hash) demo_record"
  by (simp add: rec_fits_def rec_body_size_def list_labels_def Let_def)

theorem wal_record_roundtrip_witness:
  "\<exists>r'. decodeWALRecord (list_labels poly_hash) (encodeWALRecord (list_labels poly_hash) demo_record @ [1, 2]) = Inr (r', [1, 2])
    \<and> lequal (list_labels poly_hash) (wrLabels r') (wrLabels demo_record) \<and> wrT r' = -5 \<and> wrV r' = 4607182418800017408"
  using wal_record_roundtrip [OF list_labels_ok demo_record_fits, of "[1, 2]"] by simp

text \<open>C19: Records logged in one session are replayed in the next: on a log directory in good order,
  opening, logging a batch, closing and opening again, whatever the segment sizes, gives a log whose
  replay delivers the old records followed by the new ones, in order, without an error.\<close>

theorem wal_log_reopen_replay:
  assumes "wal_dir L d segs" and "\<forall>r \<in> set recs. rec_fits L r"
    and "latestSegmentSeq d + int (length recs) < 10 ^ 8"
  shows "\<exists>w w1 w2 w3. newWAL OpenOk d segSize = Inr w \<and> walLog L [] w recs = (None, w1) \<and>
    walClose Closed w1 = (None, w2) \<and> newWAL OpenOk (walFiles w2) segSize' = Inr w3 \<and>
    walReplay L w = (map (wal_norm L) (segRecords segs), None) \<and>
    walReplay L w3 = (map (wal_norm L) (segRecords segs @ recs), None)"
proof -
  let ?segs = "if segs = [] then [(0, [])] else segs"
  obtain w where w: "newWAL OpenOk d segSize = Inr w" "wal_inv L w ?segs"
    using newWAL_ok [OF assms(1)] by blast
  have same: "segRecords ?segs = segRecords segs" by (simp add: segRecords_def)
  have "int (walSegmentSeq w) = latestSegmentSeq d"
    using w(2) wal_dir_latest [OF assms(1)] by (auto simp: wal_inv_def split: if_splits)
  then have "walSegmentSeq w + length recs < 10 ^ 8" using assms(3) by simp
  from walLog_ok [OF w(2) assms(2) this] obtain w1 segs1 where
    w1: "walLog L [] w recs = (None, w1)" "wal_inv L w1 segs1" "segRecords segs1 = segRecords segs @ recs"
    unfolding same by blast
  have dir1: "wal_dir L (walFiles w1) segs1" and "segs1 \<noteq> []" and "walOpen w1"
    using w1(2) by (simp_all add: wal_inv_def)
  let ?w2 = "w1\<lparr>walOpen := False\<rparr>"
  have w2: "walClose Closed w1 = (None, ?w2)" using walClose_ok [OF \<open>walOpen w1\<close>] .
  obtain w3 where w3: "newWAL OpenOk (walFiles ?w2) segSize' = Inr w3" "wal_inv L w3 segs1"
    using newWAL_ok [OF dir1] \<open>segs1 \<noteq> []\<close> by auto
  have "walReplay L w = (map (wal_norm L) (segRecords segs), None)"
    using walReplay_ok [of L w ?segs] w(2) same by (simp add: wal_inv_def)
  moreover have "walReplay L w3 = (map (wal_norm L) (segRecords segs @ recs), None)"
    using walReplay_ok [of L w3 segs1] w3(2) w1(3) by (simp add: wal_inv_def)
  ultimately show ?thesis using w(1) w1(1) w2 w3(1) by blast
qed

theorem wal_log_reopen_replay_witness:
  "\<exists>w w1 w2 w3. newWAL OpenOk [(''lock'', File [])] 40 = Inr w \<and>
     walLog (list_labels poly_hash) [] w [demo_record, demo_record] = (None, w1) \<and>
     walClose Closed w1 = (None, w2) \<and> newWAL OpenOk (walFiles w2) 40 = Inr w3 \<and>
     walReplay (list_labels poly_hash) w3 = (map (wal_norm (list_labels poly_hash)) [demo_record, demo_record], None)"
proof -
  have parse: "parseSegmentSeq ''lock'' = None" by code_simp
  then have dir: "wal_dir (list_labels poly_hash) [(''lock'', File [])] []"
    by (auto simp: wal_dir_def segs_ok_def segRecords_def segFiles_def dir_ok_def)
  moreover have "latestSegmentSeq [(''lock'', File [])] = 0"
    using wal_dir_latest [OF dir] by simp
  ultimately show ?thesis
    using wal_log_reopen_replay [OF dir, of "[demo_record, demo_record]" 40 40] demo_record_fits
    unfolding segRecords_def list.simps concat.simps append.simps by fastforce
qed

text \<open>C37: When the write of a record fails part way, \<open>Log\<close> reports an error, no later record is
  written, and a replay still delivers every record before the torn one and nothing else; it ends
  without an error when nothing or just the size field was written, and with
  \<open>io.ErrUnexpectedEOF\<close> on the torn segment otherwise.\<close>

theorem wal_write_failure:
  assumes "wal_inv L w segs" and "\<forall>r \<in> set (recs @ [r]). rec_fits L r"
    and "walSegmentSeq w + length recs < 10 ^ 8" and "k < length (encodeWALRecord L r)"
  shows "\<exists>e w'. walLog L (replicate (length recs) (Written, Rotated) @ [(WriteErr k, o2)]) w (recs @ r # later)
      = (Some e, w') \<and>
    walReplay L w' = (map (wal_norm L) (segRecords segs @ recs),
      if k = 0 \<or> k = 4 then None else Some (segmentName (walSegmentSeq w'), UnexpectedEOF))"
proof -
  obtain w1 segs1 where w1: "walLog L [] w recs = (None, w1)" "wal_inv L w1 segs1"
    "segRecords segs1 = segRecords segs @ recs"
    using walLog_ok [OF assms(1) _ assms(3)] assms(2) by auto
  have "rec_fits L r" using assms(2) by simp
  from segmentWrite_torn [OF w1(2) this assms(4)] obtain w' where
    w': "segmentWrite (WriteErr k) (encodeWALRecord L r) w1 = (Some ''write'', w')"
    "walReplay L w' = (map (wal_norm L) (segRecords segs1),
      if k = 0 \<or> k = 4 then None else Some (segmentName (walSegmentSeq w1), UnexpectedEOF))" by blast
  have "walSegmentSeq w' = walSegmentSeq w1"
    using w'(1) by (auto simp: segmentWrite_def split: if_splits)
  with w' w1 show ?thesis
    by (simp add: walLog_append [where outs = "[(WriteErr k, o2)]"])
qed

theorem wal_write_failure_witness:
  "\<exists>w e w'. newWAL OpenOk [] 1000 = Inr w \<and>
    walLog (list_labels poly_hash) [(Written, Rotated), (WriteErr 7, Rotated)] w [demo_record, demo_record, demo_record] = (Some e, w') \<and>
    walReplay (list_labels poly_hash) w' = ([wal_norm (list_labels poly_hash) demo_record],
      Some (segmentName (walSegmentSeq w'), UnexpectedEOF))"
proof -
  obtain w where w: "newWAL OpenOk [] 1000 = Inr w" "wal_inv (list_labels poly_hash) w [(0, [])]"
    using newWAL_ok [OF wal_dir_empty, of 1000 "list_labels poly_hash"] by auto
  have "walSegmentSeq w = 0" using w(2) by (simp add: wal_inv_def)
  moreover have "7 < length (encodeWALRecord (list_labels poly_hash) demo_record)"
    by (simp add: length_encodeWALRecord rec_body_size_def)
  ultimately have "\<exists>e w'. walLog (list_labels poly_hash) [(Written, Rotated), (WriteErr 7, Rotated)] w [demo_record, demo_record, demo_record] = (Some e, w') \<and>
    walReplay (list_labels poly_hash) w' = ([wal_norm (list_labels poly_hash) demo_record],
      Some (segmentName (walSegmentSeq w'), UnexpectedEOF))"
    using wal_write_failure [OF w(2), of "[demo_record]" demo_record 7 Rotated "[demo_record]"] demo_record_fits
    by (simp add: segRecords_def del: walLog.simps)
  with w(1) show ?thesis by blast
qed

text \<open>\<open>Truncate\<close> up to a sequence number not above the current one removes exactly the segments
  with smaller numbers: the log stays open and in good order, and replays the records of the
  remaining segments.\<close>

theorem wal_truncate_exact:
  assumes "wal_inv L w segs" and "b \<le> int (walSegmentSeq w)"
  shows "\<exists>w'. walTruncate (\<lambda>_. False) w b = (None, w') \<and>
    wal_inv L w' (filter (\<lambda>(q, _). b \<le> int q) segs) \<and> walSegmentSeq w' = walSegmentSeq w \<and>
    walReplay L w' = (map (wal_norm L) (segRecords (filter (\<lambda>(q, _). b \<le> int q) segs)), None)"
proof -
  let ?segs = "filter (\<lambda>(q, _). b \<le> int q) segs"
  obtain segs0 recs where segs: "segs = segs0 @ [(walSegmentSeq w, recs)]"
    using assms(1) by (rule wal_inv_last)
  have "wal_dir L (walFiles w) segs" using assms(1) by (simp add: wal_inv_def)
  from walTruncate_ok [OF this, of b] obtain w' where w': "walTruncate (\<lambda>_. False) w b = (None, w')"
    "wal_dir L (walFiles w') ?segs" "walSegmentSeq w' = walSegmentSeq w" "walOpen w' = walOpen w" by blast
  have "wal_inv L w' ?segs"
    using w' assms by (simp add: wal_inv_def segs)
  with w' walReplay_ok [OF w'(2)] show ?thesis by blast
qed

theorem wal_truncate_exact_witness:
  "\<exists>w w1 w'. newWAL OpenOk [] 10 = Inr w \<and>
     walLog (list_labels poly_hash) [] w [demo_record] = (None, w1) \<and> walTruncate (\<lambda>_. False) w1 0 = (None, w') \<and>
     walReplay (list_labels poly_hash) w' = ([wal_norm (list_labels poly_hash) demo_record], None)"
proof -
  let ?L = "list_labels poly_hash"
  obtain w where w: "newWAL OpenOk [] 10 = Inr w" "wal_inv ?L w [(0, [])]"
    using newWAL_ok [OF wal_dir_empty, of 10 ?L] by auto
  have "walSegmentSeq w = 0" using w(2) by (simp add: wal_inv_def)
  then obtain w1 segs1 where w1: "walLog ?L [] w [demo_record] = (None, w1)" "wal_inv ?L w1 segs1"
    "segRecords segs1 = [demo_record]"
    using walLog_ok [OF w(2), of "[demo_record]"] demo_record_fits by (auto simp: segRecords_def)
  have "filter (\<lambda>(q, _). 0 \<le> int q) segs1 = segs1" by (simp add: split_def)
  with wal_truncate_exact [OF w1(2), of 0] w(1) w1(1,3) show ?thesis by auto
qed

text \<open>The length field of a label value is 16 bits wide and is not checked: a record whose only
  label has a value of 65536 bytes is decoded to a record whose label has the empty value, so the
  record that is replayed is for another series than the one logged.\<close>

theorem wal_long_value_corrupts:
  assumes "labels_ok L" and "length n < 2 ^ 16" and "length v = 2 ^ 16" and "lrange L (wrLabels r) = [(n, v)]"
  shows "\<exists>r'. decodeWALRecord L (encodeWALRecord L r @ rest) = Inr (r', rest) \<and>
    lrange L (wrLabels r') = [(n, '''')] \<and> \<not> lequal L (wrLabels r') (wrLabels r)"
  using decode_wrapped [OF assms(2-4), of rest] assms(1,3,4)
  by (auto simp: lequal_law lscratch_law)

theorem wal_long_value_corrupts_witness:
  "\<exists>r'. decodeWALRecord (list_labels poly_hash)
      (encodeWALRecord (list_labels poly_hash) \<lparr>wrLabels = [(''a'', replicate 65536 CHR ''x'')], wrT = 0, wrV = 0\<rparr> @ []) = Inr (r', [])
    \<and> lrange (list_labels poly_hash) (wrLabels r') = [(''a'', '''')]
    \<and> \<not> lequal (list_labels poly_hash) (wrLabels r') [(''a'', replicate 65536 CHR ''x'')]"
  using wal_long_value_corrupts [OF list_labels_ok, of "''a''" "replicate 65536 CHR ''x''" poly_hash
      "\<lparr>wrLabels = [(''a'', replicate 65536 CHR ''x'')], wrT = 0, wrV = 0\<rparr>" "[]"]
  by (simp add: list_labels_def)

end
