(* ===== verification/Block.thy ===== *)
theory Block
  imports StoreApi FileSys
begin

text \<open>
  \<open>internal/store/block.go\<close>: immutable blocks on disk. A block is a directory with the files
  \<open>meta.json\<close> and \<open>data.json\<close>. A file is modelled by the JSON value it decodes to: integers and
  finite floats survive Go's JSON encoding exactly, a NaN or an infinity makes the encoder fail, and
  the text of a label set is produced and read by the labels package (\<open>labels_json\<close>).
\<close>

section \<open>Data\<close>

record blockMeta =
  bmMinTime :: i64
  bmMaxTime :: i64
  bmSamples :: int

record 'l blockSeries =
  bsLabels :: "'l"
  bsSamples :: "sample list"

record 'l block =
  blDir :: string
  blMeta :: blockMeta
  blSeries :: "'l blockSeries list"

text \<open>\<open>Labels.MarshalJSON\<close> and \<open>Labels.UnmarshalJSON\<close>, which the JSON package calls.\<close>

record 'l labels_json =
  ljMarshal :: "'l \<Rightarrow> string"
  ljUnmarshal :: "string \<Rightarrow> 'l option"

text \<open>The label sets that survive a round trip through JSON (valid UTF-8, unique names).\<close>

definition json_ok :: "'l labels_api \<Rightarrow> 'l labels_json \<Rightarrow> 'l \<Rightarrow> bool" where
  "json_ok L J l \<longleftrightarrow>
     (case ljUnmarshal J (ljMarshal J l) of Some l' \<Rightarrow> lequal L l' l | None \<Rightarrow> False)"

text \<open>A file: what its JSON decodes to, or not (completely) JSON, such as an empty file.\<close>

datatype blockFile =
    MetaJson blockMeta
  | DataJson "(string \<times> sample list) list"
  | NotJson

text \<open>An entry of the blocks directory: a block's own directory, or a regular file.\<close>

datatype blocksEntry = BlockDir "blockFile dir" | OtherFile

type_synonym blocksDir = "(string \<times> blocksEntry) list"

definition is_finite_f64 :: "f64 \<Rightarrow> bool" where
  "is_finite_f64 v \<longleftrightarrow> take_bit 11 (drop_bit 52 v) \<noteq> 2047"

section \<open>Writing and reading a block\<close>

text \<open>The system calls that can fail in \<open>writeBlock\<close>.\<close>

datatype block_outcome =
  BlockOk | MkdirFails | MetaCreateFails | MetaWriteFails | DataCreateFails | DataWriteFails

text \<open>\<open>json.Encoder.Encode\<close> of the series: it fails as a whole when a value is not finite.\<close>

definition encodeSeries :: "'l labels_json \<Rightarrow> 'l blockSeries list \<Rightarrow> blockFile option" where
  "encodeSeries J ss =
     (if \<forall>bs \<in> set ss. \<forall>x \<in> set (bsSamples bs). is_finite_f64 (sV x)
      then Some (DataJson (map (\<lambda>bs. (ljMarshal J (bsLabels bs), bsSamples bs)) ss))
      else None)"

fun decodeSeries :: "'l labels_json \<Rightarrow> (string \<times> sample list) list \<Rightarrow> 'l blockSeries list option" where
  "decodeSeries J [] = Some []"
| "decodeSeries J ((t, ss) # rest) =
     (case ljUnmarshal J t of
        None \<Rightarrow> None
      | Some l \<Rightarrow>
          (case decodeSeries J rest of
             None \<Rightarrow> None
           | Some bss \<Rightarrow> Some (\<lparr>bsLabels = l, bsSamples = ss\<rparr> # bss)))"

text \<open>\<open>os.Create\<close> truncates: the file is in the directory, empty, before it is written.\<close>

definition writeBlock ::
  "'l labels_json \<Rightarrow> block_outcome \<Rightarrow> blocksDir \<Rightarrow> string \<Rightarrow> 'l blockSeries list \<Rightarrow> i64 \<Rightarrow> i64
     \<Rightarrow> (string + 'l block) \<times> blocksDir" where
  "writeBlock J io d dir ss mint maxt =
     (let files = (case map_of d dir of Some (BlockDir f) \<Rightarrow> Some f | Some OtherFile \<Rightarrow> None | None \<Rightarrow> Some []);
          at = (\<lambda>f. dir_put dir (BlockDir f) d)
      in case (if io = MkdirFails then None else files) of
           None \<Rightarrow> (Inl ''creating block dir'', d)
         | Some f0 \<Rightarrow>
             let sampleCount = sum_list (map (\<lambda>s. int (length (bsSamples s))) ss);
                 meta = \<lparr>bmMinTime = mint, bmMaxTime = maxt, bmSamples = sampleCount\<rparr>;
                 f1 = dir_put ''meta.json'' (File NotJson) f0;
                 f2 = dir_put ''meta.json'' (File (MetaJson meta)) f0;
                 f3 = dir_put ''data.json'' (File NotJson) f2
             in if io = MetaCreateFails \<or> map_of f0 ''meta.json'' = Some SubDir then (Inl ''creating meta file'', at f0)
                else if io = MetaWriteFails then (Inl ''writing meta'', at f1)
                else if io = DataCreateFails \<or> map_of f0 ''data.json'' = Some SubDir then (Inl ''creating data file'', at f2)
                else case (if io = DataWriteFails then None else encodeSeries J ss) of
                       None \<Rightarrow> (Inl ''writing data'', at f3)
                     | Some data \<Rightarrow>
                         (Inr \<lparr>blDir = dir, blMeta = meta, blSeries = ss\<rparr>,
                          at (dir_put ''data.json'' (File data) f2)))"

definition openBlock :: "'l labels_json \<Rightarrow> string \<Rightarrow> blockFile dir \<Rightarrow> string + 'l block" where
  "openBlock J dir files =
     (case map_of files ''meta.json'' of
        Some (File (MetaJson meta)) \<Rightarrow>
          (case map_of files ''data.json'' of
             Some (File (DataJson xs)) \<Rightarrow>
               (case decodeSeries J xs of
                  None \<Rightarrow> Inl ''decoding data''
                | Some ss \<Rightarrow> Inr \<lparr>blDir = dir, blMeta = meta, blSeries = ss\<rparr>)
           | Some (File _) \<Rightarrow> Inl ''decoding data''
           | Some SubDir \<Rightarrow> Inl ''decoding data''
           | None \<Rightarrow> Inl ''opening data'')
      | Some (File _) \<Rightarrow> Inl ''decoding meta''
      | Some SubDir \<Rightarrow> Inl ''decoding meta''
      | None \<Rightarrow> Inl ''opening meta'')"

text \<open>
  \<open>blockDiskSize\<close>: the sizes of the directory's entries; \<open>info\<close> is \<open>e.Info().Size()\<close>, \<open>None\<close> when it
  fails. A missing directory has size 0 and an error, which the callers ignore.
\<close>

definition blockDiskSize :: "(string \<Rightarrow> blockFile entry \<Rightarrow> int option) \<Rightarrow> blocksDir \<Rightarrow> string \<Rightarrow> int" where
  "blockDiskSize info d dir =
     (case map_of d dir of
        Some (BlockDir files) \<Rightarrow>
          foldl (\<lambda>total (n, e). case info n e of None \<Rightarrow> total | Some sz \<Rightarrow> total + sz) 0 (readDir files)
      | _ \<Rightarrow> 0)"

section \<open>Querying\<close>

fun selectLoop :: "'l labels_api \<Rightarrow> 'l blockSeries list \<Rightarrow> i64 \<Rightarrow> i64 \<Rightarrow> matcher list \<Rightarrow> 'l series list" where
  "selectLoop L [] mint maxt ms = []"
| "selectLoop L (bs # bss) mint maxt ms =
     (if \<not> matchesAll L (bsLabels bs) ms then selectLoop L bss mint maxt ms
      else
        let samples = filterSamples (bsSamples bs) mint maxt
        in if samples = [] then selectLoop L bss mint maxt ms
           else \<lparr>srLabels = bsLabels bs, srSamples = samples\<rparr> # selectLoop L bss mint maxt ms)"

definition selectSeries ::
  "'l labels_api \<Rightarrow> ('l series list \<Rightarrow> 'l series list) \<Rightarrow> 'l block \<Rightarrow> bool \<Rightarrow> i64 \<Rightarrow> i64 \<Rightarrow> matcher list
     \<Rightarrow> 'l series list" where
  "selectSeries L srt b sortSeries mint maxt ms =
     (let result = selectLoop L (blSeries b) mint maxt ms
      in if sortSeries then srt result else result)"

section \<open>Compaction\<close>

text \<open>One series of one block is merged into the map keyed by the label hash.\<close>

definition mergeSeries ::
  "'l labels_api \<Rightarrow> (u64 \<rightharpoonup> 'l blockSeries) \<Rightarrow> 'l blockSeries \<Rightarrow> (u64 \<rightharpoonup> 'l blockSeries)" where
  "mergeSeries L m bs =
     (let fp = lhash L (bsLabels bs)
      in case m fp of
           Some existing \<Rightarrow>
             if lequal L (bsLabels existing) (bsLabels bs)
             then m(fp \<mapsto> existing\<lparr>bsSamples := bsSamples existing @ bsSamples bs\<rparr>)
             else m
         | None \<Rightarrow> m(fp \<mapsto> \<lparr>bsLabels = bsLabels bs, bsSamples = bsSamples bs\<rparr>))"

fun timeBounds :: "bool \<Rightarrow> i64 \<Rightarrow> i64 \<Rightarrow> 'l block list \<Rightarrow> i64 \<times> i64" where
  "timeBounds first mint maxt [] = (mint, maxt)"
| "timeBounds first mint maxt (b # bs) =
     timeBounds False
       (if first \<or> sint (bmMinTime (blMeta b)) < sint mint then bmMinTime (blMeta b) else mint)
       (if first \<or> sint (bmMaxTime (blMeta b)) > sint maxt then bmMaxTime (blMeta b) else maxt) bs"

text \<open>\<open>dedup\<close> keeps the first sample of each run of equal timestamps; \<open>result\<close> grows in place.\<close>

fun dedupLoop :: "sample list \<Rightarrow> sample list \<Rightarrow> sample list" where
  "dedupLoop result [] = result"
| "dedupLoop result (s # ss) =
     dedupLoop (if sT s \<noteq> sT (last result) then result @ [s] else result) ss"

definition dedup :: "sample list \<Rightarrow> sample list" where
  "dedup samples = (if length samples \<le> 1 then samples else dedupLoop (take 1 samples) (drop 1 samples))"

definition sample_less :: "sample \<Rightarrow> sample \<Rightarrow> bool" where
  "sample_less a b \<longleftrightarrow> sint (sT a) < sint (sT b)"

text \<open>\<open>ks\<close> is the order in which the map is ranged over, \<open>srt\<close> is \<open>sort.Slice\<close> by time.\<close>

definition mergeBlocks :: "'l labels_api \<Rightarrow> 'l block list \<Rightarrow> (u64 \<rightharpoonup> 'l blockSeries)" where
  "mergeBlocks L bs = foldl (mergeSeries L) Map.empty (concat (map blSeries bs))"

definition mergedSeries ::
  "'l labels_api \<Rightarrow> (sample list \<Rightarrow> sample list) \<Rightarrow> u64 list \<Rightarrow> 'l block list \<Rightarrow> 'l blockSeries list" where
  "mergedSeries L srt ks bs =
     map (\<lambda>x. x\<lparr>bsSamples := dedup (srt (bsSamples x))\<rparr>) (visit ks (mergeBlocks L bs))"

definition compactBlocks ::
  "'l labels_api \<Rightarrow> 'l labels_json \<Rightarrow> (sample list \<Rightarrow> sample list) \<Rightarrow> u64 list \<Rightarrow> block_outcome \<Rightarrow>
     blocksDir \<Rightarrow> string \<Rightarrow> 'l block list \<Rightarrow> (string + 'l block) \<times> blocksDir" where
  "compactBlocks L J srt ks io d targetDir bs =
     (case timeBounds True 0 0 bs of
        (mint, maxt) \<Rightarrow> writeBlock J io d targetDir (mergedSeries L srt ks bs) mint maxt)"

section \<open>The content of a block\<close>

text \<open>The samples a list of series holds for a label set, in the order of the list.\<close>

definition series_samples :: "'l labels_api \<Rightarrow> 'l blockSeries list \<Rightarrow> 'l \<Rightarrow> sample list" where
  "series_samples L ss l = concat (map bsSamples (filter (\<lambda>bs. lequal L (bsLabels bs) l) ss))"

text \<open>A block in good order: no label set twice, every sample within the time range of the meta data.\<close>

definition block_ok :: "'l labels_api \<Rightarrow> 'l block \<Rightarrow> bool" where
  "block_ok L b \<longleftrightarrow> distinct (map (\<lambda>bs. lrange L (bsLabels bs)) (blSeries b)) \<and>
     (\<forall>bs \<in> set (blSeries b). \<forall>x \<in> set (bsSamples bs).
        sint (bmMinTime (blMeta b)) \<le> sint (sT x) \<and> sint (sT x) \<le> sint (bmMaxTime (blMeta b)))"

lemma series_samples_append [simp]:
  "series_samples L (ss @ ss') l = series_samples L ss l @ series_samples L ss' l"
  by (simp add: series_samples_def)

lemma series_samples_Nil [simp]: "series_samples L [] l = []"
  by (simp add: series_samples_def)

lemma series_samples_Cons:
  "series_samples L (bs # ss) l = (if lequal L (bsLabels bs) l then bsSamples bs else []) @ series_samples L ss l"
  by (simp add: series_samples_def)

lemma set_series_samples:
  "set (series_samples L ss l) = (\<Union>bs \<in> {bs \<in> set ss. lequal L (bsLabels bs) l}. set (bsSamples bs))"
  by (simp add: series_samples_def)

lemma series_samples_member:
  assumes L: "labels_ok L" and "distinct (map (\<lambda>bs. lrange L (bsLabels bs)) ss)" and "bs \<in> set ss"
  shows "series_samples L ss (bsLabels bs) = bsSamples bs"
  using assms(2,3)
proof (induction ss)
  case (Cons x ss)
  show ?case
  proof (cases "bs = x")
    case True
    then have "\<forall>y \<in> set ss. \<not> lequal L (bsLabels y) (bsLabels bs)"
      using Cons.prems(1) by (auto simp: lequal_law [OF L] image_iff)
    then have "series_samples L ss (bsLabels bs) = []" by (auto simp: series_samples_def filter_empty_conv)
    with True L show ?thesis by (simp add: series_samples_Cons lequal_refl)
  next
    case False
    then have "bs \<in> set ss" using Cons.prems(2) by simp
    moreover from this have "\<not> lequal L (bsLabels x) (bsLabels bs)"
      using Cons.prems(1) by (auto simp: lequal_law [OF L] image_iff)
    ultimately show ?thesis using Cons by (simp add: series_samples_Cons)
  qed
qed simp

lemma series_samples_cong:
  "labels_ok L \<Longrightarrow> lequal L l l' \<Longrightarrow> series_samples L ss l = series_samples L ss l'"
  by (simp add: series_samples_def lequal_law)

text \<open>Lists of series that differ only in the representation of the label sets have the same content.\<close>

definition same_series :: "'l labels_api \<Rightarrow> 'l blockSeries \<Rightarrow> 'l blockSeries \<Rightarrow> bool" where
  "same_series L x y \<longleftrightarrow> lequal L (bsLabels x) (bsLabels y) \<and> bsSamples x = bsSamples y"

lemma same_series_samples:
  "labels_ok L \<Longrightarrow> list_all2 (same_series L) ss ss' \<Longrightarrow> series_samples L ss l = series_samples L ss' l"
  unfolding series_samples_def
  by (induction ss arbitrary: ss') (auto simp: list_all2_Cons1 same_series_def lequal_law)

section \<open>Disk round trip\<close>

lemma decode_encodeSeries:
  assumes "\<forall>bs \<in> set ss. json_ok L J (bsLabels bs)"
  shows "\<exists>ss'. decodeSeries J (map (\<lambda>bs. (ljMarshal J (bsLabels bs), bsSamples bs)) ss) = Some ss' \<and>
    list_all2 (same_series L) ss' ss"
  using assms
  by (induction ss) (auto simp: json_ok_def same_series_def split: option.splits)

lemma encodeSeries_finite:
  "\<forall>bs \<in> set ss. \<forall>x \<in> set (bsSamples bs). is_finite_f64 (sV x) \<Longrightarrow>
   encodeSeries J ss = Some (DataJson (map (\<lambda>bs. (ljMarshal J (bsLabels bs), bsSamples bs)) ss))"
  by (simp add: encodeSeries_def)

text \<open>A directory in which \<open>writeBlock\<close> can create its files.\<close>

definition block_target :: "blocksDir \<Rightarrow> string \<Rightarrow> bool" where
  "block_target d dir \<longleftrightarrow>
     (case map_of d dir of
        None \<Rightarrow> True
      | Some OtherFile \<Rightarrow> False
      | Some (BlockDir f) \<Rightarrow> map_of f ''meta.json'' \<noteq> Some SubDir \<and> map_of f ''data.json'' \<noteq> Some SubDir)"

lemma writeBlock_ok:
  assumes "block_target d dir" and "\<forall>bs \<in> set ss. \<forall>x \<in> set (bsSamples bs). is_finite_f64 (sV x)"
  obtains meta files where "writeBlock J BlockOk d dir ss mint maxt
      = (Inr \<lparr>blDir = dir, blMeta = meta, blSeries = ss\<rparr>, dir_put dir (BlockDir files) d)"
    "bmMinTime meta = mint" "bmMaxTime meta = maxt"
    "map_of files ''meta.json'' = Some (File (MetaJson meta))"
    "map_of files ''data.json'' = Some (File (DataJson (map (\<lambda>bs. (ljMarshal J (bsLabels bs), bsSamples bs)) ss)))"
proof -
  obtain f0 where f0: "(case map_of d dir of Some (BlockDir f) \<Rightarrow> Some f | Some OtherFile \<Rightarrow> None | None \<Rightarrow> Some []) = Some f0"
    "map_of f0 ''meta.json'' \<noteq> Some SubDir" "map_of f0 ''data.json'' \<noteq> Some SubDir"
    using assms(1) by (auto simp: block_target_def split: option.splits blocksEntry.splits)
  define meta where "meta = \<lparr>bmMinTime = mint, bmMaxTime = maxt, bmSamples = sum_list (map (\<lambda>s. int (length (bsSamples s))) ss)\<rparr>"
  define data where "data = DataJson (map (\<lambda>bs. (ljMarshal J (bsLabels bs), bsSamples bs)) ss)"
  define files where "files = dir_put ''data.json'' (File data) (dir_put ''meta.json'' (File (MetaJson meta)) f0)"
  have "writeBlock J BlockOk d dir ss mint maxt
      = (Inr \<lparr>blDir = dir, blMeta = meta, blSeries = ss\<rparr>, dir_put dir (BlockDir files) d)"
    using f0(2,3) by (simp add: writeBlock_def f0(1) encodeSeries_finite [OF assms(2)] Let_def
        meta_def [symmetric] data_def [symmetric] files_def)
  moreover have "map_of files ''meta.json'' = Some (File (MetaJson meta))" "map_of files ''data.json'' = Some (File data)"
    by (simp_all add: files_def)
  moreover have "bmMinTime meta = mint" "bmMaxTime meta = maxt" by (simp_all add: meta_def)
  ultimately show thesis unfolding data_def by (intro that)
qed

lemma openBlock_written:
  assumes "\<forall>bs \<in> set ss. json_ok L J (bsLabels bs)"
    and "map_of files ''meta.json'' = Some (File (MetaJson meta))"
    and "map_of files ''data.json'' = Some (File (DataJson (map (\<lambda>bs. (ljMarshal J (bsLabels bs), bsSamples bs)) ss)))"
  shows "\<exists>b. openBlock J dir files = Inr b \<and> blDir b = dir \<and> blMeta b = meta \<and>
    list_all2 (same_series L) (blSeries b) ss"
  using decode_encodeSeries [OF assms(1)] assms(2,3) by (auto simp: openBlock_def)

text \<open>After a failed write the directory does not open as a block, unless it held one before.\<close>

lemma openBlock_partial [simp]:
  "isl (openBlock J dir (dir_put ''data.json'' (File NotJson) f))"
  "isl (openBlock J dir (dir_put ''meta.json'' (File NotJson) f))"
  "isl (openBlock J dir (dir_put ''meta.json'' x []))"
  "isl (openBlock J dir [])"
  by (auto simp: openBlock_def split: option.splits entry.splits blockFile.splits)

lemma writeBlock_failed:
  assumes fresh: "map_of d dir = None" and fail: "writeBlock J io d dir ss mint maxt = (Inl e, d')"
  shows "(map_of d' dir = None \<or> (\<exists>files. map_of d' dir = Some (BlockDir files) \<and> isl (openBlock J dir files)))
    \<and> (\<forall>n. n \<noteq> dir \<longrightarrow> map_of d' n = map_of d n)"
  using fail fresh by (auto simp: writeBlock_def Let_def split: if_splits option.splits)

section \<open>Querying a block\<close>

lemma set_selectLoop:
  "r \<in> set (selectLoop L ss mint maxt ms) \<longleftrightarrow>
    (\<exists>bs \<in> set ss. matchesAll L (bsLabels bs) ms \<and> filter (in_range mint maxt) (bsSamples bs) \<noteq> [] \<and>
       r = \<lparr>srLabels = bsLabels bs, srSamples = filter (in_range mint maxt) (bsSamples bs)\<rparr>)"
  by (induction ss) (auto simp: Let_def filterSamples_filter)

lemma distinct_selectLoop:
  "distinct (map (\<lambda>bs. lrange L (bsLabels bs)) ss) \<Longrightarrow>
   distinct (map (\<lambda>r. lrange L (srLabels r)) (selectLoop L ss mint maxt ms))"
  by (induction ss) (auto simp: Let_def set_selectLoop)

lemma selectLoop_spec:
  assumes L: "labels_ok L" and distinct: "distinct (map (\<lambda>bs. lrange L (bsLabels bs)) ss)"
  shows "select_spec L ms mint maxt (series_samples L ss) (selectLoop L ss mint maxt ms)"
proof -
  have "\<exists>r \<in> set (selectLoop L ss mint maxt ms). lequal L (srLabels r) l"
    if "matchesAll L l ms" and nonempty: "filter (in_range mint maxt) (series_samples L ss l) \<noteq> []" for l
  proof -
    obtain x bs where bs: "x \<in> set (bsSamples bs)" "in_range mint maxt x" "bs \<in> set ss" "lequal L (bsLabels bs) l"
      using nonempty by (auto simp: filter_empty_conv set_series_samples)
    then have "matchesAll L (bsLabels bs) ms"
      using that(1) matchesAll_cong [OF L] by blast
    with bs have "\<lparr>srLabels = bsLabels bs, srSamples = filter (in_range mint maxt) (bsSamples bs)\<rparr>
        \<in> set (selectLoop L ss mint maxt ms)"
      by (auto simp: set_selectLoop filter_empty_conv)
    with bs(4) show ?thesis by force
  qed
  then show ?thesis
    using distinct_selectLoop [OF distinct] series_samples_member [OF L distinct]
    by (auto simp: select_spec_def set_selectLoop)
qed

text \<open>A block whose meta range misses the query has nothing to answer.\<close>

lemma selectLoop_outside:
  assumes "block_ok L b" and "sint (bmMaxTime (blMeta b)) < sint mint \<or> sint maxt < sint (bmMinTime (blMeta b))"
  shows "filter (in_range mint maxt) (series_samples L (blSeries b) l) = []"
  using assms by (fastforce simp: block_ok_def filter_empty_conv set_series_samples in_range_def)

section \<open>Compaction\<close>

text \<open>What the hash-keyed map holds: the series of the first label set seen under each hash.\<close>

definition merged_entry :: "'l labels_api \<Rightarrow> 'l blockSeries list \<Rightarrow> u64 \<Rightarrow> 'l blockSeries option" where
  "merged_entry L ss fp =
     (case filter (\<lambda>bs. lhash L (bsLabels bs) = fp) ss of
        [] \<Rightarrow> None
      | b # _ \<Rightarrow> Some \<lparr>bsLabels = bsLabels b, bsSamples = series_samples L ss (bsLabels b)\<rparr>)"

lemma series_samples_hash_none:
  assumes L: "labels_ok L" and "filter (\<lambda>bs. lhash L (bsLabels bs) = lhash L l) ss = []"
  shows "series_samples L ss l = []"
  using assms(2) lhash_law [OF L] by (auto simp: series_samples_def filter_empty_conv)

lemma merged_entry_snoc:
  assumes L: "labels_ok L"
  shows "merged_entry L (ss @ [bs]) = mergeSeries L (merged_entry L ss) bs"
proof (rule ext)
  fix fp
  let ?h = "lhash L (bsLabels bs)" and ?F = "filter (\<lambda>x. lhash L (bsLabels x) = fp) ss"
  have hash: "lhash L (bsLabels b) = fp" if "?F = b # r" for b r
    using that by (auto dest: filter_eq_ConsD)
  show "merged_entry L (ss @ [bs]) fp = mergeSeries L (merged_entry L ss) bs fp"
  proof (cases "fp = ?h")
    case False
    have "series_samples L (ss @ [bs]) (bsLabels b) = series_samples L ss (bsLabels b)" if "?F = b # r" for b r
      using hash [OF that] False lhash_law [OF L] by (auto simp: series_samples_Cons)
    with False show ?thesis
      by (auto simp: mergeSeries_def merged_entry_def Let_def split: list.splits option.splits)
  next
    case True
    show ?thesis
    proof (cases ?F)
      case Nil
      then have "series_samples L ss (bsLabels bs) = []"
        using series_samples_hash_none [OF L] True by simp
      with Nil True show ?thesis
        by (simp add: mergeSeries_def merged_entry_def series_samples_Cons lequal_refl [OF L])
    next
      case (Cons b r)
      then have "merged_entry L ss ?h = Some \<lparr>bsLabels = bsLabels b, bsSamples = series_samples L ss (bsLabels b)\<rparr>"
        using True by (simp add: merged_entry_def)
      moreover have "lequal L (bsLabels b) (bsLabels bs) \<longleftrightarrow> lequal L (bsLabels bs) (bsLabels b)"
        using lequal_sym [OF L] by blast
      ultimately show ?thesis
        using Cons True by (simp add: mergeSeries_def merged_entry_def series_samples_Cons Let_def)
    qed
  qed
qed

lemma foldl_mergeSeries: "labels_ok L \<Longrightarrow> foldl (mergeSeries L) Map.empty ss = merged_entry L ss"
proof (induction ss rule: rev_induct)
  case Nil
  show ?case by (simp add: merged_entry_def fun_eq_iff)
next
  case (snoc bs ss)
  then show ?case by (simp add: merged_entry_snoc)
qed

lemma dedupLoop_spec:
  assumes "acc \<noteq> []" and "sorted_wrt (<) (map (sint \<circ> sT) acc)"
    and "sorted (map (sint \<circ> sT) (last acc # ss))"
  shows "sorted_wrt (<) (map (sint \<circ> sT) (dedupLoop acc ss)) \<and>
    sT ` set (dedupLoop acc ss) = sT ` set acc \<union> sT ` set ss \<and>
    set (dedupLoop acc ss) \<subseteq> set acc \<union> set ss"
  using assms
proof (induction ss arbitrary: acc)
  case Nil
  then show ?case by simp
next
  case (Cons s ss)
  show ?case
  proof (cases "sT s = sT (last acc)")
    case True
    moreover have "sT s \<in> sT ` set acc" using True Cons.prems(1) by simp
    ultimately show ?thesis using Cons.IH [OF Cons.prems(1,2)] Cons.prems(3) by auto
  next
    case False
    have acc: "acc = butlast acc @ [last acc]" using Cons.prems(1) by simp
    have "sint (sT (last acc)) < sint (sT s)"
      using Cons.prems(3) False by (auto simp: order_less_le sint_inj)
    moreover have "\<forall>x \<in> set acc. sint (sT x) \<le> sint (sT (last acc))"
      using Cons.prems(2) by (subst (asm) acc, subst acc) (auto simp: sorted_wrt_append)
    ultimately have "sorted_wrt (<) (map (sint \<circ> sT) (acc @ [s]))"
      using Cons.prems(2) by (auto simp: sorted_wrt_append comp_def)
    from Cons.IH [OF _ this] Cons.prems(3) False show ?thesis by auto
  qed
qed

lemma dedup_spec:
  assumes "sorted (map (sint \<circ> sT) ss)"
  shows "sorted_wrt (<) (map (sint \<circ> sT) (dedup ss)) \<and> sT ` set (dedup ss) = sT ` set ss \<and>
    set (dedup ss) \<subseteq> set ss"
proof (cases ss)
  case Nil
  then show ?thesis by (simp add: dedup_def)
next
  case (Cons s rest)
  with assms dedupLoop_spec [of "[s]" rest] show ?thesis by (auto simp: dedup_def)
qed

lemma dedup_sort_spec:
  assumes "is_sort sample_less srt"
  shows "sorted_wrt (<) (map (sint \<circ> sT) (dedup (srt ss))) \<and> sT ` set (dedup (srt ss)) = sT ` set ss \<and>
    set (dedup (srt ss)) \<subseteq> set ss"
proof -
  have "sorted (map (sint \<circ> sT) (srt ss))"
    using is_sort_sorted [OF assms, of ss] by (simp add: sorted_map sample_less_def not_less)
  from dedup_spec [OF this] show ?thesis by (simp add: is_sort_set [OF assms])
qed

text \<open>No two different label sets of the blocks have the same hash.\<close>

definition no_collision :: "'l labels_api \<Rightarrow> 'l blockSeries list \<Rightarrow> bool" where
  "no_collision L ss \<longleftrightarrow>
     (\<forall>a \<in> set ss. \<forall>b \<in> set ss. lhash L (bsLabels a) = lhash L (bsLabels b) \<longrightarrow> lequal L (bsLabels a) (bsLabels b))"

definition blocks_samples :: "'l labels_api \<Rightarrow> 'l block list \<Rightarrow> 'l \<Rightarrow> sample list" where
  "blocks_samples L bs l = series_samples L (concat (map blSeries bs)) l"

lemma mergeBlocks_eq: "labels_ok L \<Longrightarrow> mergeBlocks L bs = merged_entry L (concat (map blSeries bs))"
  by (simp add: mergeBlocks_def foldl_mergeSeries)

lemma merged_entry_hash:
  "merged_entry L ss fp = Some x \<Longrightarrow> lhash L (bsLabels x) = fp"
  by (auto simp: merged_entry_def split: list.splits dest: filter_eq_ConsD)

lemma merged_entry_member:
  assumes "merged_entry L ss fp = Some x"
  shows "bsSamples x = series_samples L ss (bsLabels x)" and "\<exists>b \<in> set ss. bsLabels b = bsLabels x"
  using assms by (auto simp: merged_entry_def split: list.splits dest: filter_eq_ConsD)

lemma series_samples_merged:
  assumes L: "labels_ok L" and ks: "ranges ks (mergeBlocks L bs)"
  shows "series_samples L (mergedSeries L srt ks bs) l =
    (case mergeBlocks L bs (lhash L l) of
       Some x \<Rightarrow> if lequal L (bsLabels x) l then dedup (srt (bsSamples x)) else []
     | None \<Rightarrow> [])"
proof -
  let ?m = "mergeBlocks L bs"
  have only: "k' = lhash L l" if "?m k' = Some x" "lequal L (bsLabels x) l" for k' x
    using that merged_entry_hash lhash_law [OF L] by (metis mergeBlocks_eq [OF L])
  have "filter (\<lambda>x. lequal L (bsLabels x) l) (mergedSeries L srt ks bs)
      = map (\<lambda>x. x\<lparr>bsSamples := dedup (srt (bsSamples x))\<rparr>) (filter (\<lambda>x. lequal L (bsLabels x) l) (visit ks ?m))"
    by (simp add: mergedSeries_def filter_map comp_def)
  also have "filter (\<lambda>x. lequal L (bsLabels x) l) (visit ks ?m)
      = (case ?m (lhash L l) of Some x \<Rightarrow> if lequal L (bsLabels x) l then [x] else [] | None \<Rightarrow> [])"
    by (rule filter_visit [OF ks]) (rule only)
  finally show ?thesis by (simp add: series_samples_def split: option.split)
qed

lemma is_sort_Nil: "is_sort lt srt \<Longrightarrow> srt [] = []"
  using is_sort_length [of lt srt "[]"] by simp

lemma series_samples_compacted:
  assumes L: "labels_ok L" and ks: "ranges ks (mergeBlocks L bs)" and srt: "is_sort sample_less srt"
    and hash: "no_collision L (concat (map blSeries bs))"
  shows "series_samples L (mergedSeries L srt ks bs) l = dedup (srt (blocks_samples L bs l))"
proof -
  let ?ss = "concat (map blSeries bs)"
  let ?F = "filter (\<lambda>b. lhash L (bsLabels b) = lhash L l) ?ss"
  have empty: "dedup (srt []) = []" using is_sort_Nil [OF srt] by (simp add: dedup_def)
  show ?thesis
  proof (cases ?F)
    case Nil
    then have "merged_entry L ?ss (lhash L l) = None" by (simp add: merged_entry_def)
    with series_samples_hash_none [OF L Nil] empty show ?thesis
      by (simp add: series_samples_merged [OF L ks] mergeBlocks_eq [OF L] blocks_samples_def)
  next
    case (Cons b r)
    then have entry: "merged_entry L ?ss (lhash L l) = Some \<lparr>bsLabels = bsLabels b, bsSamples = series_samples L ?ss (bsLabels b)\<rparr>"
      by (simp add: merged_entry_def)
    have "b \<in> set ?F" using Cons by simp
    then have b: "b \<in> set ?ss" "lhash L (bsLabels b) = lhash L l" by auto
    show ?thesis
    proof (cases "lequal L (bsLabels b) l")
      case True
      with entry series_samples_cong [OF L True, of ?ss] show ?thesis
        by (simp add: series_samples_merged [OF L ks] mergeBlocks_eq [OF L] blocks_samples_def)
    next
      case False
      have "\<not> lequal L (bsLabels c) l" if "c \<in> set ?ss" for c
      proof
        assume c: "lequal L (bsLabels c) l"
        then have "lhash L (bsLabels c) = lhash L (bsLabels b)" using lhash_law [OF L c] b(2) by simp
        with hash that b(1) have "lequal L (bsLabels b) (bsLabels c)" unfolding no_collision_def by metis
        with c False show False using lequal_trans [OF L] by blast
      qed
      then have "series_samples L ?ss l = []" by (simp add: series_samples_def filter_empty_conv)
      with entry False empty show ?thesis
        by (simp add: series_samples_merged [OF L ks] mergeBlocks_eq [OF L] blocks_samples_def)
    qed
  qed
qed

lemma timeBounds_spec:
  assumes "timeBounds first mint maxt bs = (lo, hi)"
  shows "(\<forall>b \<in> set bs. sint lo \<le> sint (bmMinTime (blMeta b)) \<and> sint (bmMaxTime (blMeta b)) \<le> sint hi) \<and>
    (\<not> first \<longrightarrow> sint lo \<le> sint mint \<and> sint maxt \<le> sint hi)"
  using assms
proof (induction bs arbitrary: first mint maxt)
  case Nil
  then show ?case by simp
next
  case (Cons b bs)
  from Cons.IH [OF Cons.prems [unfolded timeBounds.simps]] show ?case by (auto split: if_splits)
qed

lemma distinct_merged:
  assumes L: "labels_ok L" and ks: "ranges ks (mergeBlocks L bs)"
  shows "distinct (map (\<lambda>x. lrange L (bsLabels x)) (mergedSeries L srt ks bs))"
proof -
  let ?m = "mergeBlocks L bs"
  have "distinct (map (\<lambda>x. lrange L (bsLabels x)) (visit ks' ?m))" if "distinct ks'" for ks'
    using that
  proof (induction ks')
    case (Cons k ks')
    have "lrange L (bsLabels y) \<noteq> lrange L (bsLabels x)" if xy: "?m k = Some x" "y \<in> set (visit ks' ?m)" for x y
    proof
      assume "lrange L (bsLabels y) = lrange L (bsLabels x)"
      then have "lhash L (bsLabels y) = lhash L (bsLabels x)"
        using L lhash_law by (metis lequal_law)
      moreover obtain k' where "k' \<in> set ks'" "?m k' = Some y" using xy(2) by (auto simp: set_visit)
      ultimately have "k' = k" using xy(1) merged_entry_hash by (metis mergeBlocks_eq [OF L])
      with \<open>k' \<in> set ks'\<close> Cons.prems show False by simp
    qed
    with Cons show ?case by (force split: option.splits)
  qed simp
  with ks show ?thesis by (simp add: mergedSeries_def comp_def ranges_def)
qed

lemma merged_samples_origin:
  assumes L: "labels_ok L" and ks: "ranges ks (mergeBlocks L bs)" and srt: "is_sort sample_less srt"
    and x: "x \<in> set (mergedSeries L srt ks bs)" and y: "y \<in> set (bsSamples x)"
  shows "\<exists>b \<in> set bs. \<exists>bs \<in> set (blSeries b). y \<in> set (bsSamples bs)"
proof -
  obtain z where z: "z \<in> set (visit ks (mergeBlocks L bs))" "x = z\<lparr>bsSamples := dedup (srt (bsSamples z))\<rparr>"
    using x by (auto simp: mergedSeries_def)
  then obtain k where "mergeBlocks L bs k = Some z" by (auto simp: set_visit)
  then have "bsSamples z = series_samples L (concat (map blSeries bs)) (bsLabels z)"
    using merged_entry_member(1) by (metis mergeBlocks_eq [OF L])
  moreover have "y \<in> set (bsSamples z)" using y z(2) dedup_sort_spec [OF srt] by auto
  ultimately show ?thesis by (auto simp: set_series_samples)
qed

lemma compacted_ok:
  assumes L: "labels_ok L" and ks: "ranges ks (mergeBlocks L bs)" and srt: "is_sort sample_less srt"
    and ok: "\<forall>b \<in> set bs. block_ok L b" and bounds: "timeBounds True 0 0 bs = (mint, maxt)"
    and b: "blSeries b = mergedSeries L srt ks bs" "bmMinTime (blMeta b) = mint" "bmMaxTime (blMeta b) = maxt"
  shows "block_ok L b"
proof -
  have "sint mint \<le> sint (sT y) \<and> sint (sT y) \<le> sint maxt"
    if xy: "x \<in> set (mergedSeries L srt ks bs)" "y \<in> set (bsSamples x)" for x y
  proof -
    obtain c where c: "c \<in> set bs" "\<exists>s \<in> set (blSeries c). y \<in> set (bsSamples s)"
      using merged_samples_origin [OF L ks srt xy] by blast
    then have "sint (bmMinTime (blMeta c)) \<le> sint (sT y)" "sint (sT y) \<le> sint (bmMaxTime (blMeta c))"
      using ok by (auto simp: block_ok_def)
    moreover have "sint mint \<le> sint (bmMinTime (blMeta c))" "sint (bmMaxTime (blMeta c)) \<le> sint maxt"
      using timeBounds_spec [OF bounds] c(1) by simp_all
    ultimately show ?thesis by simp
  qed
  with distinct_merged [OF L ks] b show ?thesis by (simp add: block_ok_def)
qed

lemma merged_finite:
  assumes L: "labels_ok L" and ks: "ranges ks (mergeBlocks L bs)" and srt: "is_sort sample_less srt"
    and fin: "\<forall>b \<in> set bs. \<forall>s \<in> set (blSeries b). \<forall>x \<in> set (bsSamples s). is_finite_f64 (sV x)"
  shows "\<forall>s \<in> set (mergedSeries L srt ks bs). \<forall>x \<in> set (bsSamples s). is_finite_f64 (sV x)"
  using merged_samples_origin [OF L ks srt] fin by metis

section \<open>Properties\<close>

text \<open>A block of finite samples whose label sets survive JSON, written to a directory where its
  two files can be created, is opened again with the same meta data, the same samples and equal
  label sets.\<close>

theorem block_write_open:
  assumes "block_target d dir" and "\<forall>bs \<in> set ss. \<forall>x \<in> set (bsSamples bs). is_finite_f64 (sV x)"
    and "\<forall>bs \<in> set ss. json_ok L J (bsLabels bs)"
  shows "\<exists>b d' files b'. writeBlock J BlockOk d dir ss mint maxt = (Inr b, d') \<and>
    map_of d' dir = Some (BlockDir files) \<and> openBlock J dir files = Inr b' \<and>
    blDir b' = dir \<and> blMeta b' = blMeta b \<and> bmMinTime (blMeta b) = mint \<and> bmMaxTime (blMeta b) = maxt \<and>
    list_all2 (same_series L) (blSeries b') ss"
proof -
  obtain meta files where w: "writeBlock J BlockOk d dir ss mint maxt
      = (Inr \<lparr>blDir = dir, blMeta = meta, blSeries = ss\<rparr>, dir_put dir (BlockDir files) d)"
    "bmMinTime meta = mint" "bmMaxTime meta = maxt"
    "map_of files ''meta.json'' = Some (File (MetaJson meta))"
    "map_of files ''data.json'' = Some (File (DataJson (map (\<lambda>bs. (ljMarshal J (bsLabels bs), bsSamples bs)) ss)))"
    by (rule writeBlock_ok [OF assms(1,2)])
  from openBlock_written [OF assms(3) w(4,5)] obtain b' where
    "openBlock J dir files = Inr b'" "blDir b' = dir" "blMeta b' = meta" "list_all2 (same_series L) (blSeries b') ss" by blast
  with w show ?thesis by auto
qed

text \<open>A failed write of a block into a fresh directory touches nothing else and leaves no
  directory that opens as a block, wherever it failed, a value that JSON cannot encode included.\<close>

theorem block_write_fails:
  assumes "map_of d dir = None" and "writeBlock J io d dir ss mint maxt = (Inl e, d')"
  shows "(\<forall>files. map_of d' dir = Some (BlockDir files) \<longrightarrow> isl (openBlock J dir files)) \<and>
    (\<forall>n. n \<noteq> dir \<longrightarrow> map_of d' n = map_of d n)"
  using writeBlock_failed [OF assms] by auto

text \<open>A query of a block in good order answers exactly its matching label sets with a sample in
  range, each once and with all its samples in range; asked to sort, it answers in label order.\<close>

theorem block_select:
  assumes "labels_ok L" and "block_ok L b" and "is_sort (series_less L) srt"
  shows "let R = selectSeries L srt b sortSeries mint maxt ms in
    select_spec L ms mint maxt (series_samples L (blSeries b)) R \<and>
    (sortSeries \<longrightarrow> sorted (map (\<lambda>x. lrange L (srLabels x)) R))"
proof -
  have "select_spec L ms mint maxt (series_samples L (blSeries b)) (selectLoop L (blSeries b) mint maxt ms)"
    using assms(2) by (intro selectLoop_spec [OF assms(1)]) (simp add: block_ok_def)
  with select_spec_perm [OF is_sort_mset [OF assms(3)]] sorted_series [OF assms(1,3)] show ?thesis
    by (auto simp: selectSeries_def Let_def)
qed

text \<open>C38: Compacting blocks in good order whose label sets have different hashes writes a block in
  good order that holds, for every label set, one sample for each timestamp the blocks hold, taken
  from the blocks, in strictly increasing time order.\<close>

theorem block_compact:
  assumes "labels_ok L" and "ranges ks (mergeBlocks L bs)" and "is_sort sample_less srt"
    and "no_collision L (concat (map blSeries bs))" and "\<forall>b \<in> set bs. block_ok L b"
    and "block_target d dir"
    and "\<forall>b \<in> set bs. \<forall>s \<in> set (blSeries b). \<forall>x \<in> set (bsSamples s). is_finite_f64 (sV x)"
  shows "\<exists>b d'. compactBlocks L J srt ks BlockOk d dir bs = (Inr b, d') \<and> block_ok L b \<and>
    (\<forall>l. let new = series_samples L (blSeries b) l; old = blocks_samples L bs l in
       sT ` set new = sT ` set old \<and> set new \<subseteq> set old \<and> sorted_wrt (<) (map (sint \<circ> sT) new))"
proof -
  obtain mint maxt where bounds: "timeBounds True 0 0 bs = (mint, maxt)" by fastforce
  obtain meta files where w: "writeBlock J BlockOk d dir (mergedSeries L srt ks bs) mint maxt
      = (Inr \<lparr>blDir = dir, blMeta = meta, blSeries = mergedSeries L srt ks bs\<rparr>, dir_put dir (BlockDir files) d)"
    "bmMinTime meta = mint" "bmMaxTime meta = maxt"
    by (rule writeBlock_ok [OF assms(6) merged_finite [OF assms(1-3,7)], of J mint maxt])
  then have "compactBlocks L J srt ks BlockOk d dir bs
      = (Inr \<lparr>blDir = dir, blMeta = meta, blSeries = mergedSeries L srt ks bs\<rparr>, dir_put dir (BlockDir files) d)"
    by (simp add: compactBlocks_def bounds)
  moreover have "block_ok L \<lparr>blDir = dir, blMeta = meta, blSeries = mergedSeries L srt ks bs\<rparr>"
    using w(2,3) by (intro compacted_ok [OF assms(1-3,5) bounds]) simp_all
  ultimately show ?thesis
    using dedup_sort_spec [OF assms(3)]
    by (simp add: series_samples_compacted [OF assms(1-4)] Let_def)
qed

text \<open>The compaction map is keyed by the hash alone: the samples of a label set whose hash was
  seen before for a different label set are dropped.\<close>

theorem block_compact_collision:
  assumes "labels_ok L" and "ranges ks (mergeBlocks L bs)"
    and "filter (\<lambda>s. lhash L (bsLabels s) = lhash L l) (concat (map blSeries bs)) = s # rest"
    and "\<not> lequal L (bsLabels s) l"
  shows "series_samples L (mergedSeries L srt ks bs) l = []"
  using assms(3,4)
  by (simp add: series_samples_merged [OF assms(1,2)] mergeBlocks_eq [OF assms(1)] merged_entry_def)

section \<open>Concrete blocks\<close>

text \<open>Label sets as JSON: the list instance, with a rendering that is read back exactly.\<close>
text \<open>
  Label sets rendered as \<open>name=value;\<close> for each label; the ones whose names and values are free of
  the two separators are read back.
\<close>

fun read_pairs :: "string \<Rightarrow> string \<Rightarrow> bool \<Rightarrow> string \<Rightarrow> (string \<times> string) list" where
  "read_pairs k v inval [] = []"
| "read_pairs k v inval (c # cs) =
     (if c = CHR ''='' then read_pairs k v True cs
      else if c = CHR '';'' then (k, v) # read_pairs '''' '''' False cs
      else if inval then read_pairs k (v @ [c]) True cs
      else read_pairs (k @ [c]) v False cs)"

definition list_json :: "(string \<times> string) list labels_json" where
  "list_json = \<lparr>ljMarshal = \<lambda>l. concat (map (\<lambda>(k, v). k @ ''='' @ v @ '';'') l),
                ljUnmarshal = \<lambda>t. Some (read_pairs '''' '''' False t)\<rparr>"

abbreviation demoA :: "(string \<times> string) list" where "demoA \<equiv> [(''a'', ''1'')]"
abbreviation demoB :: "(string \<times> string) list" where "demoB \<equiv> [(''b'', ''2'')]"

abbreviation demo_series1 :: "(string \<times> string) list blockSeries list" where
  "demo_series1 \<equiv> [\<lparr>bsLabels = demoA, bsSamples = [\<lparr>sT = 5, sV = 1\<rparr>, \<lparr>sT = 7, sV = 2\<rparr>]\<rparr>,
                    \<lparr>bsLabels = demoB, bsSamples = [\<lparr>sT = 6, sV = 3\<rparr>]\<rparr>]"

abbreviation demo_series2 :: "(string \<times> string) list blockSeries list" where
  "demo_series2 \<equiv> [\<lparr>bsLabels = demoA, bsSamples = [\<lparr>sT = 9, sV = 4\<rparr>, \<lparr>sT = 7, sV = 2\<rparr>]\<rparr>]"

abbreviation demo_block1 :: "(string \<times> string) list block" where
  "demo_block1 \<equiv> \<lparr>blDir = ''b1'', blMeta = \<lparr>bmMinTime = 5, bmMaxTime = 7, bmSamples = 3\<rparr>, blSeries = demo_series1\<rparr>"

abbreviation demo_block2 :: "(string \<times> string) list block" where
  "demo_block2 \<equiv> \<lparr>blDir = ''b2'', blMeta = \<lparr>bmMinTime = 7, bmMaxTime = 9, bmSamples = 2\<rparr>, blSeries = demo_series2\<rparr>"

lemma demo_json_ok: "\<forall>bs \<in> set demo_series1. json_ok (list_labels h) list_json (bsLabels bs)"
  by (simp add: json_ok_def list_json_def list_labels_def)

lemma demo_series_finite:
  "\<forall>bs \<in> set demo_series1. \<forall>x \<in> set (bsSamples bs). is_finite_f64 (sV x)"
  "\<forall>bs \<in> set demo_series2. \<forall>x \<in> set (bsSamples bs). is_finite_f64 (sV x)"
  by (simp_all add: is_finite_f64_def)

lemma demo_blocks_ok: "block_ok (list_labels h) demo_block1" "block_ok (list_labels h) demo_block2"
  by (simp_all add: block_ok_def list_labels_def)

theorem block_write_open_witness:
  "\<exists>b d' files b'. writeBlock list_json BlockOk [] ''b1'' demo_series1 5 7 = (Inr b, d') \<and>
    map_of d' ''b1'' = Some (BlockDir files) \<and> openBlock list_json ''b1'' files = Inr b' \<and>
    list_all2 (same_series (list_labels poly_hash)) (blSeries b') demo_series1"
proof -
  have "block_target [] ''b1''" by (simp add: block_target_def)
  from block_write_open [OF this demo_series_finite(1) demo_json_ok [of poly_hash], of 5 7]
  show ?thesis by blast
qed

theorem block_write_fails_witness:
  "\<exists>e d'. writeBlock list_json BlockOk [] ''b1'' [\<lparr>bsLabels = demoA, bsSamples = [\<lparr>sT = 5, sV = 0x7FF8000000000001\<rparr>]\<rparr>] 5 5 = (Inl e, d') \<and>
    (\<forall>files. map_of d' ''b1'' = Some (BlockDir files) \<longrightarrow> isl (openBlock list_json ''b1'' files))"
proof -
  have nan: "\<not> is_finite_f64 0x7FF8000000000001" by code_simp
  obtain e d' where w: "writeBlock list_json BlockOk [] ''b1'' [\<lparr>bsLabels = demoA, bsSamples = [\<lparr>sT = 5, sV = 0x7FF8000000000001\<rparr>]\<rparr>] 5 5 = (Inl e, d')"
    using nan by (simp add: writeBlock_def encodeSeries_def Let_def)
  from w block_write_fails [OF _ w] show ?thesis by auto
qed

theorem block_select_witness:
  "let L = list_labels poly_hash; R = selectSeries L (isort (series_less L)) demo_block1 True 6 7 [] in
    select_spec L [] 6 7 (series_samples L (blSeries demo_block1)) R"
  using block_select [OF list_labels_ok demo_blocks_ok(1) isort_is_sort [OF strict_weak_series_less [OF list_labels_ok]],
      of poly_hash True 6 7 "[]"]
  by (simp add: Let_def)

lemma demo_sample_sort: "is_sort sample_less (isort sample_less)"
  unfolding sample_less_def [abs_def] by (intro isort_is_sort strict_weak_key)

lemma demo_merge_ranges:
  "ranges [lhash (list_labels poly_hash) demoA, lhash (list_labels poly_hash) demoB]
     (mergeBlocks (list_labels poly_hash) [demo_block1, demo_block2])"
proof -
  have "lhash (list_labels poly_hash) demoA \<noteq> lhash (list_labels poly_hash) demoB" by code_simp
  then show ?thesis
    by (auto simp: ranges_def mergeBlocks_eq [OF list_labels_ok] merged_entry_def split: list.splits if_splits)
qed

theorem block_compact_witness:
  "\<exists>b d'. compactBlocks (list_labels poly_hash) list_json (isort sample_less)
      [lhash (list_labels poly_hash) demoA, lhash (list_labels poly_hash) demoB] BlockOk [] ''c'' [demo_block1, demo_block2] = (Inr b, d') \<and>
    block_ok (list_labels poly_hash) b \<and> sT ` set (series_samples (list_labels poly_hash) (blSeries b) demoA) = {5, 7, 9}"
proof -
  let ?L = "list_labels poly_hash"
  have "lhash ?L demoA \<noteq> lhash ?L demoB" by code_simp
  then have "no_collision ?L (concat (map blSeries [demo_block1, demo_block2]))"
    by (simp add: no_collision_def list_labels_def)
  moreover have "sT ` set (blocks_samples ?L [demo_block1, demo_block2] demoA) = {5, 7, 9}"
    by (auto simp: blocks_samples_def series_samples_def list_labels_def)
  moreover have "block_target [] ''c''" by (simp add: block_target_def)
  ultimately show ?thesis
    using block_compact [OF list_labels_ok demo_merge_ranges demo_sample_sort, of "[]" "''c''" list_json]
      demo_blocks_ok [of poly_hash] demo_series_finite
    by (fastforce simp: Let_def)
qed

text \<open>A hash under which everything collides.\<close>

theorem block_compact_collision_witness:
  "series_samples (list_labels (\<lambda>_. 1)) (mergedSeries (list_labels (\<lambda>_. 1)) (isort sample_less) [1] [demo_block1]) demoB = []"
proof -
  have "ranges [1] (mergeBlocks (list_labels (\<lambda>_. 1)) [demo_block1])"
    unfolding mergeBlocks_eq [OF list_labels_ok] ranges_def
    by (auto simp: merged_entry_def list_labels_def split: list.splits if_splits)
  from block_compact_collision [OF list_labels_ok this, where l = demoB] show ?thesis
    by (simp add: list_labels_def)
qed

end
