(* ===== verification/FsStore.thy ===== *)
theory FsStore
  imports MemStore Wal Block
begin

text \<open>
  \<open>internal/store/fsstore.go\<close>: the persistent store, made of the in-memory head (\<open>MemStore\<close>), the
  write-ahead log and the list of open blocks. The state carries the two directories it owns: the
  log's inside \<open>fsWal\<close>, the blocks' in \<open>fsDisk\<close>. \<open>FlushHead\<close> releases its locks between its
  steps, so it is split into these steps; \<open>flushHead\<close> runs them without interruption, and
  \<open>flush_step\<close> lets commits run in between.
\<close>

section \<open>State\<close>

record fsConfig =
  fcWALSegmentSize :: int
  fcFlushAge :: int
  fcCompactionPeriod :: int
  fcRetentionAge :: int
  fcRetentionMaxSize :: int

record 'l fsStore =
  fsCfg :: fsConfig
  fsMem :: "'l memStore"
  fsWal :: wal
  fsBlocks :: "'l block list"
  fsDisk :: blocksDir

section \<open>Opening and closing\<close>

text \<open>Entries that are not directories, or do not open as a block, are skipped.\<close>

fun openEntries :: "'l labels_json \<Rightarrow> (string \<times> blocksEntry) list \<Rightarrow> 'l block list" where
  "openEntries J [] = []"
| "openEntries J ((n, OtherFile) # es) = openEntries J es"
| "openEntries J ((n, BlockDir files) # es) =
     (case openBlock J n files of
        Inl _ \<Rightarrow> openEntries J es
      | Inr b \<Rightarrow> b # openEntries J es)"

definition block_less :: "'l block \<Rightarrow> 'l block \<Rightarrow> bool" where
  "block_less a b \<longleftrightarrow> sint (bmMinTime (blMeta a)) < sint (bmMinTime (blMeta b))"

text \<open>\<open>os.MkdirAll\<close> and \<open>os.ReadDir\<close> of the blocks directory may fail.\<close>

datatype dir_outcome = DirOk | DirMkdirErr | DirReadErr

definition openBlocks ::
  "'l labels_json \<Rightarrow> ('l block list \<Rightarrow> 'l block list) \<Rightarrow> dir_outcome \<Rightarrow> blocksDir \<Rightarrow> string + 'l block list" where
  "openBlocks J srt io d =
     (case io of
        DirMkdirErr \<Rightarrow> Inl ''mkdir''
      | DirReadErr \<Rightarrow> Inl ''readdir''
      | DirOk \<Rightarrow> Inr (srt (openEntries J (readDir d))))"

text \<open>One call of the replay callback: a fresh appender, one \<open>Append\<close>, a \<open>Commit\<close>; errors are ignored.\<close>

definition replayRecord :: "'l labels_api \<Rightarrow> 'l memStore \<Rightarrow> 'l walRecord \<Rightarrow> 'l memStore" where
  "replayRecord L mem rec =
     fst (snd (memCommit L (snd (memAppend (memAppender mem) (wrLabels rec) (wrT rec) (wrV rec)))))"

text \<open>
  \<open>NewFSStore\<close> on a log directory \<open>d\<close> and a blocks directory \<open>bd\<close>. The callback runs for every
  record delivered, also when the replay fails later; a record that panics ends the process.
\<close>

definition newFSStore ::
  "'l labels_api \<Rightarrow> 'l labels_json \<Rightarrow> ('l block list \<Rightarrow> 'l block list) \<Rightarrow> open_outcome \<times> dir_outcome \<Rightarrow>
     fsConfig \<Rightarrow> byte list dir \<Rightarrow> blocksDir \<Rightarrow> string + 'l fsStore" where
  "newFSStore L J srt io cfg d bd =
     (case newWAL (fst io) d (fcWALSegmentSize cfg) of
        Inl e \<Rightarrow> Inl (''opening WAL: '' @ e)
      | Inr w \<Rightarrow>
          (case openBlocks J srt (snd io) bd of
             Inl e \<Rightarrow> Inl (''opening blocks: '' @ e)
           | Inr bs \<Rightarrow>
               (case walReplay L w of
                  (recs, Some (seg, e)) \<Rightarrow> Inl (''replaying WAL: replaying segment '' @ seg)
                | (recs, None) \<Rightarrow>
                    Inr \<lparr>fsCfg = cfg, fsMem = foldl (replayRecord L) (newMemStore 0) recs, fsWal = w,
                         fsBlocks = bs, fsDisk = bd\<rparr>)))"

definition fsClose :: "close_outcome \<Rightarrow> 'l fsStore \<Rightarrow> err \<times> 'l fsStore" where
  "fsClose io s =
     (case walClose io (fsWal s) of
        (Some e, w) \<Rightarrow> (Some (''closing WAL: '' @ e), s\<lparr>fsWal := w\<rparr>)
      | (None, w) \<Rightarrow> (None, s\<lparr>fsWal := w\<rparr>))"

section \<open>Writing\<close>

text \<open>\<open>fsAppender\<close>: the store and the pending samples of the inner \<open>memAppender\<close>.\<close>

type_synonym 'l fsAppender = "'l fsStore \<times> 'l pendingSample list"

definition fsAppender :: "'l fsStore \<Rightarrow> 'l fsAppender" where
  "fsAppender s = (s, snd (memAppender (fsMem s)))"

definition fsAppend :: "'l fsAppender \<Rightarrow> 'l \<Rightarrow> i64 \<Rightarrow> f64 \<Rightarrow> err \<times> 'l fsAppender" where
  "fsAppend a l t v =
     (case memAppend (fsMem (fst a), snd a) l t v of
        (e, (mem, q)) \<Rightarrow> (e, ((fst a)\<lparr>fsMem := mem\<rparr>, q)))"

definition pending_record :: "'l pendingSample \<Rightarrow> 'l walRecord" where
  "pending_record p = \<lparr>wrLabels = pLabels p, wrT = pT p, wrV = pV p\<rparr>"

text \<open>\<open>Commit\<close> logs the pending samples first; when that fails the head stays as it is.\<close>

definition fsCommit ::
  "'l labels_api \<Rightarrow> (write_outcome \<times> rotate_outcome) list \<Rightarrow> 'l fsAppender \<Rightarrow> err \<times> 'l fsAppender" where
  "fsCommit L outs a =
     (case walLog L outs (fsWal (fst a)) (map pending_record (snd a)) of
        (Some e, w) \<Rightarrow> (Some (''WAL log: '' @ e), ((fst a)\<lparr>fsWal := w\<rparr>, snd a))
      | (None, w) \<Rightarrow>
          (case memCommit L (fsMem (fst a), snd a) of
             (e, (mem, q)) \<Rightarrow> (e, ((fst a)\<lparr>fsWal := w, fsMem := mem\<rparr>, q))))"

definition fsRollback :: "'l fsAppender \<Rightarrow> err \<times> 'l fsAppender" where
  "fsRollback a =
     (case memRollback (fsMem (fst a), snd a) of
        (e, (mem, q)) \<Rightarrow> (e, ((fst a)\<lparr>fsMem := mem\<rparr>, q)))"

definition fs_appender_ops ::
  "'l labels_api \<Rightarrow> (write_outcome \<times> rotate_outcome) list \<Rightarrow> ('l fsAppender, 'l) appender_ops" where
  "fs_appender_ops L outs = \<lparr>apAppend = fsAppend, apCommit = fsCommit L outs, apRollback = fsRollback\<rparr>"

section \<open>Reading\<close>

definition misses :: "'l block \<Rightarrow> i64 \<Rightarrow> i64 \<Rightarrow> bool" where
  "misses b mint maxt \<longleftrightarrow>
     sint (bmMaxTime (blMeta b)) < sint mint \<or> sint (bmMinTime (blMeta b)) > sint maxt"

text \<open>The answers of the head, drained from its iterator, followed by those of the blocks.\<close>

fun selectBlocks :: "'l labels_api \<Rightarrow> 'l block list \<Rightarrow> i64 \<Rightarrow> i64 \<Rightarrow> matcher list \<Rightarrow> 'l series list" where
  "selectBlocks L [] mint maxt ms = []"
| "selectBlocks L (b # bs) mint maxt ms =
     (if misses b mint maxt then selectBlocks L bs mint maxt ms
      else selectSeries L id b False mint maxt ms @ selectBlocks L bs mint maxt ms)"

definition fsSelect ::
  "'l labels_api \<Rightarrow> ('l series list \<Rightarrow> 'l series list) \<Rightarrow> u64 list \<Rightarrow> 'l fsStore \<Rightarrow> bool \<Rightarrow> i64 \<Rightarrow> i64 \<Rightarrow>
     matcher list \<Rightarrow> 'l sliceSeriesSet option" where
  "fsSelect L srt ks s sortSeries mint maxt ms =
     map_option
       (\<lambda>mem. let allSeries = mem @ selectBlocks L (fsBlocks s) mint maxt ms
              in newSliceSeriesSet (if sortSeries then srt allSeries else allSeries))
       (drain ssNext ssAt (memSelect L srt ks (fsMem s) sortSeries mint maxt ms))"

fun blockNames :: "'l labels_api \<Rightarrow> 'l blockSeries list \<Rightarrow> matcher list \<Rightarrow> string list" where
  "blockNames L [] ms = []"
| "blockNames L (bs # bss) ms =
     (if \<not> matchesAll L (bsLabels bs) ms then blockNames L bss ms
      else map fst (lrange L (bsLabels bs)) @ blockNames L bss ms)"

fun blockValues :: "'l labels_api \<Rightarrow> string \<Rightarrow> 'l blockSeries list \<Rightarrow> matcher list \<Rightarrow> string list" where
  "blockValues L name [] ms = []"
| "blockValues L name (bs # bss) ms =
     (if \<not> matchesAll L (bsLabels bs) ms then blockValues L name bss ms
      else let v = lget L (bsLabels bs) name
           in if v \<noteq> '''' then v # blockValues L name bss ms else blockValues L name bss ms)"

definition fsLabelNames ::
  "'l labels_api \<Rightarrow> u64 list \<Rightarrow> 'l fsStore \<Rightarrow> i64 \<Rightarrow> i64 \<Rightarrow> matcher list \<Rightarrow> string + string list" where
  "fsLabelNames L ks s mint maxt ms =
     (case memLabelNames L ks (fsMem s) mint maxt ms of
        Inl e \<Rightarrow> Inl e
      | Inr names \<Rightarrow>
          Inr (sorted_strings (names @
            concat (map (\<lambda>b. if misses b mint maxt then [] else blockNames L (blSeries b) ms) (fsBlocks s)))))"

definition fsLabelValues ::
  "'l labels_api \<Rightarrow> u64 list \<Rightarrow> 'l fsStore \<Rightarrow> string \<Rightarrow> i64 \<Rightarrow> i64 \<Rightarrow> matcher list \<Rightarrow> string + string list" where
  "fsLabelValues L ks s name mint maxt ms =
     (case memLabelValues L ks (fsMem s) name mint maxt ms of
        Inl e \<Rightarrow> Inl e
      | Inr vals \<Rightarrow>
          Inr (sorted_strings (vals @
            concat (map (\<lambda>b. if misses b mint maxt then [] else blockValues L name (blSeries b) ms) (fsBlocks s)))))"

section \<open>Flushing the head\<close>

definition snapshot :: "u64 list \<Rightarrow> 'l memStore \<Rightarrow> 'l blockSeries list" where
  "snapshot ks mem =
     map (\<lambda>m. \<lparr>bsLabels = msLset m, bsSamples = msSamples m\<rparr>)
       (filter (\<lambda>m. length (msSamples m) \<noteq> 0) (concat (visit ks (memSeriesOf mem))))"

fun sampleBounds :: "bool \<Rightarrow> i64 \<Rightarrow> i64 \<Rightarrow> sample list \<Rightarrow> i64 \<times> i64" where
  "sampleBounds first mint maxt [] = (mint, maxt)"
| "sampleBounds first mint maxt (x # xs) =
     sampleBounds False
       (if first \<or> sint (sT x) < sint mint then sT x else mint)
       (if first \<or> sint (sT x) > sint maxt then sT x else maxt) xs"

definition blockName :: "char \<Rightarrow> i64 \<Rightarrow> string" where
  "blockName c mint = c # fmt_pad 20 (sint mint)"

text \<open>The steps of \<open>FlushHead\<close>: snapshot under the head's read lock, write, publish, reset, truncate.\<close>

definition flushWrite ::
  "'l labels_json \<Rightarrow> block_outcome \<Rightarrow> 'l blockSeries list \<Rightarrow> 'l fsStore \<Rightarrow> (string + 'l block) \<times> 'l fsStore" where
  "flushWrite J io allSeries s =
     (case sampleBounds True 0 0 (concat (map bsSamples allSeries)) of
        (mint, maxt) \<Rightarrow>
          (case writeBlock J io (fsDisk s) (blockName CHR ''b'' mint) allSeries mint maxt of
             (r, d) \<Rightarrow> (r, s\<lparr>fsDisk := d\<rparr>)))"

definition flushPublish :: "'l block \<Rightarrow> 'l fsStore \<Rightarrow> 'l fsStore" where
  "flushPublish b s = s\<lparr>fsBlocks := fsBlocks s @ [b]\<rparr>"

definition flushReset :: "'l fsStore \<Rightarrow> 'l fsStore" where
  "flushReset s = s\<lparr>fsMem := (fsMem s)\<lparr>memSeriesOf := Map.empty\<rparr>\<rparr>"

text \<open>A failed truncation is only logged.\<close>

definition flushTruncate :: "(string \<Rightarrow> bool) \<Rightarrow> 'l fsStore \<Rightarrow> 'l fsStore" where
  "flushTruncate fails s =
     s\<lparr>fsWal := snd (walTruncate fails (fsWal s) (int (walSegmentSeq (fsWal s))))\<rparr>"

definition flushHead ::
  "'l labels_json \<Rightarrow> u64 list \<Rightarrow> block_outcome \<Rightarrow> (string \<Rightarrow> bool) \<Rightarrow> 'l fsStore \<Rightarrow> err \<times> 'l fsStore" where
  "flushHead J ks io fails s =
     (let allSeries = snapshot ks (fsMem s)
      in if length allSeries = 0 then (None, s)
         else case flushWrite J io allSeries s of
           (Inl e, s) \<Rightarrow> (Some (''flushing head: '' @ e), s)
         | (Inr b, s) \<Rightarrow> (None, flushTruncate fails (flushReset (flushPublish b s))))"

section \<open>Compaction and retention\<close>

text \<open>\<open>os.RemoveAll\<close>, its error ignored; \<open>stuck\<close> says which directories cannot be removed.\<close>

definition removeAll :: "(string \<Rightarrow> bool) \<Rightarrow> string \<Rightarrow> blocksDir \<Rightarrow> blocksDir" where
  "removeAll stuck dir d = (if stuck dir then d else dir_remove dir d)"

definition compact ::
  "'l labels_api \<Rightarrow> 'l labels_json \<Rightarrow> (sample list \<Rightarrow> sample list) \<Rightarrow> u64 list \<Rightarrow> block_outcome \<Rightarrow> (string \<Rightarrow> bool) \<Rightarrow>
     'l fsStore \<Rightarrow> err \<times> 'l fsStore" where
  "compact L J srt ks io stuck s =
     (if length (fsBlocks s) < 2 then (None, s)
      else
        let mint = bmMinTime (blMeta (hd (fsBlocks s)));
            targetDir = blockName CHR ''c'' mint
        in case compactBlocks L J srt ks io (fsDisk s) targetDir (fsBlocks s) of
             (Inl e, d) \<Rightarrow> (Some (''compacting blocks: '' @ e), s\<lparr>fsDisk := d\<rparr>)
           | (Inr merged, d) \<Rightarrow>
               (None, s\<lparr>fsDisk := foldl (\<lambda>d b. removeAll stuck (blDir b) d) d (fsBlocks s),
                        fsBlocks := [merged]\<rparr>))"

fun retainAge :: "(string \<Rightarrow> bool) \<Rightarrow> i64 \<Rightarrow> 'l block list \<Rightarrow> blocksDir \<Rightarrow> 'l block list \<times> blocksDir" where
  "retainAge stuck cutoff [] d = ([], d)"
| "retainAge stuck cutoff (b # bs) d =
     (if sint (bmMaxTime (blMeta b)) < sint cutoff
      then retainAge stuck cutoff bs (removeAll stuck (blDir b) d)
      else case retainAge stuck cutoff bs d of (kept, d') \<Rightarrow> (b # kept, d'))"

fun retainSize ::
  "(string \<Rightarrow> blockFile entry \<Rightarrow> int option) \<Rightarrow> (string \<Rightarrow> bool) \<Rightarrow> int \<Rightarrow> int \<Rightarrow> 'l block list \<Rightarrow> blocksDir
     \<Rightarrow> 'l block list \<times> blocksDir" where
  "retainSize info stuck maxSize totalSize [] d = ([], d)"
| "retainSize info stuck maxSize totalSize (b # bs) d =
     (if totalSize > maxSize then
        retainSize info stuck maxSize (totalSize - blockDiskSize info d (blDir b)) bs (removeAll stuck (blDir b) d)
      else (b # bs, d))"

definition applyRetention ::
  "(string \<Rightarrow> blockFile entry \<Rightarrow> int option) \<Rightarrow> (string \<Rightarrow> bool) \<Rightarrow> int \<Rightarrow> 'l fsStore \<Rightarrow> 'l fsStore" where
  "applyRetention info stuck now s =
     (let cfg = fsCfg s;
          s = (if fcRetentionAge cfg > 0 then
                 case retainAge stuck (unixMilli (now - fcRetentionAge cfg)) (fsBlocks s) (fsDisk s) of
                   (kept, d) \<Rightarrow> s\<lparr>fsBlocks := kept, fsDisk := d\<rparr>
               else s)
      in if fcRetentionMaxSize cfg > 0 then
           let totalSize = sum_list (map (\<lambda>b. blockDiskSize info (fsDisk s) (blDir b)) (fsBlocks s))
           in case retainSize info stuck (fcRetentionMaxSize cfg) totalSize (fsBlocks s) (fsDisk s) of
                (kept, d) \<Rightarrow> s\<lparr>fsBlocks := kept, fsDisk := d\<rparr>
         else s)"

text \<open>One tick of \<open>compactionLoop\<close>: an error of \<open>compact\<close> is only logged.\<close>

definition compactionTick ::
  "'l labels_api \<Rightarrow> 'l labels_json \<Rightarrow> (sample list \<Rightarrow> sample list) \<Rightarrow> u64 list \<Rightarrow> block_outcome \<Rightarrow> (string \<Rightarrow> bool) \<Rightarrow>
     (string \<Rightarrow> blockFile entry \<Rightarrow> int option) \<Rightarrow> int \<Rightarrow> 'l fsStore \<Rightarrow> 'l fsStore" where
  "compactionTick L J srt ks io stuck info now s = applyRetention info stuck now (snd (compact L J srt ks io stuck s))"

section \<open>The store as an appender\<close>

interpretation fsapp: store_appender "fs_appender_ops L outs" snd fst
  by unfold_locales
    (auto simp: fs_appender_ops_def fsAppend_def memAppend_def fsCommit_def memCommit_def fsRollback_def
      memRollback_def split: prod.splits option.splits)

lemma append_batch_fs: "append_batch (fs_appender_ops L outs) (s, q) ps = (None, (s, q @ ps))"
proof (induction ps arbitrary: q)
  case (Cons p ps)
  have "apAppend (fs_appender_ops L outs) (s, q) (pLabels p) (pT p) (pV p) = (None, (s, q @ [p]))"
    by (simp add: fs_appender_ops_def fsAppend_def memAppend_def)
  with Cons show ?case by simp
qed simp

text \<open>Committing a sequence of batches, each through its own appender, up to the first error.\<close>

fun commit_batches ::
  "'l labels_api \<Rightarrow> 'l fsStore \<Rightarrow> 'l pendingSample list list \<Rightarrow> err \<times> 'l fsStore" where
  "commit_batches L s [] = (None, s)"
| "commit_batches L s (ps # pss) =
     (case append_batch (fs_appender_ops L []) (fsAppender s) ps of
        (Some e, a) \<Rightarrow> (Some e, fst a)
      | (None, a) \<Rightarrow>
          (case apCommit (fs_appender_ops L []) a of
             (Some e, a) \<Rightarrow> (Some e, fst a)
           | (None, a) \<Rightarrow> commit_batches L (fst a) pss))"

section \<open>What the store holds\<close>

definition fs_samples :: "'l labels_api \<Rightarrow> 'l fsStore \<Rightarrow> 'l \<Rightarrow> sample list" where
  "fs_samples L s l = mem_samples L (fsMem s) l @ blocks_samples L (fsBlocks s) l"

definition record_pending :: "'l walRecord \<Rightarrow> 'l pendingSample" where
  "record_pending r = pending (wrLabels r) (wrT r) (wrV r)"

text \<open>The samples a list of log records holds for a label set.\<close>

definition log_samples :: "'l labels_api \<Rightarrow> 'l walRecord list \<Rightarrow> 'l \<Rightarrow> sample list" where
  "log_samples L recs l = batch_samples L (map record_pending recs) l"

text \<open>The log holds exactly the samples of the head: the state between flushes.\<close>

definition durable :: "'l labels_api \<Rightarrow> 'l fsStore \<Rightarrow> 'l segs \<Rightarrow> bool" where
  "durable L s segs \<longleftrightarrow> wal_inv L (fsWal s) segs \<and> mem_ok L (fsMem s) \<and>
     (\<forall>l. mem_samples L (fsMem s) l = log_samples L (segRecords segs) l)"

lemma record_pending_record [simp]: "record_pending (pending_record p) = p"
  by (simp add: record_pending_def pending_record_def)

lemma log_samples_append [simp]: "log_samples L (r1 @ r2) l = log_samples L r1 l @ log_samples L r2 l"
  by (simp add: log_samples_def batch_samples_append)

lemma log_samples_pending [simp]: "log_samples L (map pending_record ps) l = batch_samples L ps l"
  by (simp add: log_samples_def comp_def)

lemma log_samples_Nil [simp]: "log_samples L [] l = []"
  by (simp add: log_samples_def)

lemma log_samples_norm: "labels_ok L \<Longrightarrow> log_samples L (map (wal_norm L) recs) l = log_samples L recs l"
  by (induction recs)
    (simp_all add: log_samples_def batch_samples_def record_pending_def wal_norm_def lequal_law lscratch_law)

lemma foldl_replayRecord: "foldl (replayRecord L) mem recs = appendSamples L mem (map record_pending recs)"
  by (induction recs arbitrary: mem)
    (simp_all add: replayRecord_def memCommit_def memAppend_def memAppender_def record_pending_def appendSamples_def)

lemma replayed_mem:
  "labels_ok L \<Longrightarrow> mem_ok L (foldl (replayRecord L) (newMemStore 0) recs) \<and>
   mem_samples L (foldl (replayRecord L) (newMemStore 0) recs) l = log_samples L recs l"
  by (simp add: foldl_replayRecord mem_ok_batch mem_ok_new mem_samples_batch log_samples_def)

section \<open>Opening\<close>

lemma newFSStore_ok:
  assumes L: "labels_ok L" and dir: "wal_dir L d segs"
  shows "\<exists>s. newFSStore L J srt (OpenOk, DirOk) cfg d bd = Inr s \<and>
    durable L s (if segs = [] then [(0, [])] else segs) \<and>
    fsCfg s = cfg \<and> fsDisk s = bd \<and> fsBlocks s = srt (openEntries J (readDir bd))"
proof -
  let ?segs = "if segs = [] then [(0, [])] else segs"
  obtain w where w: "newWAL OpenOk d (fcWALSegmentSize cfg) = Inr w" "wal_inv L w ?segs"
    using newWAL_ok [OF dir] by blast
  then have replay: "walReplay L w = (map (wal_norm L) (segRecords ?segs), None)"
    by (intro walReplay_ok) (simp add: wal_inv_def)
  let ?mem = "foldl (replayRecord L) (newMemStore 0) (map (wal_norm L) (segRecords ?segs))"
  have "mem_ok L ?mem" "mem_samples L ?mem l = log_samples L (segRecords ?segs) l" for l
    using replayed_mem [OF L] log_samples_norm [OF L] by metis+
  with w(2) have "durable L \<lparr>fsCfg = cfg, fsMem = ?mem, fsWal = w, fsBlocks = srt (openEntries J (readDir bd)), fsDisk = bd\<rparr> ?segs"
    by (simp add: durable_def)
  with w(1) replay show ?thesis by (simp add: newFSStore_def openBlocks_def)
qed

section \<open>Committing\<close>

lemma fsCommit_ok:
  assumes inv: "wal_inv L (fsWal s) segs" and fits: "\<forall>p \<in> set ps. rec_fits L (pending_record p)"
    and room: "walSegmentSeq (fsWal s) + length ps < 10 ^ 8"
  shows "\<exists>w segs'. fsCommit L [] (s, ps) = (None, (s\<lparr>fsWal := w, fsMem := appendSamples L (fsMem s) ps\<rparr>, [])) \<and>
    wal_inv L w segs' \<and> segRecords segs' = segRecords segs @ map pending_record ps \<and>
    walSegmentSeq w \<le> walSegmentSeq (fsWal s) + length ps"
proof -
  have "\<forall>r \<in> set (map pending_record ps). rec_fits L r" using fits by simp
  moreover have "walSegmentSeq (fsWal s) + length (map pending_record ps) < 10 ^ 8" using room by simp
  ultimately obtain w segs' where "walLog L [] (fsWal s) (map pending_record ps) = (None, w)" "wal_inv L w segs'"
    "segRecords segs' = segRecords segs @ map pending_record ps"
    "walSegmentSeq w \<le> walSegmentSeq (fsWal s) + length (map pending_record ps)"
    using walLog_ok [OF inv] by blast
  then show ?thesis by (auto simp: fsCommit_def memCommit_def)
qed

lemma commit_batches_ok:
  assumes L: "labels_ok L"
  shows "durable L s segs \<Longrightarrow> \<forall>ps \<in> set pss. \<forall>p \<in> set ps. rec_fits L (pending_record p) \<Longrightarrow>
    walSegmentSeq (fsWal s) + length (concat pss) < 10 ^ 8 \<Longrightarrow>
    \<exists>s' segs'. commit_batches L s pss = (None, s') \<and> durable L s' segs' \<and>
      (\<forall>l. mem_samples L (fsMem s') l = mem_samples L (fsMem s) l @ batch_samples L (concat pss) l) \<and>
      fsBlocks s' = fsBlocks s \<and> fsDisk s' = fsDisk s \<and> fsCfg s' = fsCfg s"
proof (induction pss arbitrary: s segs)
  case Nil
  then show ?case by auto
next
  case (Cons ps pss)
  have "wal_inv L (fsWal s) segs" using Cons.prems(1) by (simp add: durable_def)
  moreover have "\<forall>p \<in> set ps. rec_fits L (pending_record p)" "walSegmentSeq (fsWal s) + length ps < 10 ^ 8"
    using Cons.prems(2,3) by simp_all
  ultimately obtain w segs1 where c:
    "fsCommit L [] (s, ps) = (None, (s\<lparr>fsWal := w, fsMem := appendSamples L (fsMem s) ps\<rparr>, []))"
    "wal_inv L w segs1" "segRecords segs1 = segRecords segs @ map pending_record ps"
    "walSegmentSeq w \<le> walSegmentSeq (fsWal s) + length ps"
    using fsCommit_ok by blast
  let ?s1 = "s\<lparr>fsWal := w, fsMem := appendSamples L (fsMem s) ps\<rparr>"
  have d1: "durable L ?s1 segs1"
    using c(2,3) Cons.prems(1) L by (simp add: durable_def mem_samples_batch mem_ok_batch)
  have "append_batch (fs_appender_ops L []) (fsAppender s) ps = (None, (s, ps))"
    using append_batch_fs [of L "[]" s "[]" ps] by (simp add: fsAppender_def memAppender_def)
  moreover have "apCommit (fs_appender_ops L []) (s, ps) = (None, (?s1, []))"
    using c(1) by (simp add: fs_appender_ops_def)
  ultimately have run: "commit_batches L s (ps # pss) = commit_batches L ?s1 pss" by simp
  obtain s' segs' where "commit_batches L ?s1 pss = (None, s')" "durable L s' segs'"
    "\<forall>l. mem_samples L (fsMem s') l = mem_samples L (fsMem ?s1) l @ batch_samples L (concat pss) l"
    "fsBlocks s' = fsBlocks ?s1" "fsDisk s' = fsDisk ?s1" "fsCfg s' = fsCfg ?s1"
    using Cons.IH [OF d1] Cons.prems(2,3) c(4) by auto
  then show ?case
    unfolding run by (intro exI [of _ s'] exI [of _ segs']) (simp add: mem_samples_batch [OF L] batch_samples_append)
qed

section \<open>Properties of commits and recovery\<close>

text \<open>C1: Crash recovery. On a log directory in good order, whatever batches are then committed
  without an error, opening the two directories again, with the log never closed, gives a store that
  holds for every label set exactly the samples held before the crash, in the same order, and the
  same blocks.\<close>

theorem fs_crash_recovery:
  assumes "labels_ok L" and "wal_dir L d segs"
    and "\<forall>ps \<in> set pss. \<forall>p \<in> set ps. rec_fits L (pending_record p)"
    and "latestSegmentSeq d + int (length (concat pss)) < 10 ^ 8"
  shows "\<exists>s0 s1 s2. newFSStore L J srt (OpenOk, DirOk) cfg d bd = Inr s0 \<and>
    commit_batches L s0 pss = (None, s1) \<and>
    (\<forall>l. mem_samples L (fsMem s1) l = mem_samples L (fsMem s0) l @ batch_samples L (concat pss) l) \<and>
    newFSStore L J srt (OpenOk, DirOk) cfg' (walFiles (fsWal s1)) (fsDisk s1) = Inr s2 \<and>
    (\<forall>l. mem_samples L (fsMem s2) l = mem_samples L (fsMem s1) l) \<and> fsBlocks s2 = fsBlocks s1"
proof -
  let ?segs = "if segs = [] then [(0, [])] else segs"
  obtain s0 where s0: "newFSStore L J srt (OpenOk, DirOk) cfg d bd = Inr s0" "durable L s0 ?segs"
    "fsDisk s0 = bd" "fsBlocks s0 = srt (openEntries J (readDir bd))"
    using newFSStore_ok [OF assms(1,2)] by blast
  have "int (walSegmentSeq (fsWal s0)) = latestSegmentSeq d"
    using s0(2) wal_dir_latest [OF assms(2)] by (auto simp: durable_def wal_inv_def split: if_splits)
  then have "walSegmentSeq (fsWal s0) + length (concat pss) < 10 ^ 8" using assms(4) by simp
  from commit_batches_ok [OF assms(1) s0(2) assms(3) this] obtain s1 segs1 where
    s1: "commit_batches L s0 pss = (None, s1)" "durable L s1 segs1"
    "\<forall>l. mem_samples L (fsMem s1) l = mem_samples L (fsMem s0) l @ batch_samples L (concat pss) l"
    "fsBlocks s1 = fsBlocks s0" "fsDisk s1 = fsDisk s0" by blast
  have dir1: "wal_dir L (walFiles (fsWal s1)) segs1" and "segs1 \<noteq> []"
    using s1(2) by (simp_all add: durable_def wal_inv_def)
  obtain s2 where s2: "newFSStore L J srt (OpenOk, DirOk) cfg' (walFiles (fsWal s1)) (fsDisk s1) = Inr s2"
    "durable L s2 segs1" "fsBlocks s2 = srt (openEntries J (readDir (fsDisk s1)))"
    using newFSStore_ok [OF assms(1) dir1, of J srt cfg' "fsDisk s1"] \<open>segs1 \<noteq> []\<close> by auto
  then have "\<forall>l. mem_samples L (fsMem s2) l = mem_samples L (fsMem s1) l" "fsBlocks s2 = fsBlocks s1"
    using s1(2,4,5) s0(3,4) by (simp_all add: durable_def)
  with s0(1) s1(1,3) s2(1) show ?thesis by (intro exI [of _ s0] exI [of _ s1] exI [of _ s2]) simp
qed

text \<open>C15: A commit whose log write fails part way reports the error and changes neither the head
  nor the blocks. The records before the failing one are in the log: a restart after a tear at a
  record boundary (nothing, or just the size field, of the record written) brings them into the head
  although the commit failed, and after any other tear the store does not open again.\<close>

theorem fs_commit_failure:
  assumes "labels_ok L" and "durable L s segs" and "\<forall>p \<in> set (ps @ [p]). rec_fits L (pending_record p)"
    and "walSegmentSeq (fsWal s) + length ps < 10 ^ 8" and "k < length (encodeWALRecord L (pending_record p))"
  shows "\<exists>e w. fsCommit L (replicate (length ps) (Written, Rotated) @ [(WriteErr k, o2)]) (s, ps @ p # qs)
      = (Some e, (s\<lparr>fsWal := w\<rparr>, ps @ p # qs)) \<and>
    (if k = 0 \<or> k = 4
     then \<exists>s'. newFSStore L J srt (OpenOk, DirOk) cfg (walFiles w) (fsDisk s) = Inr s' \<and>
            (\<forall>l. mem_samples L (fsMem s') l = mem_samples L (fsMem s) l @ batch_samples L ps l)
     else isl (newFSStore L J srt (OpenOk, DirOk) cfg (walFiles w) (fsDisk s)))"
proof -
  have inv: "wal_inv L (fsWal s) segs" using assms(2) by (simp add: durable_def)
  have "\<forall>r \<in> set (map pending_record ps). rec_fits L r" and fits: "rec_fits L (pending_record p)"
    using assms(3) by simp_all
  then obtain w1 segs1 where w1: "walLog L [] (fsWal s) (map pending_record ps) = (None, w1)" "wal_inv L w1 segs1"
    "segRecords segs1 = segRecords segs @ map pending_record ps"
    using walLog_ok [OF inv, of "map pending_record ps"] assms(4) by auto
  obtain w where w: "segmentWrite (WriteErr k) (encodeWALRecord L (pending_record p)) w1 = (Some ''write'', w)"
    "newWAL OpenOk (walFiles w) (fcWALSegmentSize cfg) = Inr (w\<lparr>walMaxSegSize := fcWALSegmentSize cfg,
       walSegmentSize := int (fileSize (segmentName (walSegmentSeq w1)) (walFiles w))\<rparr>)"
    "walReplay L w = (map (wal_norm L) (segRecords segs1),
      if k = 0 \<or> k = 4 then None else Some (segmentName (walSegmentSeq w1), UnexpectedEOF))"
    using segmentWrite_torn [OF w1(2) fits assms(5)] by blast
  have commit: "fsCommit L (replicate (length ps) (Written, Rotated) @ [(WriteErr k, o2)]) (s, ps @ p # qs)
      = (Some (''WAL log: '' @ ''writing WAL record: '' @ ''write''), (s\<lparr>fsWal := w\<rparr>, ps @ p # qs))"
    using walLog_append [of L "map pending_record ps" "[(WriteErr k, o2)]" "fsWal s" "map pending_record (p # qs)"] w1(1) w(1)
    by (simp add: fsCommit_def)
  have replay: "walReplay L (w\<lparr>walMaxSegSize := a, walSegmentSize := b\<rparr>) = walReplay L w" for a b
    by (simp add: walReplay_def)
  have mem: "mem_samples L (foldl (replayRecord L) (newMemStore 0) (map (wal_norm L) (segRecords segs1))) l
      = mem_samples L (fsMem s) l @ batch_samples L ps l" for l
  proof -
    have "mem_samples L (foldl (replayRecord L) (newMemStore 0) (map (wal_norm L) (segRecords segs1))) l
        = log_samples L (segRecords segs1) l"
      using replayed_mem [OF assms(1)] log_samples_norm [OF assms(1)] by metis
    with assms(2) show ?thesis by (simp add: durable_def w1(3))
  qed
  show ?thesis
  proof (cases "k = 0 \<or> k = 4")
    case True
    then have "newFSStore L J srt (OpenOk, DirOk) cfg (walFiles w) (fsDisk s)
        = Inr \<lparr>fsCfg = cfg, fsMem = foldl (replayRecord L) (newMemStore 0) (map (wal_norm L) (segRecords segs1)),
            fsWal = w\<lparr>walMaxSegSize := fcWALSegmentSize cfg,
              walSegmentSize := int (fileSize (segmentName (walSegmentSeq w1)) (walFiles w))\<rparr>,
            fsBlocks = srt (openEntries J (readDir (fsDisk s))), fsDisk = fsDisk s\<rparr>"
      using w(2,3) by (simp add: newFSStore_def replay openBlocks_def)
    with True commit mem show ?thesis
      by (intro exI [of _ "''WAL log: '' @ ''writing WAL record: '' @ ''write''"] exI [of _ w]) simp
  next
    case False
    with w(2,3) have "isl (newFSStore L J srt (OpenOk, DirOk) cfg (walFiles w) (fsDisk s))"
      by (simp add: newFSStore_def replay openBlocks_def)
    with False commit show ?thesis
      by (intro exI [of _ "''WAL log: '' @ ''writing WAL record: '' @ ''write''"] exI [of _ w]) simp
  qed
qed

section \<open>Querying\<close>

definition fs_ok :: "'l labels_api \<Rightarrow> 'l fsStore \<Rightarrow> bool" where
  "fs_ok L s \<longleftrightarrow> mem_ok L (fsMem s) \<and> (\<forall>b \<in> set (fsBlocks s). block_ok L b)"

text \<open>The samples a list of answered series gives for a label set.\<close>

definition answer_samples :: "'l labels_api \<Rightarrow> 'l series list \<Rightarrow> 'l \<Rightarrow> sample list" where
  "answer_samples L R l = concat (map srSamples (filter (\<lambda>r. lequal L (srLabels r) l) R))"

lemma answer_samples_append [simp]:
  "answer_samples L (R @ R') l = answer_samples L R l @ answer_samples L R' l"
  by (simp add: answer_samples_def)

lemma answer_samples_perm:
  "mset R = mset R' \<Longrightarrow> mset (answer_samples L R l) = mset (answer_samples L R' l)"
proof -
  assume "mset R = mset R'"
  then have "mset (map (\<lambda>r. mset (srSamples r)) (filter (\<lambda>r. lequal L (srLabels r) l) R))
      = mset (map (\<lambda>r. mset (srSamples r)) (filter (\<lambda>r. lequal L (srLabels r) l) R'))" by simp
  then have "sum_list (map (\<lambda>r. mset (srSamples r)) (filter (\<lambda>r. lequal L (srLabels r) l) R))
      = sum_list (map (\<lambda>r. mset (srSamples r)) (filter (\<lambda>r. lequal L (srLabels r) l) R'))"
    by (metis sum_mset_sum_list)
  then show ?thesis by (simp add: answer_samples_def mset_concat comp_def)
qed

text \<open>Under \<open>select_spec\<close> the answer for a label set is exactly its samples in range.\<close>

lemma select_spec_answer:
  assumes L: "labels_ok L" and spec: "select_spec L ms mint maxt content R" and m: "matchesAll L l ms"
    and cong: "\<And>l'. lequal L l' l \<Longrightarrow> content l' = content l"
  shows "answer_samples L R l = filter (in_range mint maxt) (content l)"
proof (cases "filter (\<lambda>r. lequal L (srLabels r) l) R")
  case Nil
  then have "\<not> lequal L (srLabels r) l" if "r \<in> set R" for r using that by (auto simp: filter_empty_conv)
  then have "filter (in_range mint maxt) (content l) = []" using spec m unfolding select_spec_def by blast
  with Nil show ?thesis by (simp add: answer_samples_def)
next
  case (Cons r rest)
  then have r: "r \<in> set R" "lequal L (srLabels r) l" by (auto dest!: filter_eq_ConsD)
  have "rest = []"
  proof (rule ccontr)
    assume "rest \<noteq> []"
    then obtain r' rest' where rest: "rest = r' # rest'" by (cases rest) auto
    have "r' \<in> set (filter (\<lambda>r. lequal L (srLabels r) l) R)" using Cons rest by simp
    then have "lrange L (srLabels r') = lrange L (srLabels r)" using r(2) L by (simp add: lequal_law)
    moreover have "distinct (map (\<lambda>r. lrange L (srLabels r)) (filter (\<lambda>r. lequal L (srLabels r) l) R))"
      using spec by (simp add: select_spec_def distinct_map_filter)
    ultimately show False by (simp add: Cons rest)
  qed
  moreover have "srSamples r = filter (in_range mint maxt) (content (srLabels r))"
    using spec r(1) by (simp add: select_spec_def)
  ultimately show ?thesis using Cons cong [OF r(2)] by (simp add: answer_samples_def)
qed

lemma mem_samples_cong:
  assumes L: "labels_ok L" and eq: "lequal L l' l"
  shows "mem_samples L s l' = mem_samples L s l"
proof -
  have "findSeries L b l' = findSeries L b l" for b
    using eq by (induction b) (simp_all add: lequal_law [OF L])
  then have "bucket_samples L b l' = bucket_samples L b l" for b by (simp add: bucket_samples_def)
  then show ?thesis by (simp add: mem_samples_def lhash_law [OF L eq] split: option.split)
qed

lemma selectSeries_False: "selectSeries L f b False mint maxt ms = selectLoop L (blSeries b) mint maxt ms"
  by (simp add: selectSeries_def)

lemma answer_selectBlocks:
  assumes L: "labels_ok L" and m: "matchesAll L l ms"
  shows "\<forall>b \<in> set bs. block_ok L b \<Longrightarrow>
    answer_samples L (selectBlocks L bs mint maxt ms) l = filter (in_range mint maxt) (blocks_samples L bs l)"
proof (induction bs)
  case Nil
  show ?case by (simp add: answer_samples_def blocks_samples_def)
next
  case (Cons b bs)
  have split: "blocks_samples L (b # bs) l = series_samples L (blSeries b) l @ blocks_samples L bs l"
    by (simp add: blocks_samples_def)
  have "block_ok L b" using Cons.prems by simp
  show ?case
  proof (cases "misses b mint maxt")
    case True
    then have "filter (in_range mint maxt) (series_samples L (blSeries b) l) = []"
      by (intro selectLoop_outside [OF \<open>block_ok L b\<close>]) (simp add: misses_def)
    with True Cons show ?thesis by (simp add: split)
  next
    case False
    have "select_spec L ms mint maxt (series_samples L (blSeries b)) (selectLoop L (blSeries b) mint maxt ms)"
      using \<open>block_ok L b\<close> by (intro selectLoop_spec [OF L]) (simp add: block_ok_def)
    from select_spec_answer [OF L this m series_samples_cong [OF L]]
    have "answer_samples L (selectLoop L (blSeries b) mint maxt ms) l
        = filter (in_range mint maxt) (series_samples L (blSeries b) l)" by simp
    with False Cons show ?thesis by (simp add: split selectSeries_False)
  qed
qed

lemma selectBlocks_matches:
  "r \<in> set (selectBlocks L bs mint maxt ms) \<Longrightarrow> matchesAll L (srLabels r) ms \<and> srSamples r \<noteq> []"
  by (induction bs) (auto simp: selectSeries_False set_selectLoop split: if_splits)

lemma fs_select_answer:
  assumes "labels_ok L" and "fs_ok L s" and "ranges ks (memSeriesOf (fsMem s))" and "is_sort (series_less L) srt"
  shows "\<exists>it. fsSelect L srt ks s sortSeries mint maxt ms = Some it \<and>
    (\<forall>r \<in> set (ssSeries it). matchesAll L (srLabels r) ms \<and> srSamples r \<noteq> []) \<and>
    (\<forall>l. matchesAll L l ms \<longrightarrow>
       mset (answer_samples L (ssSeries it) l) = mset (filter (in_range mint maxt) (fs_samples L s l))) \<and>
    (sortSeries \<longrightarrow> sorted (map (\<lambda>r. lrange L (srLabels r)) (ssSeries it)))"
proof -
  let ?M = "ssSeries (memSelect L srt ks (fsMem s) sortSeries mint maxt ms)"
  let ?B = "selectBlocks L (fsBlocks s) mint maxt ms"
  let ?R = "if sortSeries then srt (?M @ ?B) else ?M @ ?B"
  have ok: "mem_ok L (fsMem s)" "\<forall>b \<in> set (fsBlocks s). block_ok L b" using assms(2) by (simp_all add: fs_ok_def)
  have run: "fsSelect L srt ks s sortSeries mint maxt ms = Some (newSliceSeriesSet ?R)"
    by (simp add: fsSelect_def memSelect_def Let_def)
  have spec: "select_spec L ms mint maxt (mem_samples L (fsMem s)) ?M"
    by (rule memSelect_spec [OF assms(1) ok(1) assms(3,4)])
  have perm: "mset ?R = mset (?M @ ?B)" using is_sort_mset [OF assms(4)] by simp
  then have sets: "set ?R = set ?M \<union> set ?B" by (metis set_append set_mset_mset)
  have "mset (answer_samples L ?R l) = mset (filter (in_range mint maxt) (fs_samples L s l))"
    if m: "matchesAll L l ms" for l
  proof -
    have "answer_samples L ?M l = filter (in_range mint maxt) (mem_samples L (fsMem s) l)"
      by (rule select_spec_answer [OF assms(1) spec m mem_samples_cong [OF assms(1)]])
    then have "answer_samples L (?M @ ?B) l = filter (in_range mint maxt) (fs_samples L s l)"
      using answer_selectBlocks [OF assms(1) m ok(2)] by (simp add: fs_samples_def)
    then show ?thesis using answer_samples_perm [OF perm, of L l] by metis
  qed
  moreover have "matchesAll L (srLabels r) ms \<and> srSamples r \<noteq> []" if "r \<in> set ?R" for r
    using that spec selectBlocks_matches unfolding sets select_spec_def by blast
  moreover have "sorted (map (\<lambda>r. lrange L (srLabels r)) ?R)" if sortSeries
    using that sorted_series [OF assms(1,4)] by simp
  ultimately have "(\<forall>r \<in> set ?R. matchesAll L (srLabels r) ms \<and> srSamples r \<noteq> []) \<and>
    (\<forall>l. matchesAll L l ms \<longrightarrow>
       mset (answer_samples L ?R l) = mset (filter (in_range mint maxt) (fs_samples L s l))) \<and>
    (sortSeries \<longrightarrow> sorted (map (\<lambda>r. lrange L (srLabels r)) ?R))" by blast
  then show ?thesis using run ssSeries_new by metis
qed

text \<open>C4: A query of the store answers, for every matching label set, exactly its samples in range
  from the head and all blocks, none of which is missed by the check of the blocks' time ranges;
  every answered series matches and is not empty; asked to sort, it answers in label order.\<close>

theorem fs_select:
  assumes "labels_ok L" and "fs_ok L s" and "ranges ks (memSeriesOf (fsMem s))" and "is_sort (series_less L) srt"
  shows "\<exists>it. fsSelect L srt ks s sortSeries mint maxt ms = Some it \<and>
    (\<forall>r \<in> set (ssSeries it). matchesAll L (srLabels r) ms \<and> srSamples r \<noteq> []) \<and>
    (\<forall>l. matchesAll L l ms \<longrightarrow>
       mset (answer_samples L (ssSeries it) l) = mset (filter (in_range mint maxt) (fs_samples L s l))) \<and>
    (sortSeries \<longrightarrow> sorted (map (\<lambda>r. lrange L (srLabels r)) (ssSeries it)))"
  by (rule fs_select_answer [OF assms])

section \<open>Flushing\<close>

lemma snapshot_eq:
  "snapshot ks mem = map (\<lambda>m. \<lparr>bsLabels = msLset m, bsSamples = msSamples m\<rparr>)
     (filter (\<lambda>m. msSamples m \<noteq> []) (all_series ks mem))"
  by (simp add: snapshot_def all_series_def)

lemma distinct_snapshot:
  assumes "labels_ok L" and "mem_ok L mem" and "ranges ks (memSeriesOf mem)"
  shows "distinct (map (\<lambda>bs. lrange L (bsLabels bs)) (snapshot ks mem))"
proof -
  have "distinct (map (\<lambda>m. lrange L (msLset m)) (all_series ks mem))"
    using distinct_all_series [OF assms(1,2)] assms(3) by (simp add: ranges_def)
  then have "distinct (map (\<lambda>m. lrange L (msLset m)) (filter (\<lambda>m. msSamples m \<noteq> []) (all_series ks mem)))"
    by (rule distinct_map_filter)
  then show ?thesis by (simp add: snapshot_eq comp_def)
qed

lemma series_samples_snapshot:
  assumes L: "labels_ok L" and ok: "mem_ok L mem" and ks: "ranges ks (memSeriesOf mem)"
  shows "series_samples L (snapshot ks mem) l = mem_samples L mem l"
proof (cases "mem_samples L mem l = []")
  case True
  have "\<not> lequal L (bsLabels bs) l" if bs: "bs \<in> set (snapshot ks mem)" for bs
  proof
    assume eq: "lequal L (bsLabels bs) l"
    obtain m where "m \<in> set (all_series ks mem)" "msSamples m \<noteq> []" "bsLabels bs = msLset m"
      using bs by (auto simp: snapshot_eq)
    then show False
      using mem_samples_member [OF L ok] set_all_series [OF ks] eq True by metis
  qed
  with True show ?thesis by (simp add: series_samples_def filter_empty_conv)
next
  case False
  then obtain b m where m: "memSeriesOf mem (lhash L l) = Some b" "m \<in> set b" "lequal L (msLset m) l"
    "mem_samples L mem l = msSamples m" by (rule mem_samples_found)
  then have "m \<in> set (all_series ks mem)" using set_all_series [OF ks] by blast
  with m(4) False have "\<lparr>bsLabels = msLset m, bsSamples = msSamples m\<rparr> \<in> set (snapshot ks mem)"
    by (auto simp: snapshot_eq)
  from series_samples_member [OF L distinct_snapshot [OF assms] this]
  have "series_samples L (snapshot ks mem) (msLset m) = msSamples m" by simp
  then show ?thesis using series_samples_cong [OF L m(3)] m(4) by metis
qed

lemma sampleBounds_spec:
  assumes "sampleBounds first mint maxt xs = (lo, hi)"
  shows "(\<forall>x \<in> set xs. sint lo \<le> sint (sT x) \<and> sint (sT x) \<le> sint hi) \<and>
    (\<not> first \<longrightarrow> sint lo \<le> sint mint \<and> sint maxt \<le> sint hi)"
  using assms
proof (induction xs arbitrary: first mint maxt)
  case Nil
  then show ?case by simp
next
  case (Cons x xs)
  from Cons.IH [OF Cons.prems [unfolded sampleBounds.simps]] show ?case by (auto split: if_splits)
qed

lemma writeBlock_Inr:
  "writeBlock J io d dir ss mint maxt = (Inr b, d') \<Longrightarrow>
   blDir b = dir \<and> blSeries b = ss \<and> bmMinTime (blMeta b) = mint \<and> bmMaxTime (blMeta b) = maxt"
  by (auto simp: writeBlock_def Let_def split: option.splits if_splits)

text \<open>A block written from a snapshot is in good order and holds the snapshot.\<close>

lemma flushWrite_block:
  assumes "flushWrite J io ss s = (Inr b, s')" and "distinct (map (\<lambda>bs. lrange L (bsLabels bs)) ss)"
  shows "block_ok L b" and "blSeries b = ss" and "fsMem s' = fsMem s" and "fsBlocks s' = fsBlocks s"
    and "fsWal s' = fsWal s" and "fsCfg s' = fsCfg s"
proof -
  obtain mint maxt where bounds: "sampleBounds True 0 0 (concat (map bsSamples ss)) = (mint, maxt)" by fastforce
  obtain d where w: "writeBlock J io (fsDisk s) (blockName CHR ''b'' mint) ss mint maxt = (Inr b, d)" "s' = s\<lparr>fsDisk := d\<rparr>"
    using assms(1) by (auto simp: flushWrite_def bounds split: prod.splits)
  note b = writeBlock_Inr [OF w(1)]
  show "blSeries b = ss" using b by simp
  show "block_ok L b"
    using assms(2) sampleBounds_spec [OF bounds] by (auto simp: block_ok_def b)
  show "fsMem s' = fsMem s" "fsBlocks s' = fsBlocks s" "fsWal s' = fsWal s" "fsCfg s' = fsCfg s"
    using w(2) by simp_all
qed

text \<open>The name of the block that a flush of the snapshot writes.\<close>

definition flush_dir :: "'l blockSeries list \<Rightarrow> string" where
  "flush_dir ss = blockName CHR ''b'' (fst (sampleBounds True 0 0 (concat (map bsSamples ss))))"

definition head_finite :: "u64 list \<Rightarrow> 'l memStore \<Rightarrow> bool" where
  "head_finite ks mem \<longleftrightarrow> (\<forall>bs \<in> set (snapshot ks mem). \<forall>x \<in> set (bsSamples bs). is_finite_f64 (sV x))"

lemma flushWrite_ok:
  assumes "block_target (fsDisk s) (flush_dir ss)" and "\<forall>bs \<in> set ss. \<forall>x \<in> set (bsSamples bs). is_finite_f64 (sV x)"
  obtains b files where "flushWrite J BlockOk ss s = (Inr b, s\<lparr>fsDisk := dir_put (flush_dir ss) (BlockDir files) (fsDisk s)\<rparr>)"
    "blDir b = flush_dir ss" "blSeries b = ss"
    "map_of files ''meta.json'' = Some (File (MetaJson (blMeta b)))"
    "map_of files ''data.json'' = Some (File (DataJson (map (\<lambda>bs. (ljMarshal J (bsLabels bs), bsSamples bs)) ss)))"
proof -
  obtain mint maxt where bounds: "sampleBounds True 0 0 (concat (map bsSamples ss)) = (mint, maxt)" by fastforce
  have dir: "flush_dir ss = blockName CHR ''b'' mint" by (simp add: flush_dir_def bounds)
  obtain meta files where w: "writeBlock J BlockOk (fsDisk s) (flush_dir ss) ss mint maxt
      = (Inr \<lparr>blDir = flush_dir ss, blMeta = meta, blSeries = ss\<rparr>, dir_put (flush_dir ss) (BlockDir files) (fsDisk s))"
    "bmMinTime meta = mint" "bmMaxTime meta = maxt"
    "map_of files ''meta.json'' = Some (File (MetaJson meta))"
    "map_of files ''data.json'' = Some (File (DataJson (map (\<lambda>bs. (ljMarshal J (bsLabels bs), bsSamples bs)) ss)))"
    by (rule writeBlock_ok [OF assms])
  show thesis
    by (rule that [of "\<lparr>blDir = flush_dir ss, blMeta = meta, blSeries = ss\<rparr>" files])
      (use w(1,4,5) in \<open>simp_all add: flushWrite_def bounds dir [symmetric]\<close>)
qed

lemma mem_samples_reset [simp]: "mem_samples L (m\<lparr>memSeriesOf := Map.empty\<rparr>) l = []"
  by (simp add: mem_samples_def)

lemma mem_ok_reset [simp]: "mem_ok L (m\<lparr>memSeriesOf := Map.empty\<rparr>)"
  by (simp add: mem_ok_def)

lemma blocks_samples_append [simp]:
  "blocks_samples L (bs @ bs') l = blocks_samples L bs l @ blocks_samples L bs' l"
  by (simp add: blocks_samples_def)

lemma blocks_samples_single [simp]: "blocks_samples L [b] l = series_samples L (blSeries b) l"
  by (simp add: blocks_samples_def)

text \<open>What a flush leaves of the log: the current segment.\<close>

lemma flushTruncate_ok:
  assumes "wal_inv L (fsWal s) segs"
  shows "\<exists>w. flushTruncate (\<lambda>_. False) s = s\<lparr>fsWal := w\<rparr> \<and> wal_inv L w [last segs]"
proof -
  let ?q = "walSegmentSeq (fsWal s)"
  obtain segs0 recs where segs: "segs = segs0 @ [(?q, recs)]" using assms by (rule wal_inv_last)
  have dir: "wal_dir L (walFiles (fsWal s)) segs" using assms by (simp add: wal_inv_def)
  then have "\<forall>(q, _) \<in> set segs0. q < ?q" by (auto simp: wal_dir_def segs_ok_def segs sorted_wrt_append)
  then have "filter (\<lambda>(q, _). int ?q \<le> int q) segs = [last segs]" by (auto simp: segs filter_empty_conv)
  moreover obtain w where "walTruncate (\<lambda>_. False) (fsWal s) (int ?q) = (None, w)"
    "wal_dir L (walFiles w) (filter (\<lambda>(q, _). int ?q \<le> int q) segs)"
    "walSegmentSeq w = ?q" "walOpen w = walOpen (fsWal s)"
    using walTruncate_ok [OF dir, of "int ?q"] by blast
  ultimately have "flushTruncate (\<lambda>_. False) s = s\<lparr>fsWal := w\<rparr>" "wal_inv L w [last segs]"
    using assms by (simp_all add: flushTruncate_def wal_inv_def segs)
  then show ?thesis by blast
qed

text \<open>C12: A flush that is not interrupted moves the head into a new block: the store holds the same
  samples for every label set, the head is empty, all blocks are in good order, and of the log the
  current segment is left, with all its records.\<close>

theorem fs_flush:
  assumes "labels_ok L" and "fs_ok L s" and "ranges ks (memSeriesOf (fsMem s))"
    and "head_finite ks (fsMem s)" and "block_target (fsDisk s) (flush_dir (snapshot ks (fsMem s)))"
    and "wal_inv L (fsWal s) segs" and "snapshot ks (fsMem s) \<noteq> []"
  shows "\<exists>s'. flushHead J ks BlockOk (\<lambda>_. False) s = (None, s') \<and>
    (\<forall>l. mset (fs_samples L s' l) = mset (fs_samples L s l)) \<and>
    (\<forall>l. mem_samples L (fsMem s') l = []) \<and> fs_ok L s' \<and> wal_inv L (fsWal s') [last segs]"
proof -
  let ?ss = "snapshot ks (fsMem s)"
  have ok: "mem_ok L (fsMem s)" "\<forall>b \<in> set (fsBlocks s). block_ok L b" using assms(2) by (simp_all add: fs_ok_def)
  obtain b files where w: "flushWrite J BlockOk ?ss s = (Inr b, s\<lparr>fsDisk := dir_put (flush_dir ?ss) (BlockDir files) (fsDisk s)\<rparr>)"
    by (rule flushWrite_ok [OF assms(5) assms(4) [unfolded head_finite_def]])
  note b = flushWrite_block [OF w distinct_snapshot [OF assms(1) ok(1) assms(3)]]
  let ?s3 = "flushReset (flushPublish b (s\<lparr>fsDisk := dir_put (flush_dir ?ss) (BlockDir files) (fsDisk s)\<rparr>))"
  have "wal_inv L (fsWal ?s3) segs" using assms(6) by (simp add: flushReset_def flushPublish_def)
  from flushTruncate_ok [OF this] obtain wal' where t: "flushTruncate (\<lambda>_. False) ?s3 = ?s3\<lparr>fsWal := wal'\<rparr>"
    "wal_inv L wal' [last segs]" by blast
  have run: "flushHead J ks BlockOk (\<lambda>_. False) s = (None, ?s3\<lparr>fsWal := wal'\<rparr>)"
    using assms(7) t(1) by (simp add: flushHead_def w)
  show ?thesis
    unfolding run using t(2) ok b(1,2) series_samples_snapshot [OF assms(1) ok(1) assms(3)]
    by (auto simp: fs_samples_def flushReset_def flushPublish_def fs_ok_def)
qed

text \<open>A restart after a flush replays the current log segment, which the flush keeps, into the
  head: when the log consists of one segment, a store that held its samples once holds every one of
  them twice after the flush and the restart, in the head and in the new block.\<close>

theorem fs_flush_restart_duplicates:
  assumes "labels_ok L" and "durable L s [(q, recs)]" and "fsBlocks s = []" and "fsDisk s = []"
    and "ranges ks (memSeriesOf (fsMem s))" and "head_finite ks (fsMem s)" and "snapshot ks (fsMem s) \<noteq> []"
    and "\<forall>bs \<in> set (snapshot ks (fsMem s)). json_ok L J (bsLabels bs)" and "is_sort block_less srt"
  shows "\<exists>s' s''. flushHead J ks BlockOk (\<lambda>_. False) s = (None, s') \<and>
    newFSStore L J srt (OpenOk, DirOk) cfg (walFiles (fsWal s')) (fsDisk s') = Inr s'' \<and>
    (\<forall>l. mset (fs_samples L s'' l) = mset (fs_samples L s l) + mset (fs_samples L s l))"
proof -
  let ?ss = "snapshot ks (fsMem s)"
  have inv: "wal_inv L (fsWal s) [(q, recs)]" and ok: "mem_ok L (fsMem s)" using assms(2) by (simp_all add: durable_def)
  have target: "block_target (fsDisk s) (flush_dir ?ss)" by (simp add: block_target_def assms(4))
  obtain b files where w: "flushWrite J BlockOk ?ss s = (Inr b, s\<lparr>fsDisk := dir_put (flush_dir ?ss) (BlockDir files) (fsDisk s)\<rparr>)"
    "blDir b = flush_dir ?ss" "blSeries b = ?ss"
    "map_of files ''meta.json'' = Some (File (MetaJson (blMeta b)))"
    "map_of files ''data.json'' = Some (File (DataJson (map (\<lambda>bs. (ljMarshal J (bsLabels bs), bsSamples bs)) ?ss)))"
    by (rule flushWrite_ok [OF target assms(6) [unfolded head_finite_def]])
  let ?s3 = "flushReset (flushPublish b (s\<lparr>fsDisk := dir_put (flush_dir ?ss) (BlockDir files) (fsDisk s)\<rparr>))"
  have "wal_inv L (fsWal ?s3) [(q, recs)]" using inv by (simp add: flushReset_def flushPublish_def)
  from flushTruncate_ok [OF this] obtain wal' where t: "flushTruncate (\<lambda>_. False) ?s3 = ?s3\<lparr>fsWal := wal'\<rparr>"
    "wal_inv L wal' [(q, recs)]" by auto
  let ?s' = "?s3\<lparr>fsWal := wal'\<rparr>"
  have run: "flushHead J ks BlockOk (\<lambda>_. False) s = (None, ?s')"
    using assms(7) t(1) by (simp add: flushHead_def w(1))
  obtain b' where b': "openBlock J (flush_dir ?ss) files = Inr b'" "list_all2 (same_series L) (blSeries b') ?ss"
    using openBlock_written [OF assms(8) w(4,5)] by blast
  have disk: "fsDisk ?s' = [(flush_dir ?ss, BlockDir files)]"
    by (simp add: flushReset_def flushPublish_def assms(4) dir_put_def)
  have "mset (srt [b']) = {#b'#}" using is_sort_mset [OF assms(9)] by simp
  then have srt: "srt [b'] = [b']" by simp
  have "wal_dir L (walFiles (fsWal ?s')) [(q, recs)]" using t(2) by (simp add: wal_inv_def)
  from newFSStore_ok [OF assms(1) this, of J srt cfg "fsDisk ?s'"] obtain s'' where
    s'': "newFSStore L J srt (OpenOk, DirOk) cfg (walFiles (fsWal ?s')) (fsDisk ?s') = Inr s''"
    "durable L s'' [(q, recs)]" "fsBlocks s'' = srt (openEntries J (readDir (fsDisk ?s')))" by auto
  have "fsBlocks s'' = [b']" using s''(3) b'(1) srt by (simp add: disk readDir_def)
  moreover have "series_samples L (blSeries b') l = mem_samples L (fsMem s) l" for l
    using same_series_samples [OF assms(1) b'(2)] series_samples_snapshot [OF assms(1) ok assms(5)] by metis
  moreover have "mem_samples L (fsMem s'') l = mem_samples L (fsMem s) l" for l
    using s''(2) assms(2) by (simp add: durable_def)
  ultimately have "mset (fs_samples L s'' l) = mset (fs_samples L s l) + mset (fs_samples L s l)" for l
    by (simp add: fs_samples_def assms(3) blocks_samples_def [of L "[]"])
  with run s''(1) show ?thesis by blast
qed

text \<open>The directory of a flushed block is named after its first timestamp only: a flush whose head
  starts at the same timestamp as an older block overwrites that block on disk. The older block is
  still served, but the directory it names now opens with the series of the new head.\<close>

theorem fs_flush_overwrites:
  assumes "labels_ok L" and "head_finite ks (fsMem s)" and "snapshot ks (fsMem s) \<noteq> []"
    and "b0 \<in> set (fsBlocks s)" and "blDir b0 = flush_dir (snapshot ks (fsMem s))"
    and "block_target (fsDisk s) (blDir b0)" and "\<forall>bs \<in> set (snapshot ks (fsMem s)). json_ok L J (bsLabels bs)"
  shows "\<exists>s' files b'. flushHead J ks BlockOk fails s = (None, s') \<and> b0 \<in> set (fsBlocks s') \<and>
    map_of (fsDisk s') (blDir b0) = Some (BlockDir files) \<and> openBlock J (blDir b0) files = Inr b' \<and>
    list_all2 (same_series L) (blSeries b') (snapshot ks (fsMem s))"
proof -
  let ?ss = "snapshot ks (fsMem s)"
  have target: "block_target (fsDisk s) (flush_dir ?ss)" using assms(5,6) by simp
  obtain b files where w: "flushWrite J BlockOk ?ss s = (Inr b, s\<lparr>fsDisk := dir_put (flush_dir ?ss) (BlockDir files) (fsDisk s)\<rparr>)"
    "blDir b = flush_dir ?ss" "blSeries b = ?ss"
    "map_of files ''meta.json'' = Some (File (MetaJson (blMeta b)))"
    "map_of files ''data.json'' = Some (File (DataJson (map (\<lambda>bs. (ljMarshal J (bsLabels bs), bsSamples bs)) ?ss)))"
    by (rule flushWrite_ok [OF target assms(2) [unfolded head_finite_def]])
  obtain b' where b': "openBlock J (flush_dir ?ss) files = Inr b'" "list_all2 (same_series L) (blSeries b') ?ss"
    using openBlock_written [OF assms(7) w(4,5)] by blast
  let ?s' = "flushTruncate fails (flushReset (flushPublish b (s\<lparr>fsDisk := dir_put (flush_dir ?ss) (BlockDir files) (fsDisk s)\<rparr>)))"
  have "flushHead J ks BlockOk fails s = (None, ?s')" using assms(3) by (simp add: flushHead_def w(1))
  moreover have "b0 \<in> set (fsBlocks ?s')" "map_of (fsDisk ?s') (blDir b0) = Some (BlockDir files)"
    using assms(4,5) by (simp_all add: flushTruncate_def flushReset_def flushPublish_def)
  ultimately show ?thesis using b' assms(5) by metis
qed

section \<open>Flushing while commits run\<close>

text \<open>Where the thread that flushes is.\<close>

datatype 'l flushPhase =
  FIdle | FSnapped "'l blockSeries list" | FWritten "'l block" | FPublished | FReset

inductive flush_step ::
  "'l labels_api \<Rightarrow> 'l labels_json \<Rightarrow> 'l fsStore \<times> 'l flushPhase \<Rightarrow> 'l fsStore \<times> 'l flushPhase \<Rightarrow> bool"
  for L J where
  fl_commit: "fsCommit L outs (s, ps) = (e, (s', qs)) \<Longrightarrow> flush_step L J (s, ph) (s', ph)"
| fl_snap: "ranges ks (memSeriesOf (fsMem s)) \<Longrightarrow> ss = snapshot ks (fsMem s) \<Longrightarrow> ss \<noteq> [] \<Longrightarrow>
    flush_step L J (s, FIdle) (s, FSnapped ss)"
| fl_write: "flushWrite J io ss s = (Inr b, s') \<Longrightarrow> flush_step L J (s, FSnapped ss) (s', FWritten b)"
| fl_fail: "flushWrite J io ss s = (Inl e, s') \<Longrightarrow> flush_step L J (s, FSnapped ss) (s', FIdle)"
| fl_publish: "flush_step L J (s, FWritten b) (flushPublish b s, FPublished)"
| fl_reset: "flush_step L J (s, FPublished) (flushReset s, FReset)"
| fl_truncate: "flush_step L J (s, FReset) (flushTruncate fails s, FIdle)"

inductive flush_run :: "'l labels_api \<Rightarrow> 'l labels_json \<Rightarrow> 'l fsStore \<Rightarrow> 'l fsStore \<times> 'l flushPhase \<Rightarrow> bool"
  for L J s where
  run_start: "flush_run L J s (s, FIdle)"
| run_step: "flush_run L J s st \<Longrightarrow> flush_step L J st st' \<Longrightarrow> flush_run L J s st'"

text \<open>What each phase keeps of the samples \<open>base\<close> held when the thread was idle.\<close>

fun phase_keeps :: "'l labels_api \<Rightarrow> ('l \<Rightarrow> sample multiset) \<Rightarrow> 'l fsStore \<times> 'l flushPhase \<Rightarrow> bool" where
  "phase_keeps L base (s, FIdle) = (\<forall>l. base l \<subseteq># mset (fs_samples L s l))"
| "phase_keeps L base (s, FSnapped ss) =
     (distinct (map (\<lambda>bs. lrange L (bsLabels bs)) ss) \<and>
      (\<forall>l. mset (series_samples L ss l) \<subseteq># mset (mem_samples L (fsMem s) l) \<and>
           base l \<subseteq># mset (series_samples L ss l) + mset (blocks_samples L (fsBlocks s) l)))"
| "phase_keeps L base (s, FWritten b) =
     (block_ok L b \<and>
      (\<forall>l. mset (series_samples L (blSeries b) l) \<subseteq># mset (mem_samples L (fsMem s) l) \<and>
           base l \<subseteq># mset (series_samples L (blSeries b) l) + mset (blocks_samples L (fsBlocks s) l)))"
| "phase_keeps L base (s, FPublished) = (\<forall>l. base l \<subseteq># mset (blocks_samples L (fsBlocks s) l))"
| "phase_keeps L base (s, FReset) = (\<forall>l. base l \<subseteq># mset (blocks_samples L (fsBlocks s) l))"

lemma fsCommit_cases:
  assumes "fsCommit L outs (s, ps) = (e, (s', qs))"
  shows "fsBlocks s' = fsBlocks s \<and> (fsMem s' = fsMem s \<or> fsMem s' = appendSamples L (fsMem s) ps)"
  using assms by (auto simp: fsCommit_def memCommit_def split: prod.splits option.splits)

lemma fsCommit_grows:
  assumes L: "labels_ok L" and "fsCommit L outs (s, ps) = (e, (s', qs))"
  shows "fsBlocks s' = fsBlocks s" and "mset (mem_samples L (fsMem s) l) \<subseteq># mset (mem_samples L (fsMem s') l)"
    and "mem_ok L (fsMem s) \<Longrightarrow> mem_ok L (fsMem s')"
  using fsCommit_cases [OF assms(2)] by (auto simp: mem_samples_batch [OF L] mem_ok_batch [OF L])

lemma flushWrite_same:
  "flushWrite J io ss s = (r, s') \<Longrightarrow> fsMem s' = fsMem s \<and> fsBlocks s' = fsBlocks s"
  by (auto simp: flushWrite_def split: prod.splits)

lemma phase_keeps_commit:
  assumes L: "labels_ok L" and c: "fsCommit L outs (s, ps) = (e, (s', qs))" and k: "phase_keeps L base (s, ph)"
  shows "phase_keeps L base (s', ph)"
proof (cases ph)
  case FIdle
  have "mset (fs_samples L s l) \<subseteq># mset (fs_samples L s' l)" for l
    using fsCommit_grows [OF L c] by (simp add: fs_samples_def)
  with k FIdle show ?thesis by (auto intro: subset_mset.trans)
qed (use k fsCommit_grows [OF L c] in \<open>auto intro: subset_mset.trans\<close>)

lemma phase_keeps_snap:
  assumes L: "labels_ok L" and ks: "ranges ks (memSeriesOf (fsMem s))" and ok: "fs_ok L s"
    and k: "phase_keeps L base (s, FIdle)"
  shows "phase_keeps L base (s, FSnapped (snapshot ks (fsMem s)))"
proof -
  have "mem_ok L (fsMem s)" using ok by (simp add: fs_ok_def)
  from series_samples_snapshot [OF L this ks] distinct_snapshot [OF L this ks] k
  show ?thesis by (simp add: fs_samples_def)
qed

lemma phase_keeps_write:
  assumes "flushWrite J io ss s = (Inr b, s')" and "phase_keeps L base (s, FSnapped ss)"
  shows "phase_keeps L base (s', FWritten b)"
  using flushWrite_block [OF assms(1), of L] assms(2) by simp

lemma phase_keeps_total:
  assumes "phase_keeps L base (s, ph)"
  shows "base l \<subseteq># mset (fs_samples L s l)"
proof (cases ph)
  case (FSnapped ss)
  then have "base l \<subseteq># mset (series_samples L ss l) + mset (blocks_samples L (fsBlocks s) l)"
    "mset (series_samples L ss l) \<subseteq># mset (mem_samples L (fsMem s) l)" using assms by simp_all
  then show ?thesis by (simp add: fs_samples_def) (meson subset_mset.add_right_mono subset_mset.trans)
next
  case (FWritten b)
  then have "base l \<subseteq># mset (series_samples L (blSeries b) l) + mset (blocks_samples L (fsBlocks s) l)"
    "mset (series_samples L (blSeries b) l) \<subseteq># mset (mem_samples L (fsMem s) l)" using assms by simp_all
  then show ?thesis by (simp add: fs_samples_def) (meson subset_mset.add_right_mono subset_mset.trans)
qed (use assms in \<open>auto simp: fs_samples_def subset_mset.add_increasing\<close>)

lemma phase_keeps_fail:
  assumes "flushWrite J io ss s = (r, s')" and "phase_keeps L base (s, FSnapped ss)"
  shows "phase_keeps L base (s', FIdle)"
  using phase_keeps_total [OF assms(2)] flushWrite_same [OF assms(1)] by (simp add: fs_samples_def)

lemma phase_keeps_rest:
  "phase_keeps L base (s, FWritten b) \<Longrightarrow> phase_keeps L base (flushPublish b s, FPublished)"
  "phase_keeps L base (s, FPublished) \<Longrightarrow> phase_keeps L base (flushReset s, FReset)"
  "phase_keeps L base (s, FReset) \<Longrightarrow> phase_keeps L base (flushTruncate fails s, FIdle)"
  using phase_keeps_total [of L base s FReset]
  by (simp_all add: flushPublish_def flushReset_def flushTruncate_def fs_samples_def union_commute)

lemma phase_keeps_step:
  assumes L: "labels_ok L" and "flush_step L J st st'" and "fs_ok L (fst st)" and "phase_keeps L base st"
  shows "fs_ok L (fst st') \<and> phase_keeps L base st'"
  using assms(2-4)
proof (induction rule: flush_step.induct)
  case (fl_commit outs s ps e s' qs ph)
  then show ?case
    using phase_keeps_commit [OF L fl_commit(1)] fsCommit_grows [OF L fl_commit(1)] by (simp add: fs_ok_def)
next
  case (fl_snap ks s ss)
  then show ?case using phase_keeps_snap [OF L fl_snap(1)] by simp
next
  case (fl_write io ss s b s')
  then show ?case using phase_keeps_write [OF fl_write(1,3)] flushWrite_same [OF fl_write(1)] by (simp add: fs_ok_def)
next
  case (fl_fail io ss s e s')
  then show ?case using phase_keeps_fail [OF fl_fail(1,3)] flushWrite_same [OF fl_fail(1)] by (simp add: fs_ok_def)
next
  case (fl_publish s b)
  then show ?case using phase_keeps_rest(1) [OF fl_publish(2)] by (simp add: flushPublish_def fs_ok_def)
next
  case (fl_reset s)
  then show ?case using phase_keeps_rest(2) [OF fl_reset(2)] by (simp add: flushReset_def fs_ok_def)
next
  case (fl_truncate s fails)
  then show ?case using phase_keeps_rest(3) [OF fl_truncate(2)] by (simp add: flushTruncate_def fs_ok_def)
qed

lemma flush_run_keeps:
  assumes L: "labels_ok L" and run: "flush_run L J s st" and ok: "fs_ok L s"
  shows "fs_ok L (fst st) \<and> phase_keeps L (\<lambda>l. mset (fs_samples L s l)) st"
  using run
proof (induction rule: flush_run.induct)
  case run_start
  with ok show ?case by simp
next
  case (run_step st st')
  then show ?case using phase_keeps_step [OF L] by blast
qed

text \<open>C5: Whatever commits run, fail or succeed between the steps of any number of flushes, the
  samples that the store held when no flush was under way are never lost: at every later moment the
  head and the blocks together hold each of them, for every label set at least as often.\<close>

theorem fs_flush_keeps_old:
  assumes "labels_ok L" and "fs_ok L s" and "flush_run L J s (s', ph)"
  shows "fs_ok L s' \<and> mset (fs_samples L s l) \<subseteq># mset (fs_samples L s' l)"
  using flush_run_keeps [OF assms(1,3,2)] phase_keeps_total [of L "\<lambda>l. mset (fs_samples L s l)" s' ph l] by simp

text \<open>A batch committed between the snapshot and the reset of a flush is lost: it is reported as
  committed, but after the reset the store holds, for every label set, only what it held before the
  batch.\<close>

theorem fs_flush_race:
  assumes "labels_ok L" and "fs_ok L s" and "ranges ks (memSeriesOf (fsMem s))" and "snapshot ks (fsMem s) \<noteq> []"
    and "fsCommit L outs (s, ps) = (None, (s1, []))" and "flushWrite J io (snapshot ks (fsMem s)) s1 = (Inr b, s2)"
  shows "let s3 = flushReset (flushPublish b s2) in
    flush_run L J s (s3, FReset) \<and> (\<forall>l. mset (fs_samples L s3 l) = mset (fs_samples L s l))"
proof -
  let ?ss = "snapshot ks (fsMem s)"
  have ok: "mem_ok L (fsMem s)" using assms(2) by (simp add: fs_ok_def)
  have "flush_run L J s (s, FSnapped ?ss)"
    by (rule run_step [OF run_start fl_snap [OF assms(3) refl assms(4)]])
  then have "flush_run L J s (s1, FSnapped ?ss)" by (rule run_step) (rule fl_commit [OF assms(5)])
  then have "flush_run L J s (s2, FWritten b)" by (rule run_step) (rule fl_write [OF assms(6)])
  then have "flush_run L J s (flushPublish b s2, FPublished)" by (rule run_step) (rule fl_publish)
  then have run: "flush_run L J s (flushReset (flushPublish b s2), FReset)" by (rule run_step) (rule fl_reset)
  have "blSeries b = ?ss" "fsBlocks s2 = fsBlocks s1"
    using flushWrite_block [OF assms(6) distinct_snapshot [OF assms(1) ok assms(3)]] by simp_all
  moreover have "fsBlocks s1 = fsBlocks s" using fsCommit_grows [OF assms(1,5)] by simp
  ultimately have "mset (fs_samples L (flushReset (flushPublish b s2)) l) = mset (fs_samples L s l)" for l
    using series_samples_snapshot [OF assms(1) ok assms(3)]
    by (simp add: fs_samples_def flushReset_def flushPublish_def)
  with run show ?thesis by (simp add: Let_def)
qed

end
