(* ===== verification/FsMaintain.thy ===== *)
theory FsMaintain
  imports FsStore
begin

text \<open>
  Compaction, retention and the metadata queries of the persistent store
  (\<open>internal/store/fsstore.go\<close>), against its abstraction \<open>fs_samples\<close>: what a compaction keeps, which
  blocks retention by age and by size removes, and which label names and values are listed.
\<close>

section \<open>Removing directories\<close>

lemma map_of_removeAll:
  "map_of (removeAll stuck dir d) n = (if n = dir \<and> \<not> stuck dir then None else map_of d n)"
  by (simp add: removeAll_def)

lemma map_of_removeAll_list:
  "map_of (foldl (\<lambda>d b. removeAll stuck (blDir b) d) d bs) n =
     (if n \<in> blDir ` set bs \<and> \<not> stuck n then None else map_of d n)"
  by (induction bs arbitrary: d) (auto simp: map_of_removeAll)

lemma blockDiskSize_cong: "map_of d dir = map_of d' dir \<Longrightarrow> blockDiskSize info d dir = blockDiskSize info d' dir"
  by (simp add: blockDiskSize_def)

section \<open>Compaction\<close>

definition compact_dir :: "'l fsStore \<Rightarrow> string" where
  "compact_dir s = blockName CHR ''c'' (bmMinTime (blMeta (hd (fsBlocks s))))"

definition blocks_finite :: "'l block list \<Rightarrow> bool" where
  "blocks_finite bs \<longleftrightarrow> (\<forall>b \<in> set bs. \<forall>s \<in> set (blSeries b). \<forall>x \<in> set (bsSamples s). is_finite_f64 (sV x))"

lemma compact_run:
  assumes L: "labels_ok L" and two: "2 \<le> length (fsBlocks s)" and ks: "ranges ks (mergeBlocks L (fsBlocks s))"
    and srt: "is_sort sample_less srt" and fin: "blocks_finite (fsBlocks s)"
    and target: "block_target (fsDisk s) (compact_dir s)"
  obtains m files where
    "compact L J srt ks BlockOk stuck s = (None, s\<lparr>fsDisk :=
        foldl (\<lambda>d b. removeAll stuck (blDir b) d) (dir_put (compact_dir s) (BlockDir files) (fsDisk s)) (fsBlocks s),
      fsBlocks := [m]\<rparr>)"
    "compactBlocks L J srt ks BlockOk (fsDisk s) (compact_dir s) (fsBlocks s)
      = (Inr m, dir_put (compact_dir s) (BlockDir files) (fsDisk s))"
    "blDir m = compact_dir s" "blSeries m = mergedSeries L srt ks (fsBlocks s)"
    "map_of files ''meta.json'' = Some (File (MetaJson (blMeta m)))"
    "map_of files ''data.json'' = Some (File (DataJson (map (\<lambda>bs. (ljMarshal J (bsLabels bs), bsSamples bs)) (blSeries m))))"
proof -
  let ?ss = "mergedSeries L srt ks (fsBlocks s)"
  obtain mint maxt where bounds: "timeBounds True 0 0 (fsBlocks s) = (mint, maxt)" by fastforce
  have fin': "\<forall>x \<in> set ?ss. \<forall>y \<in> set (bsSamples x). is_finite_f64 (sV y)"
    using merged_finite [OF L ks srt] fin by (simp add: blocks_finite_def)
  obtain meta files where w: "writeBlock J BlockOk (fsDisk s) (compact_dir s) ?ss mint maxt
      = (Inr \<lparr>blDir = compact_dir s, blMeta = meta, blSeries = ?ss\<rparr>, dir_put (compact_dir s) (BlockDir files) (fsDisk s))"
    "bmMinTime meta = mint" "bmMaxTime meta = maxt"
    "map_of files ''meta.json'' = Some (File (MetaJson meta))"
    "map_of files ''data.json'' = Some (File (DataJson (map (\<lambda>bs. (ljMarshal J (bsLabels bs), bsSamples bs)) ?ss)))"
    by (rule writeBlock_ok [OF target fin'])
  let ?m = "\<lparr>blDir = compact_dir s, blMeta = meta, blSeries = ?ss\<rparr>"
  have c: "compactBlocks L J srt ks BlockOk (fsDisk s) (compact_dir s) (fsBlocks s)
      = (Inr ?m, dir_put (compact_dir s) (BlockDir files) (fsDisk s))"
    using w(1) by (simp add: compactBlocks_def bounds)
  then have "compact L J srt ks BlockOk stuck s = (None, s\<lparr>fsDisk :=
        foldl (\<lambda>d b. removeAll stuck (blDir b) d) (dir_put (compact_dir s) (BlockDir files) (fsDisk s)) (fsBlocks s),
      fsBlocks := [?m]\<rparr>)"
    using two by (simp add: compact_def compact_dir_def [symmetric] Let_def)
  from that [OF this c] w(4,5) show thesis by simp
qed

lemma merged_labels:
  assumes L: "labels_ok L" and ks: "ranges ks (mergeBlocks L bs)" and x: "x \<in> set (mergedSeries L srt ks bs)"
  shows "\<exists>b \<in> set bs. \<exists>y \<in> set (blSeries b). bsLabels y = bsLabels x"
proof -
  obtain z where z: "z \<in> set (visit ks (mergeBlocks L bs))" "bsLabels x = bsLabels z"
    using x by (auto simp: mergedSeries_def)
  then obtain k where "merged_entry L (concat (map blSeries bs)) k = Some z"
    by (auto simp: set_visit mergeBlocks_eq [OF L])
  from merged_entry_member(2) [OF this] z(2) show ?thesis by auto
qed


text \<open>A compaction whose first block is itself the result of a compaction from the same first
  timestamp writes the merged block into that block's directory and then removes the directory: the
  store serves a block that is not on disk, and that a restart does not find.\<close>

theorem fs_compact_loses:
  assumes "labels_ok L" and "2 \<le> length (fsBlocks s)"
    and "ranges ks (mergeBlocks L (fsBlocks s))" and "is_sort sample_less srt" and "blocks_finite (fsBlocks s)"
    and "block_target (fsDisk s) (compact_dir s)" and "blDir (hd (fsBlocks s)) = compact_dir s"
  shows "\<exists>s' m. compact L J srt ks BlockOk (\<lambda>_. False) s = (None, s') \<and> fsBlocks s' = [m] \<and>
    map_of (fsDisk s') (blDir m) = None \<and> blDir m \<notin> blDir ` set (openEntries J (readDir (fsDisk s')))"
proof -
  obtain m files where run:
    "compact L J srt ks BlockOk (\<lambda>_. False) s = (None, s\<lparr>fsDisk :=
        foldl (\<lambda>d b. removeAll (\<lambda>_. False) (blDir b) d) (dir_put (compact_dir s) (BlockDir files) (fsDisk s)) (fsBlocks s),
      fsBlocks := [m]\<rparr>)"
    and m: "blDir m = compact_dir s"
    by (rule compact_run [OF assms(1-6)])
  let ?d = "foldl (\<lambda>d b. removeAll (\<lambda>_. False) (blDir b) d) (dir_put (compact_dir s) (BlockDir files) (fsDisk s)) (fsBlocks s)"
  have "hd (fsBlocks s) \<in> set (fsBlocks s)" using assms(2) by (intro hd_in_set) auto
  then have none: "map_of ?d (blDir m) = None"
    unfolding map_of_removeAll_list m using assms(7) by (metis image_eqI)
  have "blDir b \<in> fst ` set es" if "b \<in> set (openEntries J es)" for b es
    using that
    by (induction es rule: openEntries.induct) (auto split: sum.splits option.splits simp: openBlock_def
        split: entry.splits blockFile.splits)
  then have "blDir m \<notin> blDir ` set (openEntries J (readDir ?d))"
    using none by (fastforce simp: map_of_eq_None_iff)
  with run none show ?thesis by simp
qed

section \<open>Retention\<close>

lemma retainAge_blocks:
  "fst (retainAge stuck cutoff bs d) = filter (\<lambda>b. sint cutoff \<le> sint (bmMaxTime (blMeta b))) bs"
  by (induction bs arbitrary: d) (auto simp: case_prod_unfold)

lemma retainAge_disk:
  "map_of (snd (retainAge stuck cutoff bs d)) n =
     (if \<exists>b \<in> set bs. blDir b = n \<and> sint (bmMaxTime (blMeta b)) < sint cutoff \<and> \<not> stuck n then None else map_of d n)"
proof (induction bs arbitrary: d)
  case (Cons b bs)
  show ?case
    using Cons.IH [of d] Cons.IH [of "removeAll stuck (blDir b) d"]
    by (auto simp: map_of_removeAll case_prod_unfold)
qed simp

text \<open>A block older than the cutoff has no sample at or after it.\<close>

lemma old_block_samples:
  "block_ok L b \<Longrightarrow> sint (bmMaxTime (blMeta b)) < sint cutoff \<Longrightarrow>
   filter (not_before cutoff) (series_samples L (blSeries b) l) = []"
  by (fastforce simp: block_ok_def filter_empty_conv set_series_samples not_before_def)

lemma retained_samples:
  "\<forall>b \<in> set bs. block_ok L b \<Longrightarrow>
   filter (not_before cutoff) (blocks_samples L (filter (\<lambda>b. sint cutoff \<le> sint (bmMaxTime (blMeta b))) bs) l)
     = filter (not_before cutoff) (blocks_samples L bs l)"
  by (induction bs) (auto simp: blocks_samples_def old_block_samples not_le)


definition blocks_size :: "(string \<Rightarrow> blockFile entry \<Rightarrow> int option) \<Rightarrow> blocksDir \<Rightarrow> 'l block list \<Rightarrow> int" where
  "blocks_size info d bs = sum_list (map (\<lambda>b. blockDiskSize info d (blDir b)) bs)"

lemma blocks_size_removeAll:
  "dir \<notin> blDir ` set bs \<Longrightarrow> blocks_size info (removeAll stuck dir d) bs = blocks_size info d bs"
  unfolding blocks_size_def
  by (intro arg_cong [of _ _ sum_list] map_cong refl blockDiskSize_cong) (auto simp: map_of_removeAll)

lemma retainSize_spec:
  assumes "distinct (map blDir bs)"
  shows "\<exists>n d'. retainSize info stuck maxSize (blocks_size info d bs) bs d = (drop n bs, d') \<and> n \<le> length bs \<and>
    (drop n bs = [] \<or> blocks_size info d (drop n bs) \<le> maxSize) \<and>
    (\<forall>k < n. maxSize < blocks_size info d (drop k bs)) \<and>
    (\<forall>dir. dir \<notin> blDir ` set (take n bs) \<longrightarrow> map_of d' dir = map_of d dir)"
  using assms
proof (induction bs arbitrary: d)
  case Nil
  show ?case by simp
next
  case (Cons b bs)
  show ?case
  proof (cases "blocks_size info d (b # bs) > maxSize")
    case False
    then show ?thesis by (intro exI [of _ 0]) simp
  next
    case True
    let ?d = "removeAll stuck (blDir b) d"
    have rest: "blDir b \<notin> blDir ` set bs" using Cons.prems by simp
    have "blocks_size info d (b # bs) - blockDiskSize info d (blDir b) = blocks_size info ?d bs"
      using blocks_size_removeAll [OF rest] by (simp add: blocks_size_def)
    with True have run: "retainSize info stuck maxSize (blocks_size info d (b # bs)) (b # bs) d
        = retainSize info stuck maxSize (blocks_size info ?d bs) bs ?d" by simp
    have "distinct (map blDir bs)" using Cons.prems by simp
    from Cons.IH [OF this, of ?d] obtain n d' where n:
      "retainSize info stuck maxSize (blocks_size info ?d bs) bs ?d = (drop n bs, d')" "n \<le> length bs"
      "drop n bs = [] \<or> blocks_size info ?d (drop n bs) \<le> maxSize"
      "\<forall>k < n. maxSize < blocks_size info ?d (drop k bs)"
      "\<forall>dir. dir \<notin> blDir ` set (take n bs) \<longrightarrow> map_of d' dir = map_of ?d dir" by blast
    have same: "blocks_size info ?d (drop k bs) = blocks_size info d (drop k bs)" for k
      using rest by (intro blocks_size_removeAll) (auto dest: in_set_dropD)
    have "\<forall>k < Suc n. maxSize < blocks_size info d (drop k (b # bs))"
      using True n(4) by (auto simp: same less_Suc_eq_0_disj)
    with run n same show ?thesis
      by (intro exI [of _ "Suc n"] exI [of _ d']) (auto simp: map_of_removeAll)
  qed
qed


section \<open>Metadata queries\<close>

lemma set_blockNames:
  "set (blockNames L ss ms) = (\<Union>x \<in> {x \<in> set ss. matchesAll L (bsLabels x) ms}. fst ` set (lrange L (bsLabels x)))"
  by (induction ss) auto

lemma set_blockValues:
  "set (blockValues L name ss ms) =
     {v. v \<noteq> [] \<and> (\<exists>x \<in> set ss. matchesAll L (bsLabels x) ms \<and> v = lget L (bsLabels x) name)}"
  by (induction ss) (auto simp: Let_def)

lemma set_selectBlocks:
  "r \<in> set (selectBlocks L bs mint maxt ms) \<Longrightarrow>
   \<exists>b \<in> set bs. \<not> misses b mint maxt \<and> (\<exists>x \<in> set (blSeries b). matchesAll L (bsLabels x) ms \<and> srLabels r = bsLabels x)"
  by (induction bs) (auto simp: selectSeries_False set_selectLoop split: if_splits)

text \<open>\<open>LabelNames\<close> and \<open>LabelValues\<close> are sorted and free of duplicates and miss no label name, and
  no non-empty value of the given name, of the series \<open>Select\<close> answers. They may list more: a block
  that overlaps the time range counts with all its matching series, those without a sample in the
  range included.\<close>

theorem fs_labels:
  assumes "is_sort (series_less L) srt" and "fsSelect L srt ks s sortSeries mint maxt ms = Some it"
  shows "\<exists>names vals. fsLabelNames L ks s mint maxt ms = Inr names \<and> fsLabelValues L ks s name mint maxt ms = Inr vals \<and>
    sorted names \<and> distinct names \<and> sorted vals \<and> distinct vals \<and>
    (\<forall>r \<in> set (ssSeries it). fst ` set (lrange L (srLabels r)) \<subseteq> set names \<and>
       (lget L (srLabels r) name \<noteq> '''' \<longrightarrow> lget L (srLabels r) name \<in> set vals)) \<and>
    set names \<subseteq> (\<Union>r \<in> set (ssSeries it). fst ` set (lrange L (srLabels r))) \<union>
      (\<Union>b \<in> {b \<in> set (fsBlocks s). \<not> misses b mint maxt}.
         \<Union>x \<in> {x \<in> set (blSeries b). matchesAll L (bsLabels x) ms}. fst ` set (lrange L (bsLabels x)))"
proof -
  let ?M = "ssSeries (memSelect L srt ks (fsMem s) sortSeries mint maxt ms)"
  let ?B = "selectBlocks L (fsBlocks s) mint maxt ms"
  obtain mn mv where m: "memLabelNames L ks (fsMem s) mint maxt ms = Inr mn"
    "memLabelValues L ks (fsMem s) name mint maxt ms = Inr mv"
    by (simp add: memLabelNames_def memLabelValues_def)
  note mn = set_memLabelNames [OF m(1) assms(1), of sortSeries]
  note mv = set_memLabelValues [OF m(2) assms(1), of sortSeries]
  have "ssSeries it = (if sortSeries then srt (?M @ ?B) else ?M @ ?B)"
    using assms(2) by (auto simp: fsSelect_def memSelect_def Let_def)
  then have it: "set (ssSeries it) = set ?M \<union> set ?B" by (simp add: is_sort_set [OF assms(1)])
  define names where "names = sorted_strings (mn @
    concat (map (\<lambda>b. if misses b mint maxt then [] else blockNames L (blSeries b) ms) (fsBlocks s)))"
  define vals where "vals = sorted_strings (mv @
    concat (map (\<lambda>b. if misses b mint maxt then [] else blockValues L name (blSeries b) ms) (fsBlocks s)))"
  have run: "fsLabelNames L ks s mint maxt ms = Inr names" "fsLabelValues L ks s name mint maxt ms = Inr vals"
    by (simp_all add: fsLabelNames_def fsLabelValues_def m names_def vals_def)
  have "fst ` set (lrange L (srLabels r)) \<subseteq> set names \<and>
      (lget L (srLabels r) name \<noteq> '''' \<longrightarrow> lget L (srLabels r) name \<in> set vals)" if r: "r \<in> set (ssSeries it)" for r
  proof (cases "r \<in> set ?M")
    case True
    then show ?thesis by (auto simp: names_def vals_def mn mv)
  next
    case False
    with r it obtain b x where "b \<in> set (fsBlocks s)" "\<not> misses b mint maxt" "x \<in> set (blSeries b)"
      "matchesAll L (bsLabels x) ms" "srLabels r = bsLabels x" using set_selectBlocks by blast
    then show ?thesis by (auto simp: names_def vals_def set_blockNames set_blockValues)
  qed
  moreover have "set names \<subseteq> (\<Union>r \<in> set (ssSeries it). fst ` set (lrange L (srLabels r))) \<union>
      (\<Union>b \<in> {b \<in> set (fsBlocks s). \<not> misses b mint maxt}.
         \<Union>x \<in> {x \<in> set (blSeries b). matchesAll L (bsLabels x) ms}. fst ` set (lrange L (bsLabels x)))"
    (is "_ \<subseteq> ?U")
  proof
    fix n
    assume "n \<in> set names"
    then consider "n \<in> set mn" | b where "b \<in> set (fsBlocks s)" "\<not> misses b mint maxt" "n \<in> set (blockNames L (blSeries b) ms)"
      by (auto simp: names_def split: if_splits)
    then show "n \<in> ?U"
    proof cases
      case 1
      then show ?thesis unfolding it mn by blast
    next
      case 2
      then show ?thesis unfolding set_blockNames by blast
    qed
  qed
  moreover have "sorted names" "distinct names" "sorted vals" "distinct vals" by (simp_all add: names_def vals_def)
  ultimately show ?thesis using run by blast
qed

end
