(* ===== verification/Adapter.thy ===== *)
theory Adapter
  imports FsMaintain
begin

text \<open>
  \<open>internal/store/adapter.go\<close>: the store as a Prometheus \<open>storage.Queryable\<close>. The adapter only uses
  the query methods of the \<open>Store\<close> interface, which are the locale \<open>query_store\<close>; the locale is
  interpreted on the in-memory and on the persistent store. The adapter's own series set and its
  sample iterator are iterators in the sense of \<open>series_set\<close>.
\<close>

section \<open>The query side of the \<open>Store\<close> interface\<close>

text \<open>
  \<open>qmeta\<close> holds \<open>LabelNames\<close> (\<open>None\<close>) and \<open>LabelValues\<close> (\<open>Some name\<close>). The laws: draining the set
  that \<open>Select\<close> returns gives matching, non-empty series, with exactly the in-range samples held for
  every matching label set.
\<close>

locale query_store =
  fixes L :: "'l labels_api"
    and qsel :: "'s \<Rightarrow> bool \<Rightarrow> i64 \<Rightarrow> i64 \<Rightarrow> matcher list \<Rightarrow> 'it"
    and qnext :: "'it \<Rightarrow> bool \<times> 'it"
    and qat :: "'it \<Rightarrow> 'l series option"
    and held :: "'s \<Rightarrow> 'l \<Rightarrow> sample list"
    and qinv :: "'s \<Rightarrow> bool"
  assumes select_drains: "qinv s \<Longrightarrow> drain qnext qat (qsel s sortSeries mint maxt ms) \<noteq> None"
    and select_matches: "qinv s \<Longrightarrow> drain qnext qat (qsel s sortSeries mint maxt ms) = Some R \<Longrightarrow> r \<in> set R \<Longrightarrow>
      matchesAll L (srLabels r) ms \<and> srSamples r \<noteq> []"
    and select_held: "qinv s \<Longrightarrow> drain qnext qat (qsel s sortSeries mint maxt ms) = Some R \<Longrightarrow> matchesAll L l ms \<Longrightarrow>
      mset (answer_samples L R l) = mset (filter (in_range mint maxt) (held s l))"
    and select_sorted: "qinv s \<Longrightarrow> drain qnext qat (qsel s True mint maxt ms) = Some R \<Longrightarrow>
      sorted (map (\<lambda>r. lrange L (srLabels r)) R)"

section \<open>The adapter\<close>

text \<open>\<open>storage.SelectHints\<close>, of which the adapter reads two fields; 0 means that a field is not set.\<close>

record selectHints =
  hStart :: i64
  hEnd :: i64

record querier =
  qMint :: i64
  qMaxt :: i64

definition newQuerier :: "i64 \<Rightarrow> i64 \<Rightarrow> querier" where
  "newQuerier mint maxt = \<lparr>qMint = mint, qMaxt = maxt\<rparr>"

definition hintRange :: "querier \<Rightarrow> selectHints option \<Rightarrow> i64 \<times> i64" where
  "hintRange q hints =
     (case hints of
        None \<Rightarrow> (qMint q, qMaxt q)
      | Some h \<Rightarrow>
          (if hStart h \<noteq> 0 then hStart h else qMint q,
           if hEnd h \<noteq> 0 then hEnd h else qMaxt q))"

definition querierSelect ::
  "('s \<Rightarrow> bool \<Rightarrow> i64 \<Rightarrow> i64 \<Rightarrow> matcher list \<Rightarrow> 'it) \<Rightarrow> querier \<Rightarrow> 's \<Rightarrow> bool \<Rightarrow> selectHints option \<Rightarrow>
     matcher list \<Rightarrow> 'it" where
  "querierSelect sel q s sortSeries hints ms =
     (case hintRange q hints of (mint, maxt) \<Rightarrow> sel s sortSeries mint maxt ms)"

text \<open>The hints of the metadata queries are ignored.\<close>

definition querierLabelNames ::
  "('s \<Rightarrow> i64 \<Rightarrow> i64 \<Rightarrow> matcher list \<Rightarrow> string + string list) \<Rightarrow> querier \<Rightarrow> 's \<Rightarrow> matcher list \<Rightarrow> string + string list" where
  "querierLabelNames names q s ms = names s (qMint q) (qMaxt q) ms"

definition querierLabelValues ::
  "('s \<Rightarrow> string \<Rightarrow> i64 \<Rightarrow> i64 \<Rightarrow> matcher list \<Rightarrow> string + string list) \<Rightarrow> querier \<Rightarrow> 's \<Rightarrow> string \<Rightarrow> matcher list
     \<Rightarrow> string + string list" where
  "querierLabelValues vals q s name ms = vals s name (qMint q) (qMaxt q) ms"

subsection \<open>The sample iterator\<close>

datatype valueType = ValNone | ValFloat

record sampleIterator =
  siSamples :: "sample list"
  siIdx :: int

definition promIterator :: "'l series \<Rightarrow> sampleIterator" where
  "promIterator r = \<lparr>siSamples = srSamples r, siIdx = -1\<rparr>"

definition siNext :: "sampleIterator \<Rightarrow> valueType \<times> sampleIterator" where
  "siNext it =
     (let it = it\<lparr>siIdx := siIdx it + 1\<rparr>
      in (if siIdx it \<ge> int (length (siSamples it)) then ValNone else ValFloat, it))"

function siSeekLoop :: "sampleIterator \<Rightarrow> i64 \<Rightarrow> valueType \<times> sampleIterator" where
  "siSeekLoop it t =
     (if siIdx it < int (length (siSamples it)) then
        if sint (sT (siSamples it ! nat (siIdx it))) \<ge> sint t then (ValFloat, it)
        else siSeekLoop (it\<lparr>siIdx := siIdx it + 1\<rparr>) t
      else (ValNone, it))"
  by pat_completeness auto
termination
  by (relation "measure (\<lambda>(it, t). nat (int (length (siSamples it)) - siIdx it))") auto

declare siSeekLoop.simps [simp del]

definition siSeek :: "sampleIterator \<Rightarrow> i64 \<Rightarrow> valueType \<times> sampleIterator" where
  "siSeek it t = siSeekLoop (if siIdx it < 0 then it\<lparr>siIdx := 0\<rparr> else it) t"

text \<open>\<open>At\<close> indexes the slice; outside of it Go panics, here \<open>None\<close>.\<close>

definition siAt :: "sampleIterator \<Rightarrow> (i64 \<times> f64) option" where
  "siAt it =
     (if 0 \<le> siIdx it \<and> siIdx it < int (length (siSamples it))
      then let s = siSamples it ! nat (siIdx it) in Some (sT s, sV s) else None)"

definition siAtT :: "sampleIterator \<Rightarrow> i64" where
  "siAtT it =
     (if siIdx it < 0 \<or> siIdx it \<ge> int (length (siSamples it)) then 0
      else sT (siSamples it ! nat (siIdx it)))"

definition siErr :: "sampleIterator \<Rightarrow> err" where
  "siErr it = None"

subsection \<open>Reading an answer as the query engine does\<close>

text \<open>\<open>promSeriesSet.At\<close> wraps the series; the engine walks the set and, for each series, a fresh
  iterator.\<close>

definition promAt :: "('it \<Rightarrow> 'l series option) \<Rightarrow> 'it \<Rightarrow> ('l \<times> sampleIterator) option" where
  "promAt at it = map_option (\<lambda>r. (srLabels r, promIterator r)) (at it)"

definition siNextBool :: "sampleIterator \<Rightarrow> bool \<times> sampleIterator" where
  "siNextBool it = (case siNext it of (v, it') \<Rightarrow> (v \<noteq> ValNone, it'))"

definition siRest :: "sampleIterator \<Rightarrow> (i64 \<times> f64) list" where
  "siRest it = map (\<lambda>s. (sT s, sV s)) (drop (nat (siIdx it + 1)) (siSamples it))"

definition siInv :: "sampleIterator \<Rightarrow> bool" where
  "siInv it \<longleftrightarrow> -1 \<le> siIdx it"

interpretation samples: series_set siNextBool siAt siRest siInv
proof
  fix it :: sampleIterator and x xs
  show "siInv it \<Longrightarrow> siRest it = [] \<Longrightarrow> \<not> fst (siNextBool it)"
    by (auto simp: siInv_def siRest_def siNextBool_def siNext_def Let_def)
  show "siInv it \<Longrightarrow> siInv (snd (siNextBool it))"
    by (simp add: siInv_def siNextBool_def siNext_def Let_def)
  assume inv: "siInv it" and rest: "siRest it = x # xs"
  define i where "i = nat (siIdx it + 1)"
  have i: "siIdx it + 1 = int i" using inv by (simp add: i_def siInv_def)
  have len: "i < length (siSamples it)"
  proof (rule ccontr)
    assume "\<not> i < length (siSamples it)"
    then show False using rest by (simp add: siRest_def i_def [symmetric])
  qed
  then have "drop i (siSamples it) = siSamples it ! i # drop (Suc i) (siSamples it)"
    by (simp add: Cons_nth_drop_Suc)
  then have "x = (sT (siSamples it ! i), sV (siSamples it ! i))"
    "xs = map (\<lambda>s. (sT s, sV s)) (drop (Suc i) (siSamples it))"
    using rest by (simp_all add: siRest_def i_def [symmetric])
  with len show "fst (siNextBool it) \<and> siAt (snd (siNextBool it)) = Some x \<and> siRest (snd (siNextBool it)) = xs"
    by (simp add: siNextBool_def siNext_def siAt_def siRest_def i Let_def nat_add_distrib)
qed

definition readSeries :: "'l \<times> sampleIterator \<Rightarrow> ('l \<times> (i64 \<times> f64) list) option" where
  "readSeries p = map_option (\<lambda>xs. (fst p, xs)) (drain siNextBool siAt (snd p))"

definition promRead ::
  "('it \<Rightarrow> bool \<times> 'it) \<Rightarrow> ('it \<Rightarrow> 'l series option) \<Rightarrow> 'it \<Rightarrow> ('l \<times> (i64 \<times> f64) list) option list option" where
  "promRead nxt at it = map_option (map readSeries) (drain nxt (promAt at) it)"

lemma readSeries_iterator:
  "readSeries (l, promIterator r) = Some (l, map (\<lambda>s. (sT s, sV s)) (srSamples r))"
  using samples.drain_rest [of "promIterator r"]
  by (simp add: readSeries_def promIterator_def siInv_def siRest_def)

lemma drain_promAt:
  "drain nxt at it = Some R \<Longrightarrow> drain nxt (promAt at) it = Some (map (\<lambda>r. (srLabels r, promIterator r)) R)"
proof (induction R arbitrary: it)
  case Nil
  then have "\<not> fst (nxt it)"
    using drain.simps [of nxt at it] by (auto simp: bind_eq_Some_conv split: if_splits)
  then show ?case by (simp add: drain.simps [of nxt "promAt at" it])
next
  case (Cons r R)
  then have "fst (nxt it)" "at (snd (nxt it)) = Some r" "drain nxt at (snd (nxt it)) = Some R"
    using drain.simps [of nxt at it] by (auto simp: bind_eq_Some_conv split: if_splits)
  moreover from this have "promAt at (snd (nxt it)) = Some (srLabels r, promIterator r)" by (simp add: promAt_def)
  ultimately show ?case using Cons.IH by (simp add: drain.simps [of nxt "promAt at" it])
qed

context query_store
begin

text \<open>What the engine reads is the drained answer, series by series and sample by sample.\<close>

lemma promRead_select:
  assumes "qinv s"
  shows "\<exists>R. promRead qnext qat (querierSelect qsel q s sortSeries hints ms)
      = Some (map (\<lambda>r. Some (srLabels r, map (\<lambda>x. (sT x, sV x)) (srSamples r))) R) \<and>
    (\<forall>r \<in> set R. matchesAll L (srLabels r) ms \<and> srSamples r \<noteq> []) \<and>
    (\<forall>l. matchesAll L l ms \<longrightarrow> mset (answer_samples L R l) =
       mset (filter (in_range (fst (hintRange q hints)) (snd (hintRange q hints))) (held s l))) \<and>
    (sortSeries \<longrightarrow> sorted (map (\<lambda>r. lrange L (srLabels r)) R))"
proof -
  let ?mint = "fst (hintRange q hints)" and ?maxt = "snd (hintRange q hints)"
  obtain R where R: "drain qnext qat (qsel s sortSeries ?mint ?maxt ms) = Some R"
    using select_drains [OF assms] by blast
  have sel: "querierSelect qsel q s sortSeries hints ms = qsel s sortSeries ?mint ?maxt ms"
    by (simp add: querierSelect_def split: prod.split)
  have "promRead qnext qat (querierSelect qsel q s sortSeries hints ms)
      = Some (map (\<lambda>r. Some (srLabels r, map (\<lambda>x. (sT x, sV x)) (srSamples r))) R)"
    by (simp add: promRead_def sel drain_promAt [OF R] readSeries_iterator comp_def)
  moreover have "sorted (map (\<lambda>r. lrange L (srLabels r)) R)" if sortSeries
    using select_sorted [OF assms] R that by simp
  ultimately show ?thesis
    using select_matches [OF assms R] select_held [OF assms R] by (intro exI [of _ R]) simp
qed

end

section \<open>The stores behind the interface\<close>

text \<open>
  The parameters of the stores that stand for the labels package, \<open>sort.Slice\<close> and the order of map
  iteration, which may depend on the store.
\<close>

definition mem_qinv ::
  "'l labels_api \<Rightarrow> ('l series list \<Rightarrow> 'l series list) \<Rightarrow> ('l memStore \<Rightarrow> u64 list) \<Rightarrow> 'l memStore \<Rightarrow> bool" where
  "mem_qinv L srt ks s \<longleftrightarrow> labels_ok L \<and> is_sort (series_less L) srt \<and> ranges (ks s) (memSeriesOf s) \<and> mem_ok L s"

lemma mem_query:
  assumes "mem_qinv L srt ks s" and "drain ssNext ssAt (memSelect L srt (ks s) s sortSeries mint maxt ms) = Some R"
  shows "(\<forall>r \<in> set R. matchesAll L (srLabels r) ms \<and> srSamples r \<noteq> []) \<and>
    (\<forall>l. matchesAll L l ms \<longrightarrow> answer_samples L R l = filter (in_range mint maxt) (mem_samples L s l)) \<and>
    (sortSeries \<longrightarrow> sorted (map (\<lambda>r. lrange L (srLabels r)) R))"
proof -
  have inv: "labels_ok L" "is_sort (series_less L) srt" "ranges (ks s) (memSeriesOf s)" "mem_ok L s"
    using assms(1) by (simp_all add: mem_qinv_def)
  have R: "R = ssSeries (memSelect L srt (ks s) s sortSeries mint maxt ms)"
    using assms(2) by (simp add: memSelect_def Let_def)
  note spec = memSelect_spec [OF inv(1,4,3,2), of ms mint maxt sortSeries, folded R]
  have "answer_samples L R l = filter (in_range mint maxt) (mem_samples L s l)" if "matchesAll L l ms" for l
    by (rule select_spec_answer [OF inv(1) spec that mem_samples_cong [OF inv(1)]])
  with spec memSelect_sorted [OF inv(1,2)] R show ?thesis
    by (auto simp: select_spec_def)
qed

interpretation memq: query_store L "\<lambda>s. memSelect L srt (ks s) s" ssNext ssAt "mem_samples L" "mem_qinv L srt ks"
proof
  fix s sortSeries mint maxt ms R r l
  assume inv: "mem_qinv L srt ks s"
  show "drain ssNext ssAt (memSelect L srt (ks s) s sortSeries mint maxt ms) \<noteq> None"
    by (simp add: memSelect_def Let_def)
  { assume "drain ssNext ssAt (memSelect L srt (ks s) s sortSeries mint maxt ms) = Some R"
    note q = mem_query [OF inv this]
    { assume "r \<in> set R"
      with q show "matchesAll L (srLabels r) ms \<and> srSamples r \<noteq> []" by blast }
    { assume "matchesAll L l ms"
      with q show "mset (answer_samples L R l) = mset (filter (in_range mint maxt) (mem_samples L s l))" by simp } }
  assume "drain ssNext ssAt (memSelect L srt (ks s) s True mint maxt ms) = Some R"
  from mem_query [OF inv this] show "sorted (map (\<lambda>r. lrange L (srLabels r)) R)" by simp
qed

text \<open>The persistent store hands out the same iterator, behind the option of its own drain.\<close>

definition fs_qinv ::
  "'l labels_api \<Rightarrow> ('l series list \<Rightarrow> 'l series list) \<Rightarrow> ('l fsStore \<Rightarrow> u64 list) \<Rightarrow> 'l fsStore \<Rightarrow> bool" where
  "fs_qinv L srt ks s \<longleftrightarrow> labels_ok L \<and> is_sort (series_less L) srt \<and> ranges (ks s) (memSeriesOf (fsMem s)) \<and> fs_ok L s"

text \<open>The head's iterator always drains, so the case of a panic does not arise (\<open>fsSelect_some\<close>).\<close>

definition fsSelectIt ::
  "'l labels_api \<Rightarrow> ('l series list \<Rightarrow> 'l series list) \<Rightarrow> ('l fsStore \<Rightarrow> u64 list) \<Rightarrow> 'l fsStore \<Rightarrow> bool \<Rightarrow> i64 \<Rightarrow> i64 \<Rightarrow>
     matcher list \<Rightarrow> 'l sliceSeriesSet" where
  "fsSelectIt L srt ks s sortSeries mint maxt ms =
     (case fsSelect L srt (ks s) s sortSeries mint maxt ms of Some it \<Rightarrow> it | None \<Rightarrow> newSliceSeriesSet [])"

lemma fsSelect_some:
  "fsSelect L srt ks s sortSeries mint maxt ms = Some (newSliceSeriesSet
     (let R = ssSeries (memSelect L srt ks (fsMem s) sortSeries mint maxt ms) @ selectBlocks L (fsBlocks s) mint maxt ms
      in if sortSeries then srt R else R))"
  by (simp add: fsSelect_def memSelect_def Let_def)

lemma fs_query:
  assumes "fs_qinv L srt ks s" and "drain ssNext ssAt (fsSelectIt L srt ks s sortSeries mint maxt ms) = Some R"
  shows "(\<forall>r \<in> set R. matchesAll L (srLabels r) ms \<and> srSamples r \<noteq> []) \<and>
    (\<forall>l. matchesAll L l ms \<longrightarrow> mset (answer_samples L R l) = mset (filter (in_range mint maxt) (fs_samples L s l))) \<and>
    (sortSeries \<longrightarrow> sorted (map (\<lambda>r. lrange L (srLabels r)) R))"
proof -
  have inv: "labels_ok L" "is_sort (series_less L) srt" "ranges (ks s) (memSeriesOf (fsMem s))" "fs_ok L s"
    using assms(1) by (simp_all add: fs_qinv_def)
  obtain it where it: "fsSelect L srt (ks s) s sortSeries mint maxt ms = Some it"
    "(\<forall>r \<in> set (ssSeries it). matchesAll L (srLabels r) ms \<and> srSamples r \<noteq> []) \<and>
     (\<forall>l. matchesAll L l ms \<longrightarrow>
       mset (answer_samples L (ssSeries it) l) = mset (filter (in_range mint maxt) (fs_samples L s l))) \<and>
     (sortSeries \<longrightarrow> sorted (map (\<lambda>r. lrange L (srLabels r)) (ssSeries it)))"
    using fs_select_answer [OF inv(1,4,3,2)] by metis
  then have "R = ssSeries it"
    using assms(2) by (auto simp: fsSelectIt_def fsSelect_some)
  with it(2) show ?thesis by simp
qed

interpretation fsq: query_store L "fsSelectIt L srt ks" ssNext ssAt "fs_samples L" "fs_qinv L srt ks"
proof
  fix s sortSeries mint maxt ms R r l
  assume inv: "fs_qinv L srt ks s"
  show "drain ssNext ssAt (fsSelectIt L srt ks s sortSeries mint maxt ms) \<noteq> None"
    by (simp add: fsSelectIt_def fsSelect_some)
  { assume "drain ssNext ssAt (fsSelectIt L srt ks s sortSeries mint maxt ms) = Some R"
    note q = fs_query [OF inv this]
    { assume "r \<in> set R"
      with q show "matchesAll L (srLabels r) ms \<and> srSamples r \<noteq> []" by blast }
    { assume "matchesAll L l ms"
      with q show "mset (answer_samples L R l) = mset (filter (in_range mint maxt) (fs_samples L s l))" by simp } }
  assume "drain ssNext ssAt (fsSelectIt L srt ks s True mint maxt ms) = Some R"
  from fs_query [OF inv this] show "sorted (map (\<lambda>r. lrange L (srLabels r)) R)" by simp
qed

section \<open>Seeking\<close>

lemma siSeekLoop_spec:
  assumes "0 \<le> siIdx it" and "siSeekLoop it t = (v, it')"
  shows "siSamples it' = siSamples it \<and> siIdx it \<le> siIdx it' \<and>
    (\<forall>i. siIdx it \<le> int i \<and> int i < siIdx it' \<and> i < length (siSamples it) \<longrightarrow> sint (sT (siSamples it ! i)) < sint t) \<and>
    (if v = ValFloat then siIdx it' < int (length (siSamples it)) \<and> sint t \<le> sint (sT (siSamples it ! nat (siIdx it')))
     else int (length (siSamples it)) \<le> siIdx it')"
  using assms
proof (induction it t rule: siSeekLoop.induct)
  case (1 it t)
  show ?case
  proof (cases "siIdx it < int (length (siSamples it)) \<and> \<not> sint t \<le> sint (sT (siSamples it ! nat (siIdx it)))")
    case True
    let ?it = "it\<lparr>siIdx := siIdx it + 1\<rparr>"
    have run: "siSeekLoop ?it t = (v, it')" using True "1.prems"(2) by (simp add: siSeekLoop.simps [of it])
    have nonneg: "0 \<le> siIdx ?it" using "1.prems"(1) by simp
    from True have "siIdx it < int (length (siSamples it))" "\<not> sint t \<le> sint (sT (siSamples it ! nat (siIdx it)))" by simp_all
    from "1.IH" [OF this nonneg run] have IH: "siSamples it' = siSamples ?it \<and> siIdx ?it \<le> siIdx it' \<and>
      (\<forall>i. siIdx ?it \<le> int i \<and> int i < siIdx it' \<and> i < length (siSamples ?it) \<longrightarrow> sint (sT (siSamples ?it ! i)) < sint t) \<and>
      (if v = ValFloat then siIdx it' < int (length (siSamples ?it)) \<and> sint t \<le> sint (sT (siSamples ?it ! nat (siIdx it')))
       else int (length (siSamples ?it)) \<le> siIdx it')"
      .
    have "sint (sT (siSamples it ! i)) < sint t"
      if "siIdx it \<le> int i \<and> int i < siIdx it' \<and> i < length (siSamples it)" for i
    proof (cases "int i = siIdx it")
      case eq: True
      then have "nat (siIdx it) = i" by simp
      with True show ?thesis by simp
    next
      case False
      with that IH show ?thesis by simp
    qed
    with IH show ?thesis by (cases v) simp_all
  next
    case False
    with "1.prems" show ?thesis by (auto simp: siSeekLoop.simps [of it] split: if_splits)
  qed
qed

section \<open>Properties\<close>

text \<open>What the query engine reads through the adapter from the persistent store, draining the
  series set and the iterator of each series, is exactly the matching samples that the head and the
  blocks hold in the querier's range, or in the range of the hints where they are set; it is in
  label order when asked to sort.\<close>

theorem adapter_select:
  assumes "fs_qinv L srt ks s"
  shows "\<exists>R. promRead ssNext ssAt (querierSelect (fsSelectIt L srt ks) q s sortSeries hints ms)
      = Some (map (\<lambda>r. Some (srLabels r, map (\<lambda>x. (sT x, sV x)) (srSamples r))) R) \<and>
    (\<forall>r \<in> set R. matchesAll L (srLabels r) ms \<and> srSamples r \<noteq> []) \<and>
    (\<forall>l. matchesAll L l ms \<longrightarrow> mset (answer_samples L R l) =
       mset (filter (in_range (fst (hintRange q hints)) (snd (hintRange q hints))) (fs_samples L s l))) \<and>
    (sortSeries \<longrightarrow> sorted (map (\<lambda>r. lrange L (srLabels r)) R))"
  by (rule fsq.promRead_select [OF assms])

text \<open>\<open>Seek\<close> moves the iterator forward to the first sample from its position on (from the start
  when it is fresh) whose timestamp is not before \<open>t\<close>: every sample passed over is before \<open>t\<close>, \<open>AtT\<close>
  and \<open>At\<close> then read that sample, and \<open>ValNone\<close> means that there is none. On a sample that is not
  before \<open>t\<close> already, the iterator stays where it is.\<close>

theorem adapter_seek:
  assumes "siSeek it t = (v, it')"
  shows "siSamples it' = siSamples it \<and> max 0 (siIdx it) \<le> siIdx it' \<and>
    (\<forall>i. max 0 (siIdx it) \<le> int i \<and> int i < siIdx it' \<and> i < length (siSamples it) \<longrightarrow> sint (sT (siSamples it ! i)) < sint t) \<and>
    (if v = ValFloat then sint t \<le> sint (siAtT it') \<and> map_option fst (siAt it') = Some (siAtT it')
     else siAt it' = None) \<and>
    (0 \<le> siIdx it \<and> siIdx it < int (length (siSamples it)) \<and> sint t \<le> sint (siAtT it) \<longrightarrow> it' = it)"
proof -
  let ?it = "if siIdx it < 0 then it\<lparr>siIdx := 0\<rparr> else it"
  have nonneg: "0 \<le> siIdx ?it" by simp
  have loop: "siSeekLoop ?it t = (v, it')" using assms by (simp add: siSeek_def)
  from siSeekLoop_spec [OF nonneg loop]
  have spec: "siSamples it' = siSamples it" "max 0 (siIdx it) \<le> siIdx it'"
    "\<forall>i. max 0 (siIdx it) \<le> int i \<and> int i < siIdx it' \<and> i < length (siSamples it) \<longrightarrow> sint (sT (siSamples it ! i)) < sint t"
    "if v = ValFloat then siIdx it' < int (length (siSamples it)) \<and> sint t \<le> sint (sT (siSamples it ! nat (siIdx it')))
     else int (length (siSamples it)) \<le> siIdx it'"
    by (auto simp: max_def split: if_splits)
  have "it' = it" if "0 \<le> siIdx it" "siIdx it < int (length (siSamples it))" "sint t \<le> sint (siAtT it)"
    using loop that by (simp add: siSeekLoop.simps [of it] siAtT_def)
  moreover have "if v = ValFloat then sint t \<le> sint (siAtT it') \<and> map_option fst (siAt it') = Some (siAtT it') else siAt it' = None"
    using spec(1,2,4) by (auto simp: siAtT_def siAt_def Let_def split: if_splits)
  ultimately show ?thesis using spec(1-3) by simp
qed

theorem adapter_seek_witness:
  "siSeek \<lparr>siSamples = [\<lparr>sT = 5, sV = 1\<rparr>, \<lparr>sT = 7, sV = 2\<rparr>], siIdx = -1\<rparr> 6
     = (ValFloat, \<lparr>siSamples = [\<lparr>sT = 5, sV = 1\<rparr>, \<lparr>sT = 7, sV = 2\<rparr>], siIdx = 1\<rparr>) \<and>
   siAtT \<lparr>siSamples = [\<lparr>sT = 5, sV = 1\<rparr>, \<lparr>sT = 7, sV = 2\<rparr>], siIdx = 1\<rparr> = 7"
proof -
  have run: "siSeek \<lparr>siSamples = [\<lparr>sT = 5, sV = 1\<rparr>, \<lparr>sT = 7, sV = 2\<rparr>], siIdx = -1\<rparr> 6
     = (ValFloat, \<lparr>siSamples = [\<lparr>sT = 5, sV = 1\<rparr>, \<lparr>sT = 7, sV = 2\<rparr>], siIdx = 1\<rparr>)"
    by (simp add: siSeek_def siSeekLoop.simps)
  from adapter_seek [OF run] run show ?thesis by (simp add: siAtT_def)
qed

end
