(* ===== verification/Ingest.thy ===== *)
theory Ingest
  imports TranslatorSpec FsMaintain
begin

text \<open>
  \<open>internal/ingest/grpc.go\<close> and \<open>http.go\<close>: the two OTLP receivers. Both take their translator and
  their store through interfaces: a translator is a function of the request and an appender, a store
  is its table of appender methods together with \<open>Appender\<close>. What the receivers promise to a
  client is proved in the locale \<open>metrics_store\<close> and read off for the in-memory and the persistent
  store.
\<close>

section \<open>The interfaces\<close>

text \<open>\<open>metricsTranslator\<close>: the state of the translator is \<open>'tr\<close>, that of the appender \<open>'a\<close>.\<close>

type_synonym ('tr, 'a) metricsTranslator = "exportRequest option \<Rightarrow> 'tr \<Rightarrow> 'a \<Rightarrow> (nat \<times> err) \<times> 'tr \<times> 'a"

text \<open>\<open>metricsStore\<close>: \<open>Appender(ctx)\<close>, and what has become of the store after its appender's calls.\<close>

record ('s, 'a, 'l) metricsStore =
  msAppender :: "'s \<Rightarrow> 'a"
  msOps :: "('a, 'l) appender_ops"
  msStore :: "'a \<Rightarrow> 's"

text \<open>The \<open>Translator\<close> as a \<open>metricsTranslator\<close>: its own state has no appender in it.\<close>

definition translator_of ::
  "'l translator_env \<Rightarrow> ('a, 'l) appender_ops \<Rightarrow> translationConfig \<Rightarrow> (unit trState, 'a) metricsTranslator" where
  "translator_of E ops cfg req tr a =
     (case translate E ops cfg req \<lparr>trDelta = trDelta tr, trClock = trClock tr, trApp = a\<rparr> of
        (r, st) \<Rightarrow> (r, \<lparr>trDelta = trDelta st, trClock = trClock st, trApp = ()\<rparr>, trApp st))"

section \<open>The gRPC receiver\<close>

datatype grpcCode = InvalidArgument | Internal

text \<open>
  The result of \<open>Export\<close>: a status error, or a response, which carries the error message of a partial
  success. The last steps are shared by both receivers: after a translation error nothing, or what
  was translated, is committed.
\<close>

definition rolledBack :: "('s, 'a, 'l) metricsStore \<Rightarrow> 'a \<Rightarrow> 's" where
  "rolledBack M a = msStore M (snd (apRollback (msOps M) a))"

definition commitOr ::
  "('s, 'a, 'l) metricsStore \<Rightarrow> err \<Rightarrow> 'a \<Rightarrow> ((grpcCode \<times> string) + err) \<times> 's" where
  "commitOr M partial a =
     (case apCommit (msOps M) a of
        (Some e, a) \<Rightarrow> (Inl (Internal, e), rolledBack M a)
      | (None, a) \<Rightarrow> (Inr partial, msStore M a))"

definition ingest ::
  "('tr, 'a) metricsTranslator \<Rightarrow> ('s, 'a, 'l) metricsStore \<Rightarrow> exportRequest \<Rightarrow> 'tr \<times> 's \<Rightarrow>
     ((grpcCode \<times> string) + err) \<times> ('tr \<times> 's)" where
  "ingest T M rms st =
     (case T (Some rms) (fst st) (msAppender M (snd st)) of
        ((n, Some e), tr, a) \<Rightarrow>
          if n = 0 then (Inl (InvalidArgument, e), (tr, rolledBack M a))
          else (case commitOr M (Some e) a of (r, s) \<Rightarrow> (r, (tr, s)))
      | ((n, None), tr, a) \<Rightarrow> (case commitOr M None a of (r, s) \<Rightarrow> (r, (tr, s))))"

definition export ::
  "('tr, 'a) metricsTranslator \<Rightarrow> ('s, 'a, 'l) metricsStore \<Rightarrow> exportRequest option \<Rightarrow> 'tr \<times> 's \<Rightarrow>
     ((grpcCode \<times> string) + err) \<times> ('tr \<times> 's)" where
  "export T M req st =
     (case req of
        None \<Rightarrow> (Inr None, st)
      | Some rms \<Rightarrow> if rms = [] then (Inr None, st) else ingest T M rms st)"

section \<open>The HTTP receiver\<close>

text \<open>
  A reader: the bytes it delivers, and the error it then returns (\<open>None\<close> is \<open>io.EOF\<close>).
  \<open>io.ReadAll(io.LimitReader(r, n))\<close> sees the end after \<open>n\<close> bytes, whatever follows.
\<close>

type_synonym reader = "byte list \<times> err"

definition readLimited :: "int \<Rightarrow> reader \<Rightarrow> string + byte list" where
  "readLimited n r =
     (if nat n \<le> length (fst r) then Inr (take (nat n) (fst r))
      else case snd r of Some e \<Rightarrow> Inl e | None \<Rightarrow> Inr (fst r))"

record httpRequest =
  rqMethod :: string
  rqContentType :: string
  rqContentEncoding :: string
  rqBody :: reader

text \<open>
  What the receiver takes from other packages: \<open>gzip.NewReader\<close>, the two decoders and the two
  encoders of the response (whose only content is the partial-success message).
\<close>

record http_codec =
  hcGzip :: "reader \<Rightarrow> string + reader"
  hcJsonDecode :: "byte list \<Rightarrow> exportRequest option"
  hcProtoDecode :: "byte list \<Rightarrow> exportRequest option"
  hcJsonEncode :: "err \<Rightarrow> byte list option"
  hcProtoEncode :: "err \<Rightarrow> byte list option"

datatype httpResponse = HttpError nat string | HttpOK string "byte list"

fun contains :: "string \<Rightarrow> string \<Rightarrow> bool" where
  "contains [] pat = (pat = [])"
| "contains (c # cs) pat = (take (length pat) (c # cs) = pat \<or> contains cs pat)"

definition readBody :: "http_codec \<Rightarrow> int \<Rightarrow> httpRequest \<Rightarrow> string + byte list" where
  "readBody C maxBodySize r =
     (if rqContentEncoding r = ''gzip'' then
        (case hcGzip C (rqBody r) of Inl e \<Rightarrow> Inl e | Inr gz \<Rightarrow> readLimited maxBodySize gz)
      else readLimited maxBodySize (rqBody r))"

definition writeResponse :: "http_codec \<Rightarrow> string \<Rightarrow> err \<Rightarrow> httpResponse" where
  "writeResponse C ct partial =
     (if contains ct ''json'' then
        (case hcJsonEncode C partial of
           None \<Rightarrow> HttpError 500 ''failed to marshal response''
         | Some data \<Rightarrow> HttpOK ''application/json'' data)
      else
        (case hcProtoEncode C partial of
           None \<Rightarrow> HttpError 500 ''failed to marshal response''
         | Some data \<Rightarrow> HttpOK ''application/x-protobuf'' data))"

definition httpDecode :: "http_codec \<Rightarrow> string \<Rightarrow> byte list \<Rightarrow> exportRequest option" where
  "httpDecode C ct body = (if contains ct ''json'' then hcJsonDecode C body else hcProtoDecode C body)"

definition httpStatus :: "grpcCode \<Rightarrow> nat" where
  "httpStatus c = (case c of InvalidArgument \<Rightarrow> 400 | Internal \<Rightarrow> 500)"

definition serveHTTP ::
  "http_codec \<Rightarrow> ('tr, 'a) metricsTranslator \<Rightarrow> ('s, 'a, 'l) metricsStore \<Rightarrow> int \<Rightarrow> httpRequest \<Rightarrow> 'tr \<times> 's \<Rightarrow>
     httpResponse \<times> ('tr \<times> 's)" where
  "serveHTTP C T M maxBodySize r st =
     (if rqMethod r \<noteq> ''POST'' then (HttpError 405 ''method not allowed'', st)
      else case readBody C maxBodySize r of
        Inl e \<Rightarrow> (HttpError 400 ''failed to read body'', st)
      | Inr body \<Rightarrow>
          let ct = rqContentType r
          in case httpDecode C ct body of
               None \<Rightarrow>
                 (HttpError 400 (if contains ct ''json'' then ''invalid JSON payload'' else ''invalid protobuf payload''), st)
             | Some rms \<Rightarrow>
                 if rms = [] then (writeResponse C ct None, st)
                 else (case ingest T M rms st of
                         (Inl (c, e), st) \<Rightarrow> (HttpError (httpStatus c) e, st)
                       | (Inr partial, st) \<Rightarrow> (writeResponse C ct partial, st)))"

text \<open>The ways through \<open>ServeHTTP\<close>: refused before the store is touched, nothing to store, or ingested.\<close>

lemma serveHTTP_cases:
  assumes "serveHTTP C T M maxBodySize r st = (resp, st')"
  shows "(\<exists>code msg. st' = st \<and> resp = HttpError code msg) \<or>
    (\<exists>body rms. readBody C maxBodySize r = Inr body \<and> httpDecode C (rqContentType r) body = Some rms \<and>
      rms = [] \<and> st' = st \<and> resp = writeResponse C (rqContentType r) None) \<or>
    (\<exists>body rms x. readBody C maxBodySize r = Inr body \<and> httpDecode C (rqContentType r) body = Some rms \<and>
      ingest T M rms st = (x, st') \<and>
      resp = (case x of Inl (c, e) \<Rightarrow> HttpError (httpStatus c) e | Inr m \<Rightarrow> writeResponse C (rqContentType r) m))"
proof (cases "\<exists>body rms. rqMethod r = ''POST'' \<and> readBody C maxBodySize r = Inr body \<and>
    httpDecode C (rqContentType r) body = Some rms \<and> rms \<noteq> []")
  case True
  then obtain body rms where b: "rqMethod r = ''POST''" "readBody C maxBodySize r = Inr body"
    "httpDecode C (rqContentType r) body = Some rms" "rms \<noteq> []" by blast
  obtain x st1 where i: "ingest T M rms st = (x, st1)" by (rule prod.exhaust)
  then have "st1 = st'"
    "resp = (case x of Inl (c, e) \<Rightarrow> HttpError (httpStatus c) e | Inr m \<Rightarrow> writeResponse C (rqContentType r) m)"
    using assms b by (auto simp: serveHTTP_def Let_def split: sum.splits)
  with b i show ?thesis by blast
next
  case False
  then show ?thesis
    using assms by (auto simp: serveHTTP_def Let_def split: if_splits sum.splits option.splits)
qed

section \<open>What a store promises to the receivers\<close>

locale metrics_store = store_appender ops pend store
  for ops :: "('a, 'l) appender_ops" and pend :: "'a \<Rightarrow> 'l pendingSample list" and store :: "'a \<Rightarrow> 's" +
  fixes L :: "'l labels_api"
    and newApp :: "'s \<Rightarrow> 'a"
    and held :: "'s \<Rightarrow> 'l \<Rightarrow> sample list"
  assumes new_pend: "pend (newApp s) = []"
    and new_store: "store (newApp s) = s"
    and commit_held: "labels_ok L \<Longrightarrow> fst (apCommit ops a) = None \<Longrightarrow>
      mset (held (store (snd (apCommit ops a))) l) = mset (held (store a) l) + mset (batch_samples L (pend a) l)"
    and commit_failed: "fst (apCommit ops a) = Some e \<Longrightarrow> held (store (snd (apCommit ops a))) l = held (store a) l"
begin

abbreviation "methods \<equiv> \<lparr>msAppender = newApp, msOps = ops, msStore = store\<rparr>"

lemma translator_runs:
  obtains a where "translator_of E ops cfg (Some rms) tr (newApp s) =
      ((length (request_jobs E cfg rms), None), snd (run_jobs E (request_jobs E cfg rms) tr), a)"
    "pend a = fst (run_jobs E (request_jobs E cfg rms) tr)" "store a = s"
proof -
  let ?js = "request_jobs E cfg rms"
  let ?st = "\<lparr>trDelta = trDelta tr, trClock = trClock tr, trApp = newApp s\<rparr>"
  obtain a where a: "translate E ops cfg (Some rms) ?st = ((length ?js, None), (snd (run_jobs E ?js ?st))\<lparr>trApp := a\<rparr>)"
    "pend a = fst (run_jobs E ?js ?st)" "store a = s"
    using translate_runs [of E cfg rms, unfolded runs_def, THEN spec, of ?st] new_pend new_store by auto
  have "fst (run_jobs E ?js ?st) = fst (run_jobs E ?js tr)"
    "trDelta (snd (run_jobs E ?js ?st)) = trDelta (snd (run_jobs E ?js tr))"
    "trClock (snd (run_jobs E ?js ?st)) = trClock (snd (run_jobs E ?js tr))"
    by (simp_all add: run_jobs_slot [of ?st tr])
  with a show ?thesis by (intro that [of a]) (simp_all add: translator_of_def)
qed

lemma translate_writes:
  "\<exists>a. translate E ops cfg (Some rms) st =
      ((length (request_jobs E cfg rms), None), (snd (run_jobs E (request_jobs E cfg rms) st))\<lparr>trApp := a\<rparr>) \<and>
    pend a = pend (trApp st) @ fst (run_jobs E (request_jobs E cfg rms) st) \<and> store a = store (trApp st)"
  using translate_runs [of E cfg rms, unfolded runs_def] by blast

text \<open>The common part of both receivers: what is acknowledged is committed, what fails leaves no sample.\<close>

definition taken :: "'l translator_env \<Rightarrow> translationConfig \<Rightarrow> exportRequest \<Rightarrow> unit trState \<Rightarrow> 's \<Rightarrow> 's \<Rightarrow> bool" where
  "taken E cfg rms tr s s' \<longleftrightarrow>
     (\<forall>l. mset (held s' l) = mset (held s l) + mset (batch_samples L (fst (run_jobs E (request_jobs E cfg rms) tr)) l))"

lemma ingest_outcome:
  assumes L: "labels_ok L" and run: "ingest (translator_of E ops cfg) methods rms (tr, s) = (r, (tr', s'))"
  shows "tr' = snd (run_jobs E (request_jobs E cfg rms) tr)"
    and "r = Inr m \<Longrightarrow> m = None \<and> taken E cfg rms tr s s'"
    and "r = Inl (c, e) \<Longrightarrow> c = Internal \<and> (\<forall>l. held s' l = held s l)"
proof -
  obtain a where a: "translator_of E ops cfg (Some rms) tr (newApp s) =
      ((length (request_jobs E cfg rms), None), snd (run_jobs E (request_jobs E cfg rms) tr), a)"
    "pend a = fst (run_jobs E (request_jobs E cfg rms) tr)" "store a = s"
    by (rule translator_runs)
  obtain x b where b: "apCommit ops a = (x, b)" by fastforce
  show "tr' = snd (run_jobs E (request_jobs E cfg rms) tr)"
    using run a(1) by (auto simp: ingest_def split: prod.splits)
  show "m = None \<and> taken E cfg rms tr s s'" if "r = Inr m"
  proof (cases x)
    case None
    then show ?thesis
      using run a b that commit_held [OF L, of a]
      by (auto simp: ingest_def commitOr_def taken_def)
  next
    case (Some e)
    then show ?thesis using run a(1) b that by (auto simp: ingest_def commitOr_def)
  qed
  show "c = Internal \<and> (\<forall>l. held s' l = held s l)" if "r = Inl (c, e)"
  proof (cases x)
    case None
    then show ?thesis using run a(1) b that by (auto simp: ingest_def commitOr_def)
  next
    case (Some e')
    then show ?thesis
      using run a b that commit_failed [of a e'] rollback_store [of b]
      by (auto simp: ingest_def commitOr_def rolledBack_def)
  qed
qed

lemma taken_none: "taken E cfg [] tr s s"
  by (simp add: taken_def request_jobs_def)

lemma export_outcome:
  assumes L: "labels_ok L" and run: "export (translator_of E ops cfg) methods (Some rms) (tr, s) = (r, (tr', s'))"
  shows "tr' = snd (run_jobs E (request_jobs E cfg rms) tr) \<and>
    (case r of Inr m \<Rightarrow> m = None \<and> taken E cfg rms tr s s'
     | Inl (c, e) \<Rightarrow> c = Internal \<and> (\<forall>l. held s' l = held s l))"
proof (cases "rms = []")
  case True
  then show ?thesis using run by (auto simp: export_def request_jobs_def taken_none)
next
  case False
  then have "ingest (translator_of E ops cfg) methods rms (tr, s) = (r, (tr', s'))"
    using run by (simp add: export_def)
  from ingest_outcome [OF L this] show ?thesis by (simp split: sum.split prod.split)
qed

text \<open>What a commit preserves, an export preserves.\<close>

lemma export_preserves:
  assumes keep: "\<And>a. P (store a) \<Longrightarrow> P (store (snd (apCommit ops a)))" and "P s"
    and run: "export (translator_of E ops cfg) methods (Some rms) (tr, s) = (r, (tr', s'))"
  shows "P s'"
proof (cases "rms = []")
  case True
  then show ?thesis using run assms(2) by (simp add: export_def)
next
  case False
  obtain a where a: "translator_of E ops cfg (Some rms) tr (newApp s) =
      ((length (request_jobs E cfg rms), None), snd (run_jobs E (request_jobs E cfg rms) tr), a)" "store a = s"
    by (rule translator_runs)
  obtain x b where b: "apCommit ops a = (x, b)" by fastforce
  have "P (store b)" using keep [of a] a(2) b assms(2) by simp
  moreover have "store (snd (apRollback ops b)) = store b" by (rule rollback_store)
  ultimately show ?thesis
    using run a(1) b False by (cases x) (auto simp: export_def ingest_def commitOr_def rolledBack_def)
qed

lemma serve_outcome:
  assumes L: "labels_ok L"
    and run: "serveHTTP C (translator_of E ops cfg) methods maxBodySize r (tr, s) = (resp, (tr', s'))"
  shows "case resp of
      HttpOK ct data \<Rightarrow> \<exists>body rms. readBody C maxBodySize r = Inr body \<and>
        httpDecode C (rqContentType r) body = Some rms \<and>
        taken E cfg rms tr s s'
    | HttpError code msg \<Rightarrow> (\<forall>l. held s' l = held s l) \<or> code = 500 \<and> msg = ''failed to marshal response''"
  using serveHTTP_cases [OF run]
proof (elim disjE exE conjE)
  fix code msg
  assume "(tr', s') = (tr, s)" and "resp = HttpError code msg"
  then show ?thesis by simp
next
  fix body rms
  assume "readBody C maxBodySize r = Inr body" "httpDecode C (rqContentType r) body = Some rms"
    "rms = []" "(tr', s') = (tr, s)" "resp = writeResponse C (rqContentType r) None"
  then show ?thesis
    using taken_none [of E cfg tr s] by (auto simp: writeResponse_def split: option.splits if_splits)
next
  fix body rms x
  assume b: "readBody C maxBodySize r = Inr body" "httpDecode C (rqContentType r) body = Some rms"
    and i: "ingest (translator_of E ops cfg) methods rms (tr, s) = (x, (tr', s'))"
    and x: "resp = (case x of Inl (c, e) \<Rightarrow> HttpError (httpStatus c) e | Inr m \<Rightarrow> writeResponse C (rqContentType r) m)"
  note out = ingest_outcome [OF L i]
  show ?thesis
  proof (cases x)
    case (Inl ce)
    with out(3) [of "fst ce" "snd ce"] x show ?thesis by (cases ce) simp
  next
    case (Inr m)
    with out(2) [OF Inr] x b show ?thesis by (auto simp: writeResponse_def split: option.splits if_splits)
  qed
qed

end

section \<open>The stores\<close>

interpretation memm: metrics_store "mem_appender_ops L" snd fst L memAppender "mem_samples L"
  by unfold_locales
    (auto simp: memAppender_def mem_appender_ops_def memCommit_def mem_samples_batch)

interpretation fsm: metrics_store "fs_appender_ops L outs" snd fst L fsAppender "fs_samples L"
  by unfold_locales
    (auto simp: fsAppender_def memAppender_def fs_appender_ops_def fsCommit_def memCommit_def fs_samples_def
      mem_samples_batch split: prod.splits option.splits)

definition mem_metrics_store :: "'l labels_api \<Rightarrow> ('l memStore, 'l memAppender, 'l) metricsStore" where
  "mem_metrics_store L = \<lparr>msAppender = memAppender, msOps = mem_appender_ops L, msStore = fst\<rparr>"

definition fs_metrics_store ::
  "'l labels_api \<Rightarrow> (write_outcome \<times> rotate_outcome) list \<Rightarrow> ('l fsStore, 'l fsAppender, 'l) metricsStore" where
  "fs_metrics_store L outs = \<lparr>msAppender = fsAppender, msOps = fs_appender_ops L outs, msStore = fst\<rparr>"

section \<open>Properties\<close>

text \<open>C11: \<open>Translate\<close> never fails over the persistent store: it returns the number of samples of the
  request, appends exactly these samples, in order, to the batch of the appender, touches nothing
  else of the store, and leaves the accumulator as the specification says.\<close>

theorem translate_appends:
  fixes E :: "'l translator_env" and cfg :: translationConfig and rms :: exportRequest
  defines "jobs \<equiv> request_jobs E cfg rms"
  shows "\<exists>s' batch. translate E (fs_appender_ops L outs) cfg (Some rms) st =
      ((length jobs, None), (snd (run_jobs E jobs st))\<lparr>trApp := (s', batch)\<rparr>) \<and>
    s' = fst (trApp st) \<and> batch = snd (trApp st) @ fst (run_jobs E jobs st)"
  using fsm.translate_writes [of E L outs cfg rms st]
  by (auto simp: jobs_def)

text \<open>C7: An acknowledged gRPC export has committed exactly the samples of its request to the persistent
  store, on top of what it held; a refused one is refused with \<open>Internal\<close> and leaves what the store
  holds as it was. In both cases the deltas of the request stay in the accumulator.\<close>

theorem export_acknowledged:
  assumes "labels_ok L"
    and "export (translator_of E (fs_appender_ops L outs) cfg) (fs_metrics_store L outs) (Some rms) (tr, s) = (r, (tr', s'))"
  shows "tr' = snd (run_jobs E (request_jobs E cfg rms) tr) \<and>
    (case r of
       Inr partial \<Rightarrow> partial = None \<and>
         (\<forall>l. mset (fs_samples L s' l) = mset (fs_samples L s l) +
            mset (batch_samples L (fst (run_jobs E (request_jobs E cfg rms) tr)) l))
     | Inl (code, e) \<Rightarrow> code = Internal \<and> (\<forall>l. fs_samples L s' l = fs_samples L s l))"
  using fsm.export_outcome [OF assms(1) assms(2) [unfolded fs_metrics_store_def]]
  unfolding fsm.taken_def .

text \<open>C36: A success of the HTTP receiver means that the body, as read, was decoded and its samples are
  committed; an error other than that of encoding the response means that the store holds what it held.\<close>

theorem http_acknowledged:
  assumes "labels_ok L"
    and "serveHTTP C (translator_of E (fs_appender_ops L outs) cfg) (fs_metrics_store L outs) maxBodySize r (tr, s)
      = (resp, (tr', s'))"
  shows "case resp of
      HttpOK ct data \<Rightarrow> \<exists>body rms. readBody C maxBodySize r = Inr body \<and>
        httpDecode C (rqContentType r) body = Some rms \<and>
        (\<forall>l. mset (fs_samples L s' l) = mset (fs_samples L s l) +
            mset (batch_samples L (fst (run_jobs E (request_jobs E cfg rms) tr)) l))
    | HttpError code msg \<Rightarrow>
        (\<forall>l. fs_samples L s' l = fs_samples L s l) \<or> code = 500 \<and> msg = ''failed to marshal response''"
  using fsm.serve_outcome [OF assms(1) assms(2) [unfolded fs_metrics_store_def]]
  unfolding fsm.taken_def .

text \<open>A body longer than the limit is not refused: an uncompressed request is answered exactly as if
  its body ended at the limit.\<close>

theorem http_truncates:
  assumes "rqContentEncoding r \<noteq> ''gzip''" and "nat maxBodySize \<le> length (fst (rqBody r))"
  shows "serveHTTP C T M maxBodySize r st =
    serveHTTP C T M maxBodySize (r\<lparr>rqBody := (take (nat maxBodySize) (fst (rqBody r)), None)\<rparr>) st"
  using assms by (simp add: serveHTTP_def readBody_def readLimited_def)

section \<open>Witnesses\<close>

definition demo_codec :: http_codec where
  "demo_codec =
     \<lparr>hcGzip = (\<lambda>r. Inr r), hcJsonDecode = (\<lambda>bs. None),
      hcProtoDecode = (\<lambda>bs. if bs = [] then None else Some []),
      hcJsonEncode = (\<lambda>m. Some []), hcProtoEncode = (\<lambda>m. Some [])\<rparr>"

theorem http_truncates_witness:
  "serveHTTP demo_codec (translator_of ascii_env (mem_appender_ops (list_labels poly_hash)) plain_cfg)
     (mem_metrics_store (list_labels poly_hash)) 1
     \<lparr>rqMethod = ''POST'', rqContentType = '''', rqContentEncoding = '''', rqBody = ([1, 2], Some ''lost'')\<rparr>
     (newTranslator (), newMemStore 0)
   = (HttpOK ''application/x-protobuf'' [], (newTranslator (), newMemStore 0))"
  using http_truncates [of "\<lparr>rqMethod = ''POST'', rqContentType = '''', rqContentEncoding = '''', rqBody = ([1, 2], Some ''lost'')\<rparr>" 1
      demo_codec "translator_of ascii_env (mem_appender_ops (list_labels poly_hash)) plain_cfg"
      "mem_metrics_store (list_labels poly_hash)" "(newTranslator (), newMemStore 0)"]
  by (simp add: serveHTTP_def readBody_def readLimited_def demo_codec_def httpDecode_def writeResponse_def)

end
