(* ===== verification/FsDemo.thy ===== *)
theory FsDemo
  imports FsMaintain
begin

text \<open>
  Concrete instances of the properties of the persistent store: a store with a one-segment log and
  two series in its head, and one with two blocks.
\<close>

section \<open>A store with a head\<close>

abbreviation (input) demo_mem :: "(string \<times> string) list memStore" where
  "demo_mem \<equiv> appendSamples demo_api (newMemStore 0) demo_batch"

abbreviation (input) demo_cfg :: fsConfig where
  "demo_cfg \<equiv> \<lparr>fcWALSegmentSize = 1000, fcFlushAge = 0, fcCompactionPeriod = 0, fcRetentionAge = 0, fcRetentionMaxSize = 0\<rparr>"

definition demo_fs :: "(string \<times> string) list block list \<Rightarrow> (string \<times> string) list fsStore" where
  "demo_fs bs = \<lparr>fsCfg = demo_cfg, fsMem = demo_mem,
     fsWal = \<lparr>walFiles = segFiles demo_api [(0, map pending_record demo_batch)], walMaxSegSize = 1000,
              walSegmentSeq = 0, walSegmentSize = 0, walOpen = True\<rparr>,
     fsBlocks = bs, fsDisk = []\<rparr>"

lemma demo_mem_series:
  "memSeriesOf demo_mem = [1 \<mapsto>
     [\<lparr>msRef = 1, msLset = [(''a'', ''1'')], msSamples = [\<lparr>sT = 1000, sV = 7\<rparr>, \<lparr>sT = 2000, sV = 9\<rparr>]\<rparr>,
      \<lparr>msRef = 2, msLset = [(''b'', ''2'')], msSamples = [\<lparr>sT = 1500, sV = 8\<rparr>]\<rparr>]]"
  by (simp add: appendSamples_def appendSample_def list_labels_def newMemStore_def Let_def fun_eq_iff)

lemma demo_fs_ranges: "ranges [1] (memSeriesOf (fsMem (demo_fs bs)))"
  unfolding demo_fs_def fsStore.simps demo_mem_series by (simp add: ranges_def)

lemma demo_snapshot:
  "snapshot [1] (fsMem (demo_fs bs)) =
     [\<lparr>bsLabels = [(''a'', ''1'')], bsSamples = [\<lparr>sT = 1000, sV = 7\<rparr>, \<lparr>sT = 2000, sV = 9\<rparr>]\<rparr>,
      \<lparr>bsLabels = [(''b'', ''2'')], bsSamples = [\<lparr>sT = 1500, sV = 8\<rparr>]\<rparr>]"
  unfolding demo_fs_def fsStore.simps snapshot_def demo_mem_series by simp

lemma demo_snapshot_ne: "snapshot [1] (fsMem (demo_fs bs)) \<noteq> []"
  by (simp add: demo_snapshot)

lemma demo_finite: "head_finite [1] (fsMem (demo_fs bs))"
  unfolding head_finite_def demo_snapshot by (simp add: is_finite_f64_def)

lemma demo_snapshot_json: "\<forall>x \<in> set (snapshot [1] (fsMem (demo_fs bs))). json_ok demo_api list_json (bsLabels x)"
  unfolding demo_snapshot by (simp add: json_ok_def list_json_def list_labels_def)

lemma demo_batch_fits: "\<forall>p \<in> set demo_batch. rec_fits demo_api (pending_record p)"
  by (simp add: rec_fits_def rec_body_size_def pending_record_def list_labels_def Let_def)

lemma demo_durable: "durable demo_api (demo_fs bs) [(0, map pending_record demo_batch)]"
proof -
  have "parseSegmentSeq (segmentName 0) = Some 0" using wal_dir_parse [of 0] by simp
  have "wal_dir demo_api (segFiles demo_api [(0, map pending_record demo_batch)]) [(0, map pending_record demo_batch)]"
    using demo_batch_fits by (simp add: wal_dir_def segs_ok_def dir_ok_def)
  then have "wal_inv demo_api (fsWal (demo_fs bs)) [(0, map pending_record demo_batch)]"
    by (simp add: demo_fs_def wal_inv_def)
  moreover have "mem_ok demo_api (fsMem (demo_fs bs))"
    unfolding demo_fs_def fsStore.simps by (intro mem_ok_batch mem_ok_new list_labels_ok)
  moreover have "mem_samples demo_api (fsMem (demo_fs bs)) l = log_samples demo_api (segRecords [(0, map pending_record demo_batch)]) l" for l
    unfolding demo_fs_def fsStore.simps segRecords_single log_samples_pending
    using mem_samples_batch [OF list_labels_ok] by simp
  ultimately show ?thesis by (simp add: durable_def)
qed

lemma demo_fs_ok: "\<forall>b \<in> set bs. block_ok demo_api b \<Longrightarrow> fs_ok demo_api (demo_fs bs)"
  using demo_durable [of bs] by (simp add: fs_ok_def durable_def) (simp add: demo_fs_def)

lemma demo_wal: "wal_inv demo_api (fsWal (demo_fs bs)) [(0, map pending_record demo_batch)]"
  using demo_durable by (simp add: durable_def)

lemma demo_disk [simp]: "fsDisk (demo_fs bs) = []" "fsBlocks (demo_fs bs) = bs"
  by (simp_all add: demo_fs_def)

theorem fs_crash_recovery_witness:
  "\<exists>s0 s1 s2. newFSStore demo_api list_json (isort block_less) (OpenOk, DirOk) demo_cfg [] [] = Inr s0 \<and>
    commit_batches demo_api s0 [demo_batch, demo_batch] = (None, s1) \<and>
    newFSStore demo_api list_json (isort block_less) (OpenOk, DirOk) demo_cfg (walFiles (fsWal s1)) (fsDisk s1) = Inr s2 \<and>
    (\<forall>l. mem_samples demo_api (fsMem s2) l = mem_samples demo_api (fsMem s1) l)"
proof -
  have fits: "\<forall>ps \<in> set [demo_batch, demo_batch]. \<forall>p \<in> set ps. rec_fits demo_api (pending_record p)"
    using demo_batch_fits by auto
  have room: "latestSegmentSeq [] + int (length (concat [demo_batch, demo_batch])) < 10 ^ 8"
    using wal_dir_latest [OF wal_dir_empty] by simp
  obtain s0 s1 s2 where
    "newFSStore demo_api list_json (isort block_less) (OpenOk, DirOk) demo_cfg [] [] = Inr s0"
    "commit_batches demo_api s0 [demo_batch, demo_batch] = (None, s1)"
    "newFSStore demo_api list_json (isort block_less) (OpenOk, DirOk) demo_cfg (walFiles (fsWal s1)) (fsDisk s1) = Inr s2"
    "\<forall>l. mem_samples demo_api (fsMem s2) l = mem_samples demo_api (fsMem s1) l"
    using fs_crash_recovery [OF list_labels_ok wal_dir_empty fits room, of list_json "isort block_less" demo_cfg "[]" demo_cfg]
    by (elim exE conjE) (rule that)
  then show ?thesis by (intro exI conjI)
qed

theorem fs_commit_failure_witness:
  "\<exists>e w s'. fsCommit demo_api [(Written, Rotated), (WriteErr 4, Rotated)] (demo_fs [], demo_batch)
      = (Some e, ((demo_fs [])\<lparr>fsWal := w\<rparr>, demo_batch)) \<and>
    newFSStore demo_api list_json (isort block_less) (OpenOk, DirOk) demo_cfg (walFiles w) [] = Inr s' \<and>
    (\<forall>l. mem_samples demo_api (fsMem s') l = mem_samples demo_api (fsMem (demo_fs [])) l
       @ batch_samples demo_api [pending [(''a'', ''1'')] 1000 7] l)"
proof -
  have "walSegmentSeq (fsWal (demo_fs [])) = 0" by (simp add: demo_fs_def)
  moreover have "4 < length (encodeWALRecord demo_api (pending_record (pending [(''b'', ''2'')] 1500 8)))"
    by (simp add: length_encodeWALRecord rec_body_size_def)
  moreover have "\<forall>p \<in> set ([pending [(''a'', ''1'')] 1000 7] @ [pending [(''b'', ''2'')] 1500 8]). rec_fits demo_api (pending_record p)"
    using demo_batch_fits by simp
  ultimately show ?thesis
    using fs_commit_failure [OF list_labels_ok demo_durable, where ps = "[pending [(''a'', ''1'')] 1000 7]"
        and p = "pending [(''b'', ''2'')] 1500 8" and k = 4 and bs1 = "[]" and ?o2.0 = Rotated
        and qs = "[pending [(''a'', ''1'')] 2000 9]" and J = list_json and srt = "isort block_less" and cfg = demo_cfg]
    by (auto simp: numeral_2_eq_2)
qed

theorem fs_select_witness:
  "\<exists>it. fsSelect demo_api (isort (series_less demo_api)) [1] (demo_fs [demo_block1]) True 0 1600 [] = Some it \<and>
    mset (answer_samples demo_api (ssSeries it) demoA) = mset (filter (in_range 0 1600) (fs_samples demo_api (demo_fs [demo_block1]) demoA))"
proof -
  have "fs_ok demo_api (demo_fs [demo_block1])" using demo_blocks_ok(1) by (intro demo_fs_ok) simp
  from fs_select [OF list_labels_ok this demo_fs_ranges demo_sort, of True 0 1600 "[]"]
  show ?thesis by auto
qed

theorem fs_flush_witness:
  "\<exists>s'. flushHead list_json [1] BlockOk (\<lambda>_. False) (demo_fs [demo_block1]) = (None, s') \<and>
    (\<forall>l. mset (fs_samples demo_api s' l) = mset (fs_samples demo_api (demo_fs [demo_block1]) l)) \<and>
    (\<forall>l. mem_samples demo_api (fsMem s') l = [])"
proof -
  have ok: "fs_ok demo_api (demo_fs [demo_block1])" using demo_blocks_ok(1) by (intro demo_fs_ok) simp
  have "block_target (fsDisk (demo_fs [demo_block1])) (flush_dir (snapshot [1] (fsMem (demo_fs [demo_block1]))))"
    by (simp add: block_target_def)
  from fs_flush [OF list_labels_ok ok demo_fs_ranges demo_finite this demo_wal demo_snapshot_ne]
  show ?thesis by blast
qed

lemma block_sort: "is_sort block_less (isort block_less)"
  unfolding block_less_def [abs_def] by (intro isort_is_sort strict_weak_key)

theorem fs_flush_restart_duplicates_witness:
  "\<exists>s' s''. flushHead list_json [1] BlockOk (\<lambda>_. False) (demo_fs []) = (None, s') \<and>
    newFSStore demo_api list_json (isort block_less) (OpenOk, DirOk) demo_cfg (walFiles (fsWal s')) (fsDisk s') = Inr s'' \<and>
    (\<forall>l. mset (fs_samples demo_api s'' l) = mset (fs_samples demo_api (demo_fs []) l) + mset (fs_samples demo_api (demo_fs []) l))"
  by (rule fs_flush_restart_duplicates [OF list_labels_ok demo_durable demo_disk(2) demo_disk(1) demo_fs_ranges
      demo_finite demo_snapshot_ne demo_snapshot_json block_sort])

theorem fs_flush_overwrites_witness:
  "let b0 = demo_block1\<lparr>blDir := flush_dir (snapshot [1] (fsMem (demo_fs [])))\<rparr> in
   \<exists>s' files b'. flushHead list_json [1] BlockOk (\<lambda>_. False) (demo_fs [b0]) = (None, s') \<and> b0 \<in> set (fsBlocks s') \<and>
    map_of (fsDisk s') (blDir b0) = Some (BlockDir files) \<and> openBlock list_json (blDir b0) files = Inr b' \<and>
    list_all2 (same_series demo_api) (blSeries b') (snapshot [1] (fsMem (demo_fs [b0])))"
proof -
  let ?b0 = "demo_block1\<lparr>blDir := flush_dir (snapshot [1] (fsMem (demo_fs [])))\<rparr>"
  have "?b0 \<in> set (fsBlocks (demo_fs [?b0]))" by simp
  moreover have "blDir ?b0 = flush_dir (snapshot [1] (fsMem (demo_fs [?b0])))"
    unfolding demo_snapshot by simp
  moreover have "block_target (fsDisk (demo_fs [?b0])) (blDir ?b0)" by (simp add: block_target_def)
  ultimately show ?thesis
    unfolding Let_def
    by (intro fs_flush_overwrites [OF list_labels_ok demo_finite demo_snapshot_ne _ _ _ demo_snapshot_json]) assumption+
qed

theorem fs_flush_keeps_old_witness:
  "flush_run demo_api list_json (demo_fs []) (demo_fs [], FSnapped (snapshot [1] (fsMem (demo_fs [])))) \<and>
   mset (fs_samples demo_api (demo_fs []) demoA) \<subseteq># mset (fs_samples demo_api (demo_fs []) demoA)"
proof -
  have run: "flush_run demo_api list_json (demo_fs []) (demo_fs [], FSnapped (snapshot [1] (fsMem (demo_fs []))))"
    by (rule run_step [OF run_start fl_snap [OF demo_fs_ranges refl demo_snapshot_ne]])
  have "fs_ok demo_api (demo_fs [])" by (rule demo_fs_ok) simp
  from fs_flush_keeps_old [OF list_labels_ok this run] run show ?thesis by blast
qed

theorem fs_flush_race_witness:
  "\<exists>s1 b s2. fsCommit demo_api [] (demo_fs [], demo_batch) = (None, (s1, [])) \<and>
    flushWrite list_json BlockOk (snapshot [1] (fsMem (demo_fs []))) s1 = (Inr b, s2) \<and>
    fsMem s1 \<noteq> fsMem (demo_fs []) \<and>
    (\<forall>l. mset (fs_samples demo_api (flushReset (flushPublish b s2)) l) = mset (fs_samples demo_api (demo_fs []) l))"
proof -
  have "walSegmentSeq (fsWal (demo_fs [])) + length demo_batch < 10 ^ 8" by (simp add: demo_fs_def)
  from fsCommit_ok [OF demo_wal demo_batch_fits this] obtain w where
    c: "fsCommit demo_api [] (demo_fs [], demo_batch)
      = (None, ((demo_fs [])\<lparr>fsWal := w, fsMem := appendSamples demo_api (fsMem (demo_fs [])) demo_batch\<rparr>, []))"
    by blast
  let ?s1 = "(demo_fs [])\<lparr>fsWal := w, fsMem := appendSamples demo_api (fsMem (demo_fs [])) demo_batch\<rparr>"
  have "block_target (fsDisk ?s1) (flush_dir (snapshot [1] (fsMem (demo_fs []))))" by (simp add: block_target_def)
  then obtain b files where w: "flushWrite list_json BlockOk (snapshot [1] (fsMem (demo_fs []))) ?s1
      = (Inr b, ?s1\<lparr>fsDisk := dir_put (flush_dir (snapshot [1] (fsMem (demo_fs [])))) (BlockDir files) (fsDisk ?s1)\<rparr>)"
    by (rule flushWrite_ok [OF _ demo_finite [unfolded head_finite_def]])
  have "mem_samples demo_api (fsMem ?s1) demoA \<noteq> mem_samples demo_api (fsMem (demo_fs [])) demoA"
    by (simp add: mem_samples_batch [OF list_labels_ok]) (simp add: batch_samples_def list_labels_def)
  then have "fsMem ?s1 \<noteq> fsMem (demo_fs [])" by metis
  moreover have "fs_ok demo_api (demo_fs [])" by (rule demo_fs_ok) simp
  ultimately show ?thesis
    using fs_flush_race [OF list_labels_ok _ demo_fs_ranges demo_snapshot_ne c w] c w by (auto simp: Let_def)
qed

section \<open>A store with two blocks\<close>

abbreviation (input) demo_api2 :: "(string \<times> string) list labels_api" where
  "demo_api2 \<equiv> list_labels poly_hash"

definition demo_fs2 :: "fsConfig \<Rightarrow> string \<Rightarrow> blocksDir \<Rightarrow> (string \<times> string) list fsStore" where
  "demo_fs2 cfg dir d = \<lparr>fsCfg = cfg, fsMem = newMemStore 0,
     fsWal = \<lparr>walFiles = [], walMaxSegSize = 1000, walSegmentSeq = 0, walSegmentSize = 0, walOpen = True\<rparr>,
     fsBlocks = [demo_block1\<lparr>blDir := dir\<rparr>, demo_block2], fsDisk = d\<rparr>"

abbreviation (input) demo_keys :: "u64 list" where
  "demo_keys \<equiv> [lhash (list_labels poly_hash) demoA, lhash (list_labels poly_hash) demoB]"

lemma demo_fs2_simps [simp]:
  "fsCfg (demo_fs2 cfg dir d) = cfg" "fsDisk (demo_fs2 cfg dir d) = d"
  "fsBlocks (demo_fs2 cfg dir d) = [demo_block1\<lparr>blDir := dir\<rparr>, demo_block2]"
  by (simp_all add: demo_fs2_def)

lemma demo_fs2_ok: "fs_ok demo_api2 (demo_fs2 cfg dir d)"
  using demo_blocks_ok [of poly_hash] by (simp add: fs_ok_def block_ok_def) (simp add: demo_fs2_def mem_ok_new)

lemma demo_fs2_ranges: "ranges demo_keys (mergeBlocks demo_api2 (fsBlocks (demo_fs2 cfg dir d)))"
  using demo_merge_ranges by (simp add: mergeBlocks_def)

lemma demo_fs2_finite: "blocks_finite (fsBlocks (demo_fs2 cfg dir d))"
  using demo_series_finite by (simp add: blocks_finite_def)

lemma demo_fs2_collision: "no_collision demo_api2 (concat (map blSeries (fsBlocks (demo_fs2 cfg dir d))))"
proof -
  have "lhash demo_api2 demoA \<noteq> lhash demo_api2 demoB" by code_simp
  then show ?thesis by (simp add: no_collision_def list_labels_def)
qed

lemma demo_compact_dir: "compact_dir (demo_fs2 cfg dir d) = blockName CHR ''c'' 5"
  by (simp add: compact_dir_def)


theorem fs_compact_loses_witness:
  "\<exists>s' m. compact demo_api2 list_json (isort sample_less) demo_keys BlockOk (\<lambda>_. False)
      (demo_fs2 demo_cfg (blockName CHR ''c'' 5) []) = (None, s') \<and> fsBlocks s' = [m] \<and>
    map_of (fsDisk s') (blDir m) = None \<and> blDir m \<notin> blDir ` set (openEntries list_json (readDir (fsDisk s')))"
proof -
  let ?s = "demo_fs2 demo_cfg (blockName CHR ''c'' 5) []"
  have "2 \<le> length (fsBlocks ?s)" "block_target (fsDisk ?s) (compact_dir ?s)" "blDir (hd (fsBlocks ?s)) = compact_dir ?s"
    by (simp_all add: block_target_def demo_compact_dir)
  then show ?thesis
    by (intro fs_compact_loses [OF list_labels_ok _ demo_fs2_ranges demo_sample_sort demo_fs2_finite]) assumption+
qed



theorem fs_labels_witness:
  "\<exists>it names. fsSelect demo_api (isort (series_less demo_api)) [1] (demo_fs [demo_block1]) False 0 1600 [] = Some it \<and>
    fsLabelNames demo_api [1] (demo_fs [demo_block1]) 0 1600 [] = Inr names \<and>
    (\<forall>r \<in> set (ssSeries it). fst ` set (lrange demo_api (srLabels r)) \<subseteq> set names)"
proof -
  obtain it where it: "fsSelect demo_api (isort (series_less demo_api)) [1] (demo_fs [demo_block1]) False 0 1600 [] = Some it"
    by (simp add: fsSelect_def memSelect_def Let_def)
  from fs_labels [OF demo_sort it, of "''a''"] it show ?thesis by auto
qed

end
