(* ===== verification/ClientDemo.thy ===== *)
theory ClientDemo
  imports Adapter Ingest FsDemo
begin

text \<open>
  Concrete instances of the properties of the clients of the store: a query through the adapter, and
  an export, over the stores of \<open>FsDemo\<close>.
\<close>

section \<open>A query\<close>

theorem adapter_select_witness:
  "\<exists>R. promRead ssNext ssAt (querierSelect (fsSelectIt demo_api (isort (series_less demo_api)) (\<lambda>_. [1]))
        (newQuerier 0 5000) (demo_fs [demo_block1]) True (Some \<lparr>hStart = 0, hEnd = 1600\<rparr>) [])
      = Some (map (\<lambda>r. Some (srLabels r, map (\<lambda>x. (sT x, sV x)) (srSamples r))) R) \<and>
    mset (answer_samples demo_api R demoA) =
      mset (filter (in_range 0 1600) (fs_samples demo_api (demo_fs [demo_block1]) demoA))"
proof -
  have "fs_ok demo_api (demo_fs [demo_block1])" using demo_blocks_ok(1) by (intro demo_fs_ok) simp
  then have "fs_qinv demo_api (isort (series_less demo_api)) (\<lambda>_. [1]) (demo_fs [demo_block1])"
    using demo_fs_ranges demo_sort by (simp add: fs_qinv_def list_labels_ok)
  from adapter_select [OF this, of "newQuerier 0 5000" True "Some \<lparr>hStart = 0, hEnd = 1600\<rparr>" "[]"]
  show ?thesis by (auto simp: hintRange_def newQuerier_def)
qed

section \<open>An export\<close>

definition demo_env :: "(string \<times> string) list translator_env" where
  "demo_env = ascii_env\<lparr>teLabels := demo_api\<rparr>"

definition demo_request :: exportRequest where
  "demo_request =
     [\<lparr>rmAttributes = [], rmSchemaUrl = '''',
       rmScopeMetrics = [\<lparr>smScope = None, smSchemaUrl = '''',
         smMetrics = [\<lparr>mtName = ''up'', mtUnit = '''',
           mtData = Gauge [\<lparr>ndAttributes = [], ndTimeUnixNano = 5000000, ndValue = AsDouble 9\<rparr>]\<rparr>]\<rparr>]\<rparr>]"

lemma demo_request_samples:
  "fst (run_jobs demo_env (request_jobs demo_env plain_cfg demo_request) (newTranslator ())) =
     [pending [(''__name__'', ''up'')] 5 9]"
proof -
  have "unixMillis 5000000 = 5" by (simp add: unixMillis_def)
  then show ?thesis
    by (simp add: demo_request_def request_jobs_def resource_jobs_def scope_jobs_def metric_jobs_def points_def
      job_value_def metricName_def plain_cfg_def buildLabels_def resourceLabels_def scopeLabels_def schema_in_force_def
      demo_env_def list_labels_def put_label_def numberValue_def)
qed

lemma demo_export:
  "\<exists>tr' s'. export (translator_of demo_env (fs_appender_ops demo_api []) plain_cfg) (fs_metrics_store demo_api [])
     (Some demo_request) (newTranslator (), demo_fs []) = (Inr None, (tr', s')) \<and>
   fsMem s' = appendSamples demo_api (fsMem (demo_fs [])) [pending [(''__name__'', ''up'')] 5 9]"
proof -
  let ?p = "pending [(''__name__'', ''up'')] 5 9"
  obtain a where a: "translator_of demo_env (fs_appender_ops demo_api []) plain_cfg (Some demo_request) (newTranslator ()) (fsAppender (demo_fs [])) =
      ((length (request_jobs demo_env plain_cfg demo_request), None),
       snd (run_jobs demo_env (request_jobs demo_env plain_cfg demo_request) (newTranslator ())), a)"
    "snd a = [?p]" "fst a = demo_fs []"
    by (rule fsm.translator_runs [of demo_env demo_api "[]" plain_cfg demo_request "newTranslator ()" "demo_fs []"])
      (simp only: demo_request_samples)
  have "\<forall>p \<in> set [?p]. rec_fits demo_api (pending_record p)"
    by (simp add: rec_fits_def rec_body_size_def pending_record_def list_labels_def Let_def)
  moreover have "walSegmentSeq (fsWal (demo_fs [])) + length [?p] < 10 ^ 8" by (simp add: demo_fs_def)
  ultimately obtain w where w: "fsCommit demo_api [] (demo_fs [], [?p]) =
      (None, ((demo_fs [])\<lparr>fsWal := w, fsMem := appendSamples demo_api (fsMem (demo_fs [])) [?p]\<rparr>, []))"
    using fsCommit_ok [OF demo_wal] by blast
  have "a = (demo_fs [], [?p])" using a(2,3) by (simp add: prod_eq_iff)
  with a(1) w show ?thesis
    by (simp add: export_def ingest_def commitOr_def fs_metrics_store_def fs_appender_ops_def demo_request_def)
qed

theorem export_acknowledged_witness:
  "\<exists>tr' s'. export (translator_of demo_env (fs_appender_ops demo_api []) plain_cfg) (fs_metrics_store demo_api [])
     (Some demo_request) (newTranslator (), demo_fs []) = (Inr None, (tr', s')) \<and>
   mset (fs_samples demo_api s' [(''__name__'', ''up'')]) =
     add_mset \<lparr>sT = 5, sV = 9\<rparr> (mset (fs_samples demo_api (demo_fs []) [(''__name__'', ''up'')]))"
proof -
  obtain tr' s' where run: "export (translator_of demo_env (fs_appender_ops demo_api []) plain_cfg) (fs_metrics_store demo_api [])
     (Some demo_request) (newTranslator (), demo_fs []) = (Inr None, (tr', s'))"
    using demo_export by blast
  from export_acknowledged [OF list_labels_ok run] have
    "mset (fs_samples demo_api s' [(''__name__'', ''up'')]) = mset (fs_samples demo_api (demo_fs []) [(''__name__'', ''up'')]) +
      mset (batch_samples demo_api [pending [(''__name__'', ''up'')] 5 9] [(''__name__'', ''up'')])"
    by (simp add: demo_request_samples)
  then have "mset (fs_samples demo_api s' [(''__name__'', ''up'')]) =
     add_mset \<lparr>sT = 5, sV = 9\<rparr> (mset (fs_samples demo_api (demo_fs []) [(''__name__'', ''up'')]))"
    by (simp add: batch_samples_def list_labels_def)
  with run show ?thesis by blast
qed

text \<open>The decoder of this instance reads every non-empty body as the request above.\<close>

theorem http_acknowledged_witness:
  "\<exists>tr' s'. serveHTTP (demo_codec\<lparr>hcProtoDecode := (\<lambda>bs. if bs = [] then None else Some demo_request)\<rparr>)
     (translator_of demo_env (fs_appender_ops demo_api []) plain_cfg) (fs_metrics_store demo_api []) 100
     \<lparr>rqMethod = ''POST'', rqContentType = '''', rqContentEncoding = '''', rqBody = ([7], None)\<rparr>
     (newTranslator (), demo_fs []) = (HttpOK ''application/x-protobuf'' [], (tr', s')) \<and>
   mset (fs_samples demo_api s' [(''__name__'', ''up'')]) =
     add_mset \<lparr>sT = 5, sV = 9\<rparr> (mset (fs_samples demo_api (demo_fs []) [(''__name__'', ''up'')]))"
proof -
  let ?C = "demo_codec\<lparr>hcProtoDecode := (\<lambda>bs. if bs = [] then None else Some demo_request)\<rparr>"
  let ?r = "\<lparr>rqMethod = ''POST'', rqContentType = '''', rqContentEncoding = '''', rqBody = ([7], None)\<rparr>"
  let ?T = "translator_of demo_env (fs_appender_ops demo_api []) plain_cfg"
  have ne: "demo_request \<noteq> []" by (simp add: demo_request_def)
  obtain tr' s' where "export ?T (fs_metrics_store demo_api []) (Some demo_request) (newTranslator (), demo_fs []) = (Inr None, (tr', s'))"
    using demo_export by blast
  then have "ingest ?T (fs_metrics_store demo_api []) demo_request (newTranslator (), demo_fs []) = (Inr None, (tr', s'))"
    using ne by (simp add: export_def)
  then have run: "serveHTTP ?C ?T (fs_metrics_store demo_api []) 100 ?r (newTranslator (), demo_fs []) =
      (HttpOK ''application/x-protobuf'' [], (tr', s'))"
    using ne by (simp add: serveHTTP_def readBody_def readLimited_def httpDecode_def writeResponse_def demo_codec_def)
  from http_acknowledged [OF list_labels_ok run] have
    "mset (fs_samples demo_api s' [(''__name__'', ''up'')]) = mset (fs_samples demo_api (demo_fs []) [(''__name__'', ''up'')]) +
      mset (batch_samples demo_api [pending [(''__name__'', ''up'')] 5 9] [(''__name__'', ''up'')])"
    by (auto simp: readBody_def readLimited_def httpDecode_def demo_request_samples)
  then show ?thesis using run by (simp add: batch_samples_def list_labels_def)
qed

end
