(* ===== verification/RemoteDemo.thy ===== *)
theory RemoteDemo
  imports RemoteSpec ClientDemo
begin

text \<open>
  The receivers in front of a remote store: what an acknowledgement means there. Then concrete
  instances of the properties of the remote stores.
\<close>

section \<open>Exports to a remote store\<close>

definition prom_metrics_store ::
  "'l labels_api \<Rightarrow> remote_env \<Rightarrow> remoteConfig \<Rightarrow> (netEvent list, promAppender, 'l) metricsStore" where
  "prom_metrics_store L E cfg = \<lparr>msAppender = promRemoteAppender, msOps = prom_appender_ops L E cfg, msStore = fst\<rparr>"

lemma promCommit_gives_up:
  assumes "prom_usable E cfg" and "\<And>net. retryable (rePeer E net)"
  shows "fst (promCommit E cfg a) = None"
proof -
  have "fst (promSend E cfg c net) = None" for c net
    using retry_spec_gives_up [of E] assms by (simp add: promSend_spec)
  then have "fst (sendAll (promSend E cfg) cs net) = None" for cs net by (rule sendAll_unit)
  then show ?thesis by (cases a) (simp add: promCommit_chunks split: prod.split, metis fst_conv)
qed

text \<open>Over the Prometheus store an acknowledgement promises less than over the persistent one. While the
  endpoint is down, answering with server errors or not at all, every export is acknowledged with
  success, although none of its samples arrives anywhere and none is kept.\<close>

theorem export_drops:
  assumes "prom_usable E cfg" and "\<And>net. retryable (rePeer E net)"
  shows "fst (export (translator_of TE (prom_appender_ops (list_labels h) E cfg) tcfg)
    (prom_metrics_store (list_labels h) E cfg) (Some rms) (tr, net)) = Inr None"
proof -
  let ?ops = "prom_appender_ops (list_labels h) E cfg"
  let ?st = "\<lparr>trDelta = trDelta tr, trClock = trClock tr, trApp = promRemoteAppender net\<rparr>"
  obtain n a where "translate TE ?ops tcfg (Some rms) ?st = ((n, None), a)"
    using promapp.translate_runs [of TE h E cfg tcfg rms, unfolded runs_def, THEN spec, of ?st] by auto
  moreover obtain b where "apCommit ?ops (trApp a) = (None, b)"
    using promCommit_gives_up [OF assms, of "trApp a"] by (metis appender_ops.select_convs(2) prod.collapse prom_appender_ops_def)
  ultimately show ?thesis
    by (simp add: export_def ingest_def commitOr_def translator_of_def prom_metrics_store_def)
qed

section \<open>Concrete instances\<close>

definition demo_remote_cfg :: remoteConfig where
  "demo_remote_cfg = newPrometheusRemote
     \<lparr>rcWriteURL = ''http://p/w'', rcReadURL = ''http://p/r'', rcTimeout = 0, rcUsername = '''', rcPassword = '''',
      rcBatchSize = 1, rcMaxRetries = 0\<rparr>"

definition demo_remote :: "(netEvent list \<Rightarrow> answer) \<Rightarrow> remote_env" where
  "demo_remote peer =
     \<lparr>reNewRequest = \<lambda>_. None, rePeer = peer, reMarshal = \<lambda>tss. Inr (replicate (length tss) 7), reSnappy = \<lambda>bs. bs,
      reEncodeRow = \<lambda>row. Inr (map (\<lambda>_. 7) (vrValues row)), reRead = \<lambda>_. Inr (200, [7, 7]),
      reDecodeRows = \<lambda>bs. [Inr \<lparr>vrMetric = [(''__name__'', ''up'')], vrValues = [9, 8], vrTimestamps = [5, 6]\<rparr>],
      reQueryEscape = \<lambda>s. s, reQuote = \<lambda>s. s\<rparr>"

lemma demo_remote_usable: "prom_usable (demo_remote peer) cfg"
  by (simp add: prom_usable_def demo_remote_def)

theorem export_drops_witness:
  "fst (export (translator_of demo_env (prom_appender_ops demo_api (demo_remote (\<lambda>_. Status 503)) demo_remote_cfg) plain_cfg)
     (prom_metrics_store demo_api (demo_remote (\<lambda>_. Status 503)) demo_remote_cfg) (Some demo_request)
     (newTranslator (), [])) = Inr None"
  by (rule export_drops [OF demo_remote_usable]) (simp add: demo_remote_def retryable_def)

text \<open>The peer of this instance is down at first and accepts the third posting.\<close>

theorem remote_retries_witness:
  "\<exists>net. attempts (demo_remote (\<lambda>net. if length net < 5 then Status 503 else Status 204)) ''remote write''
      (promRequest demo_remote_cfg [7]) 0 3 [] = (None, net) \<and>
    accepted (reply (demo_remote (\<lambda>net. if length net < 5 then Status 503 else Status 204)) (promRequest demo_remote_cfg [7]) [] 2)"
proof -
  let ?E = "demo_remote (\<lambda>net. if length net < 5 then Status 503 else Status 204)"
  let ?req = "promRequest demo_remote_cfg [7]"
  have run: "attempts ?E ''remote write'' ?req 0 3 [] = (None, tried ?req 3 [])"
    by (simp add: numeral_3_eq_3 numeral_2_eq_2 demo_remote_def Let_def)
  have "reNewRequest ?E (hqURL ?req) = None" by (simp add: demo_remote_def)
  from remote_retries [OF this run] have "(None, tried ?req 3 []) = retry_spec ?E ''remote write'' ?req 0 3 []"
    by blast
  moreover have "accepted (reply ?E ?req [] 2)"
    by (simp add: reply_def demo_remote_def accepted_def numeral_2_eq_2)
  ultimately show ?thesis using run by blast
qed

theorem prom_delivers_witness:
  "promCommit (demo_remote (\<lambda>_. Status 204)) demo_remote_cfg
     (snd (append_batch (prom_appender_ops demo_api (demo_remote (\<lambda>_. Status 204)) demo_remote_cfg) (promRemoteAppender [])
       [pending [(''__name__'', ''up'')] 5 9, pending [(''__name__'', ''up'')] 6 8])) =
   (None, (map (\<lambda>c. Posted (prom_post (demo_remote (\<lambda>_. Status 204)) demo_remote_cfg c))
      [[\<lparr>tsLabels = [(''__name__'', ''up'')], tsSamples = [\<lparr>sT = 5, sV = 9\<rparr>]\<rparr>],
       [\<lparr>tsLabels = [(''__name__'', ''up'')], tsSamples = [\<lparr>sT = 6, sV = 8\<rparr>]\<rparr>]], []))"
proof -
  have "chunks (Suc 0) [a, b] = [[a], [b]]" for a b :: promTimeSeries
    by (simp add: chunks.simps)
  moreover have "rcBatchSize demo_remote_cfg = 1" "rcMaxRetries demo_remote_cfg = 3"
    by (simp_all add: demo_remote_cfg_def newPrometheusRemote_def)
  moreover have "accepted (rePeer (demo_remote (\<lambda>_. Status 204)) net)" for net
    by (simp add: demo_remote_def accepted_def)
  ultimately show ?thesis
    using prom_delivers [OF demo_remote_usable, where cfg = demo_remote_cfg and net = "[]" and L = demo_api and
        ps = "[pending [(''__name__'', ''up'')] 5 9, pending [(''__name__'', ''up'')] 6 8]"]
    by (simp add: prom_series_def list_labels_def)
qed

theorem prom_commit_error_witness:
  "\<exists>net. promCommit (demo_remote (\<lambda>_. Status 400)) demo_remote_cfg
      ([], [\<lparr>tsLabels = [], tsSamples = []\<rparr>, \<lparr>tsLabels = [], tsSamples = []\<rparr>]) = (Some ''remote write: status 400'', (net, [])) \<and>
    length net = 1"
proof -
  let ?ts = "\<lparr>tsLabels = [], tsSamples = []\<rparr>" and ?E = "demo_remote (\<lambda>_. Status 400)"
  have ch: "chunks (Suc 0) [a, b] = [[a], [b]]" for a b :: promTimeSeries
    by (simp add: chunks.simps)
  have code: "fmt_nat 400 = ''400''" by code_simp
  have cfg: "rcBatchSize demo_remote_cfg = 1" "rcMaxRetries demo_remote_cfg = Suc (Suc (Suc 0))"
    by (simp_all add: demo_remote_cfg_def newPrometheusRemote_def)
  have one: "promSend ?E demo_remote_cfg [?ts] [] = (Some ''remote write: status 400'', [Posted (promRequest demo_remote_cfg [7])])"
    by (simp add: promSend_def cfg demo_remote_def Let_def code)
  have run: "promCommit ?E demo_remote_cfg ([], [?ts, ?ts]) =
      (Some ''remote write: status 400'', ([Posted (promRequest demo_remote_cfg [7])], []))"
    by (simp add: promCommit_chunks cfg(1) ch one)
  from prom_commit_error [OF run] obtain before refused after net1 where
    "chunks (Suc 0) [?ts, ?ts] = before @ refused # after" "promSend ?E demo_remote_cfg refused net1 =
      (Some ''remote write: status 400'', [Posted (promRequest demo_remote_cfg [7])])"
    by (auto simp: cfg(1))
  with run show ?thesis by simp
qed

definition demo_vm_batch :: "(string \<times> string) list pendingSample list" where
  "demo_vm_batch = [pending [(''__name__'', ''up'')] 5 9, pending [(''__name__'', ''up'')] 6 8]"


end
