(* ===== verification/Query.thy ===== *)
theory Query
  imports Adapter GoTime Float64 "HOL-Library.AList"
begin

text \<open>
  \<open>internal/query/api.go\<close>: the HTTP query API. A request is its parsed form, a response the JSON value
  that is written. The PromQL engine, the selector parser and the clock are fields of \<open>query_env\<close>;
  the storage is reached through the adapter over the query methods of a store.
\<close>

section \<open>Requests and responses\<close>

record apiRequest =
  aqMethod :: string
  aqPath :: string
  aqFormErr :: err                              \<comment> \<open>\<open>ParseForm\<close>\<close>
  aqForm :: "string \<rightharpoonup> string list"

definition formValue :: "apiRequest \<Rightarrow> string \<Rightarrow> string" where
  "formValue r k = (case aqForm r k of Some (v # vs) \<Rightarrow> v | _ \<Rightarrow> '''')"

definition formValues :: "apiRequest \<Rightarrow> string \<Rightarrow> string list" where
  "formValues r k = (case aqForm r k of Some vs \<Rightarrow> vs | None \<Rightarrow> [])"

datatype json = JNull | JString string | JArray "json list" | JObject "(string \<times> json) list"

text \<open>\<open>apiResponse\<close>, by \<open>writeSuccess\<close>, \<open>writeError\<close> and \<open>writeQueryResult\<close>.\<close>

datatype apiResponse = Success json "string list" | Failure string string

text \<open>The encoding with its \<open>omitempty\<close> fields; \<open>Data\<close> is omitted only when it is the nil interface.\<close>

definition strField :: "string \<Rightarrow> string \<Rightarrow> (string \<times> json) list" where
  "strField k v = (if v = '''' then [] else [(k, JString v)])"

fun responseJson :: "apiResponse \<Rightarrow> json" where
  "responseJson (Success data warnings) =
     JObject ([(''status'', JString ''success''), (''data'', data)] @
       (if warnings = [] then [] else [(''warnings'', JArray (map JString warnings))]))"
| "responseJson (Failure errType msg) =
     JObject ((''status'', JString ''error'') # strField ''errorType'' errType @ strField ''error'' msg)"

text \<open>
  A Go map with string keys as a JSON object: the encoder writes it in the order of the keys. A nil
  slice is \<open>null\<close>.
\<close>

definition mapJson :: "(string \<times> string) list \<Rightarrow> json" where
  "mapJson m = JObject (sort_key fst (map (\<lambda>(k, v). (k, JString v)) m))"

definition sliceJson :: "json list \<Rightarrow> json" where
  "sliceJson xs = (if xs = [] then JNull else JArray xs)"

section \<open>What the API is given\<close>

datatype execError = ErrQueryCanceled string | ErrQueryTimeout string | ErrStorage string | ErrOther string

record queryResult =
  qrType :: string
  qrValue :: json
  qrWarnings :: "string list"

record ('s, 'q) query_env =
  qeNum :: num_env
  qeParseRFC3339 :: "string \<Rightarrow> time option"
  qeUnixParts :: "f64 \<Rightarrow> i64 \<times> i64"        \<comment> \<open>\<open>int64(f)\<close> and \<open>int64((f - float64(sec)) * 1e9)\<close>\<close>
  qeNow :: time
  qeParseSelector :: "string \<Rightarrow> string + matcher list"
  qeInstant :: "'s \<Rightarrow> i64 \<Rightarrow> string \<Rightarrow> time \<Rightarrow> string + 'q"          \<comment> \<open>\<open>NewInstantQuery\<close>\<close>
  qeRange :: "'s \<Rightarrow> i64 \<Rightarrow> string \<Rightarrow> time \<Rightarrow> time \<Rightarrow> i64 \<Rightarrow> string + 'q"  \<comment> \<open>\<open>NewRangeQuery\<close>\<close>
  qeExec :: "'q \<Rightarrow> execError + queryResult"

text \<open>The query methods of a store, as in \<open>query_store\<close>.\<close>

record ('s, 'it, 'l) storeQuery =
  sqSelect :: "'s \<Rightarrow> bool \<Rightarrow> i64 \<Rightarrow> i64 \<Rightarrow> matcher list \<Rightarrow> 'it"
  sqNext :: "'it \<Rightarrow> bool \<times> 'it"
  sqAt :: "'it \<Rightarrow> 'l series option"
  sqErr :: "'it \<Rightarrow> err"
  sqLabelNames :: "'s \<Rightarrow> i64 \<Rightarrow> i64 \<Rightarrow> matcher list \<Rightarrow> string + string list"
  sqLabelValues :: "'s \<Rightarrow> string \<Rightarrow> i64 \<Rightarrow> i64 \<Rightarrow> matcher list \<Rightarrow> string + string list"

record buildInfo =
  biVersion :: string
  biRevision :: string
  biBranch :: string

record api =
  apiLookback :: i64
  apiBuildInfo :: buildInfo

section \<open>Parameters\<close>

text \<open>The comparisons of a float with zero.\<close>

definition f64_pos :: "f64 \<Rightarrow> bool" where
  "f64_pos v \<longleftrightarrow> \<not> f64_is_nan v \<and> \<not> f64_sign v \<and> v \<noteq> 0"

definition f64_le_zero :: "f64 \<Rightarrow> bool" where
  "f64_le_zero v \<longleftrightarrow> \<not> f64_is_nan v \<and> (f64_sign v \<or> v = 0)"

definition parseTimeParam :: "('s, 'q) query_env \<Rightarrow> apiRequest \<Rightarrow> string \<Rightarrow> time \<Rightarrow> string + time" where
  "parseTimeParam E r param defaultVal =
     (let v = formValue r param
      in if v = '''' then Inr defaultVal
         else case qeParseRFC3339 E v of
           Some t \<Rightarrow> Inr t
         | None \<Rightarrow>
             (case neParseFloat (qeNum E) v of
                None \<Rightarrow> Inl (''invalid '' @ param @ '' parameter '' @ neQuote (qeNum E) v @
                  '': cannot parse as RFC3339 or unix timestamp'')
              | Some f \<Rightarrow> (case qeUnixParts E f of (sec, nsec) \<Rightarrow> Inr (unixTime sec nsec))))"

text \<open>The value of a failed parse whose error is ignored: \<open>time.Time{}\<close>.\<close>

definition orZeroTime :: "string + time \<Rightarrow> time" where
  "orZeroTime x = (case x of Inl e \<Rightarrow> zeroTime | Inr t \<Rightarrow> t)"

definition promSuffixes :: "(string \<times> nat) list" where
  "promSuffixes = [(''d'', 24 * hour), (''w'', 7 * 24 * hour), (''y'', 365 * 24 * hour)]"

text \<open>The suffixes are a map, visited in the order given.\<close>

fun parsePromDuration :: "num_env \<Rightarrow> string \<Rightarrow> (string \<times> nat) list \<Rightarrow> i64 option" where
  "parsePromDuration N s [] = None"
| "parsePromDuration N s ((suffix, factor) # rest) =
     (case cutSuffix s suffix of
        None \<Rightarrow> parsePromDuration N s rest
      | Some num \<Rightarrow>
          (case neParseFloat N num of
             None \<Rightarrow> parsePromDuration N s rest
           | Some v \<Rightarrow> if f64_pos v then Some (neScale N v factor) else parsePromDuration N s rest))"

definition parseStep :: "num_env \<Rightarrow> (string \<times> nat) list \<Rightarrow> string \<Rightarrow> string + i64" where
  "parseStep N suffixes s =
     (if s = '''' then Inl ''missing required parameter: step''
      else case goParseDuration N s of
        Some d \<Rightarrow> Inr d
      | None \<Rightarrow>
          (case parsePromDuration N s suffixes of
             Some d \<Rightarrow> Inr d
           | None \<Rightarrow>
               (case neParseFloat N s of
                  None \<Rightarrow> Inl (''cannot parse '' @ neQuote N s @ '' as duration or seconds'')
                | Some f \<Rightarrow>
                    if f64_le_zero f \<or> f64_is_nan f \<or> f64_is_inf f then Inl ''zero or negative step not allowed''
                    else Inr (neScale N f second))))"

section \<open>The query handlers\<close>

definition errorTypeFromErr :: "execError \<Rightarrow> string" where
  "errorTypeFromErr e = (case e of
     ErrQueryCanceled _ \<Rightarrow> ''canceled'' | ErrQueryTimeout _ \<Rightarrow> ''timeout'' | ErrStorage _ \<Rightarrow> ''internal''
   | ErrOther _ \<Rightarrow> ''execution'')"

definition execMessage :: "execError \<Rightarrow> string" where
  "execMessage e = (case e of ErrQueryCanceled m \<Rightarrow> m | ErrQueryTimeout m \<Rightarrow> m | ErrStorage m \<Rightarrow> m | ErrOther m \<Rightarrow> m)"

definition writeQueryResult :: "execError + queryResult \<Rightarrow> apiResponse" where
  "writeQueryResult x =
     (case x of
        Inl e \<Rightarrow> Failure (errorTypeFromErr e) (execMessage e)
      | Inr q \<Rightarrow> Success (JObject [(''result'', qrValue q), (''resultType'', JString (qrType q))]) (qrWarnings q))"

definition query :: "('s, 'q) query_env \<Rightarrow> api \<Rightarrow> 's \<Rightarrow> apiRequest \<Rightarrow> apiResponse" where
  "query E a s r =
     (case aqFormErr r of
        Some e \<Rightarrow> Failure ''bad_data'' (''failed to parse form: '' @ e)
      | None \<Rightarrow>
          let qs = formValue r ''query''
          in if qs = '''' then Failure ''bad_data'' ''missing required parameter: query''
             else case parseTimeParam E r ''time'' (qeNow E) of
               Inl e \<Rightarrow> Failure ''bad_data'' e
             | Inr ts \<Rightarrow>
                 (case qeInstant E s (apiLookback a) qs ts of
                    Inl e \<Rightarrow> Failure ''bad_data'' (''invalid expression: '' @ e)
                  | Inr q \<Rightarrow> writeQueryResult (qeExec E q)))"

definition queryRange :: "('s, 'q) query_env \<Rightarrow> (string \<times> nat) list \<Rightarrow> api \<Rightarrow> 's \<Rightarrow> apiRequest \<Rightarrow> apiResponse" where
  "queryRange E suffixes a s r =
     (case aqFormErr r of
        Some e \<Rightarrow> Failure ''bad_data'' (''failed to parse form: '' @ e)
      | None \<Rightarrow>
          let qs = formValue r ''query''; start = parseTimeParam E r ''start'' zeroTime; end = parseTimeParam E r ''end'' zeroTime
          in if qs = '''' then Failure ''bad_data'' ''missing required parameter: query''
             else if orZeroTime start = zeroTime then Failure ''bad_data'' ''invalid or missing start parameter''
             else if orZeroTime end = zeroTime then Failure ''bad_data'' ''invalid or missing end parameter''
             else case parseStep (qeNum E) suffixes (formValue r ''step'') of
               Inl e \<Rightarrow> Failure ''bad_data'' (''invalid step parameter: '' @ e)
             | Inr step \<Rightarrow>
                 (case qeRange E s (apiLookback a) qs (orZeroTime start) (orZeroTime end) step of
                    Inl e \<Rightarrow> Failure ''bad_data'' (''invalid expression: '' @ e)
                  | Inr q \<Rightarrow> writeQueryResult (qeExec E q)))"

section \<open>The metadata handlers\<close>

text \<open>
  \<open>q.Querier(mint, maxt)\<close> over the range of the request; an unreadable time counts as \<open>time.Time{}\<close>. The
  adapter's \<open>Querier\<close> and \<open>Close\<close> never fail.
\<close>

definition rangeQuerier :: "('s, 'q) query_env \<Rightarrow> apiRequest \<Rightarrow> querier" where
  "rangeQuerier E r =
     newQuerier (milliOf (orZeroTime (parseTimeParam E r ''start'' (unixTime 0 0))))
       (milliOf (orZeroTime (parseTimeParam E r ''end'' (qeNow E))))"

definition labelsEntry :: "'l labels_api \<Rightarrow> 'l \<Rightarrow> json" where
  "labelsEntry L l = mapJson (foldl (\<lambda>m (n, v). AList.update n v m) [] (lrange L l))"

text \<open>The loop over the selectors; \<open>None\<close> is a panic while the set is read.\<close>

fun seriesLoop ::
  "('s, 'q) query_env \<Rightarrow> 'l labels_api \<Rightarrow> ('s, 'it, 'l) storeQuery \<Rightarrow> querier \<Rightarrow> 's \<Rightarrow> string list \<Rightarrow> json list \<Rightarrow> apiResponse option" where
  "seriesLoop E L Q q s [] result = Some (Success (sliceJson result) [])"
| "seriesLoop E L Q q s (m # ms) result =
     (case qeParseSelector E m of
        Inl e \<Rightarrow> Some (Failure ''bad_data'' (''invalid match[] selector: '' @ e))
      | Inr matchers \<Rightarrow>
          let ss = querierSelect (sqSelect Q) q s False None matchers
          in Option.bind (drain (sqNext Q) (sqAt Q) ss) (\<lambda>R.
               case sqErr Q ss of
                 Some e \<Rightarrow> Some (Failure ''internal'' e)
               | None \<Rightarrow> seriesLoop E L Q q s ms (result @ map (\<lambda>x. labelsEntry L (srLabels x)) R)))"

definition seriesHandler ::
  "('s, 'q) query_env \<Rightarrow> 'l labels_api \<Rightarrow> ('s, 'it, 'l) storeQuery \<Rightarrow> 's \<Rightarrow> apiRequest \<Rightarrow> apiResponse option" where
  "seriesHandler E L Q s r =
     (case aqFormErr r of
        Some e \<Rightarrow> Some (Failure ''bad_data'' (''failed to parse form: '' @ e))
      | None \<Rightarrow>
          if formValues r ''match[]'' = [] then Some (Failure ''bad_data'' ''missing required parameter: match[]'')
          else seriesLoop E L Q (rangeQuerier E r) s (formValues r ''match[]'') [])"

text \<open>The two label handlers end the same way; a nil slice becomes an empty one.\<close>

definition writeNames :: "string + string list \<Rightarrow> apiResponse" where
  "writeNames x =
     (case x of
        Inl e \<Rightarrow> Failure ''internal'' e
      | Inr names \<Rightarrow> Success (JArray (map JString (sort names))) [])"

definition labelNames :: "('s, 'q) query_env \<Rightarrow> ('s, 'it, 'l) storeQuery \<Rightarrow> 's \<Rightarrow> apiRequest \<Rightarrow> apiResponse" where
  "labelNames E Q s r =
     (case aqFormErr r of
        Some e \<Rightarrow> Failure ''bad_data'' (''failed to parse form: '' @ e)
      | None \<Rightarrow> writeNames (querierLabelNames (sqLabelNames Q) (rangeQuerier E r) s []))"

definition hasPrefix :: "string \<Rightarrow> string \<Rightarrow> bool" where
  "hasPrefix s pre \<longleftrightarrow> take (length pre) s = pre"

text \<open>\<open>TrimSuffix(TrimPrefix(path, prefix), suffix)\<close>: the two may overlap in the path.\<close>

definition trimSuffix :: "string \<Rightarrow> string \<Rightarrow> string" where
  "trimSuffix s suf = (case cutSuffix s suf of Some t \<Rightarrow> t | None \<Rightarrow> s)"

definition labelValues :: "('s, 'q) query_env \<Rightarrow> ('s, 'it, 'l) storeQuery \<Rightarrow> 's \<Rightarrow> apiRequest \<Rightarrow> apiResponse" where
  "labelValues E Q s r =
     (case aqFormErr r of
        Some e \<Rightarrow> Failure ''bad_data'' (''failed to parse form: '' @ e)
      | None \<Rightarrow>
          let path = aqPath r; pre = ''/api/v1/label/''; suf = ''/values''
          in if \<not> hasPrefix path pre \<or> cutSuffix path suf = None then Failure ''bad_data'' ''invalid label values path''
             else let labelName = trimSuffix (drop (length pre) path) suf
             in if labelName = '''' then Failure ''bad_data'' ''missing label name''
                else writeNames (querierLabelValues (sqLabelValues Q) (rangeQuerier E r) s labelName []))"

definition metadata :: "apiResponse" where
  "metadata = Success (JObject []) []"

text \<open>\<open>buildDate\<close> is the time of the request, \<open>goVersion\<close> that of the runtime.\<close>

definition statusBuildInfo :: "api \<Rightarrow> string \<Rightarrow> string \<Rightarrow> apiResponse" where
  "statusBuildInfo a now goVersion =
     Success (mapJson
       [(''version'', biVersion (apiBuildInfo a)), (''revision'', biRevision (apiBuildInfo a)),
        (''branch'', biBranch (apiBuildInfo a)), (''buildDate'', now), (''goVersion'', goVersion)]) []"

section \<open>Routing\<close>

text \<open>What the client gets: JSON, a preflight answer, or a page that is not part of the API.\<close>

datatype httpReply = Preflight | Answer json | Redirect string | Dashboard string | NotFound

definition corsHeaders :: "(string \<times> string) list" where
  "corsHeaders =
     [(''Access-Control-Allow-Origin'', ''*''), (''Access-Control-Allow-Methods'', ''GET, POST, OPTIONS''),
      (''Access-Control-Allow-Headers'', ''Content-Type'')]"

text \<open>The status: the answers of the API, errors included, have 200; that of a file is the file server's.\<close>

definition replyStatus :: "httpReply \<Rightarrow> nat option" where
  "replyStatus x =
     (case x of
        Preflight \<Rightarrow> Some 204 | Answer j \<Rightarrow> Some 200 | Redirect to \<Rightarrow> Some 301 | Dashboard p \<Rightarrow> None | NotFound \<Rightarrow> Some 404)"

text \<open>
  The mux, for paths that are clean already. \<open>Dashboard\<close> stands for the file server over the embedded
  files, whose answer is not modelled.
\<close>

definition route ::
  "('s, 'q) query_env \<Rightarrow> (string \<times> nat) list \<Rightarrow> api \<Rightarrow> 'l labels_api \<Rightarrow> ('s, 'it, 'l) storeQuery \<Rightarrow> string \<Rightarrow> string \<Rightarrow> 's \<Rightarrow>
     apiRequest \<Rightarrow> httpReply option" where
  "route E suffixes a L Q now goVersion s r =
     (let path = aqPath r; json = (\<lambda>x. Answer (responseJson x))
      in if path = ''/api/v1/query'' then Some (json (query E a s r))
         else if path = ''/api/v1/query_range'' then Some (json (queryRange E suffixes a s r))
         else if path = ''/api/v1/series'' then map_option json (seriesHandler E L Q s r)
         else if path = ''/api/v1/labels'' then Some (json (labelNames E Q s r))
         else if path = ''/api/v1/metadata'' then Some (json metadata)
         else if path = ''/api/v1/status/buildinfo'' then Some (json (statusBuildInfo a now goVersion))
         else if path = ''/dashboard'' then Some (Redirect ''/dashboard/'')
         else if hasPrefix path ''/api/v1/label/'' then Some (json (labelValues E Q s r))
         else if hasPrefix path ''/dashboard/'' then Some (Dashboard (drop (length ''/dashboard'') path))
         else Some NotFound)"

definition corsMiddleware :: "(apiRequest \<Rightarrow> httpReply option) \<Rightarrow> apiRequest \<Rightarrow> ((string \<times> string) list \<times> httpReply) option" where
  "corsMiddleware next r =
     (if aqMethod r = ''OPTIONS'' then Some (corsHeaders, Preflight)
      else map_option (\<lambda>x. (corsHeaders, x)) (next r))"

definition apiHandler ::
  "('s, 'q) query_env \<Rightarrow> (string \<times> nat) list \<Rightarrow> api \<Rightarrow> 'l labels_api \<Rightarrow> ('s, 'it, 'l) storeQuery \<Rightarrow> string \<Rightarrow> string \<Rightarrow> 's \<Rightarrow>
     apiRequest \<Rightarrow> ((string \<times> string) list \<times> httpReply) option" where
  "apiHandler E suffixes a L Q now goVersion s = corsMiddleware (route E suffixes a L Q now goVersion s)"

end
