(* ===== verification/QuerySpec.thy ===== *)
theory QuerySpec
  imports Query Ingest
begin

text \<open>
  What the query API answers: the series of a selector, the steps it accepts, its errors, and a query
  after an export, which composes the receivers, the store and the adapter.
\<close>

section \<open>The series of the selectors\<close>

definition storeQuery_of ::
  "('s \<Rightarrow> bool \<Rightarrow> i64 \<Rightarrow> i64 \<Rightarrow> matcher list \<Rightarrow> 'it) \<Rightarrow> ('it \<Rightarrow> bool \<times> 'it) \<Rightarrow> ('it \<Rightarrow> 'l series option) \<Rightarrow>
     ('s, 'it, 'l) storeQuery \<Rightarrow> bool" where
  "storeQuery_of sel nxt at Q \<longleftrightarrow>
     sqSelect Q = sel \<and> sqNext Q = nxt \<and> sqAt Q = at \<and> (\<forall>it. sqErr Q it = None)"

definition in_selection ::
  "'l labels_api \<Rightarrow> querier \<Rightarrow> ('l \<Rightarrow> sample list) \<Rightarrow> matcher list list \<Rightarrow> 'l \<Rightarrow> bool" where
  "in_selection L q held mss l \<longleftrightarrow>
     (\<exists>ms \<in> set mss. matchesAll L l ms) \<and> (\<exists>x \<in> set (held l). in_range (qMint q) (qMaxt q) x)"

context query_store
begin

lemma select_labels:
  assumes L: "labels_ok L" and "qinv s" and R: "drain qnext qat (qsel s False mint maxt ms) = Some R"
  shows "r \<in> set R \<Longrightarrow> matchesAll L (srLabels r) ms \<and> (\<exists>x \<in> set (held s (srLabels r)). in_range mint maxt x)"
    and "matchesAll L l ms \<Longrightarrow> \<exists>x \<in> set (held s l). in_range mint maxt x \<Longrightarrow> \<exists>r \<in> set R. lequal L (srLabels r) l"
proof -
  show "matchesAll L (srLabels r) ms \<and> (\<exists>x \<in> set (held s (srLabels r)). in_range mint maxt x)" if r: "r \<in> set R"
  proof -
    note m = select_matches [OF assms(2) R r]
    have "set (srSamples r) \<subseteq> set (answer_samples L R (srLabels r))"
      using r lequal_refl [OF L] by (auto simp: answer_samples_def)
    then have "set (answer_samples L R (srLabels r)) \<noteq> {}" using m by auto
    moreover have "set (answer_samples L R (srLabels r)) = set (filter (in_range mint maxt) (held s (srLabels r)))"
      using select_held [OF assms(2) R] m by (metis set_mset_mset)
    ultimately show ?thesis using m by auto
  qed
  show "\<exists>r \<in> set R. lequal L (srLabels r) l" if "matchesAll L l ms" "\<exists>x \<in> set (held s l). in_range mint maxt x"
  proof -
    have "set (answer_samples L R l) = set (filter (in_range mint maxt) (held s l))"
      using select_held [OF assms(2) R that(1)] by (metis set_mset_mset)
    then have "set (answer_samples L R l) \<noteq> {}" using that(2) by auto
    then show ?thesis by (auto simp: answer_samples_def)
  qed
qed

lemma seriesLoop_select:
  assumes L: "labels_ok L" and inv: "qinv s" and Q: "storeQuery_of qsel qnext qat Q"
    and "map (qeParseSelector E) ms = map Inr mss"
  shows "\<exists>ls. seriesLoop E L Q q s ms res = Some (Success (sliceJson (res @ map (labelsEntry L) ls)) []) \<and>
    (\<forall>l \<in> set ls. in_selection L q (held s) mss l) \<and> (\<forall>l. in_selection L q (held s) mss l \<longrightarrow> (\<exists>l' \<in> set ls. lequal L l' l))"
  using assms(4)
proof (induction ms arbitrary: mss res)
  case Nil
  then show ?case by (intro exI [of _ "[]"]) (simp add: in_selection_def)
next
  case (Cons m ms)
  then obtain mc mcs where mss: "mss = mc # mcs" "qeParseSelector E m = Inr mc" "map (qeParseSelector E) ms = map Inr mcs"
    by (cases mss) auto
  obtain R where R: "drain qnext qat (qsel s False (qMint q) (qMaxt q) mc) = Some R"
    using select_drains [OF inv] by blast
  note lab = select_labels [OF L inv R]
  obtain ls where ls: "seriesLoop E L Q q s ms (res @ map (\<lambda>x. labelsEntry L (srLabels x)) R) =
      Some (Success (sliceJson ((res @ map (\<lambda>x. labelsEntry L (srLabels x)) R) @ map (labelsEntry L) ls)) [])"
    "\<forall>l \<in> set ls. in_selection L q (held s) mcs l" "\<forall>l. in_selection L q (held s) mcs l \<longrightarrow> (\<exists>l' \<in> set ls. lequal L l' l)"
    using Cons.IH [OF mss(3)] by blast
  have "seriesLoop E L Q q s (m # ms) res = Some (Success (sliceJson (res @ map (labelsEntry L) (map srLabels R @ ls))) [])"
    using Q R ls(1) by (simp add: storeQuery_of_def mss(2) querierSelect_def hintRange_def comp_def)
  moreover have "\<forall>l \<in> set (map srLabels R @ ls). in_selection L q (held s) mss l"
    using lab(1) ls(2) by (auto simp: mss(1) in_selection_def)
  moreover have "\<exists>l' \<in> set (map srLabels R @ ls). lequal L l' l" if "in_selection L q (held s) mss l" for l
  proof (cases "matchesAll L l mc")
    case True
    then show ?thesis using lab(2) [of l] that by (auto simp: in_selection_def)
  next
    case False
    then have "in_selection L q (held s) mcs l" using that by (simp add: mss(1) in_selection_def)
    then show ?thesis using ls(3) by auto
  qed
  ultimately show ?case by blast
qed

end

section \<open>Steps\<close>

lemma promSuffixes_one:
  assumes "(a, m) \<in> set promSuffixes" and "(b, n) \<in> set promSuffixes" and "cutSuffix s a \<noteq> None" and "cutSuffix s b \<noteq> None"
  shows "(a, m) = (b, n)"
  using assms by (auto simp: promSuffixes_def cutSuffix_Some)

text \<open>At most one suffix fits, so that the order of the map does not matter.\<close>

definition one_suffix :: "string \<Rightarrow> (string \<times> nat) list \<Rightarrow> bool" where
  "one_suffix s sfx \<longleftrightarrow> (\<forall>x \<in> set sfx. \<forall>y \<in> set sfx. cutSuffix s (fst x) \<noteq> None \<longrightarrow> cutSuffix s (fst y) \<noteq> None \<longrightarrow> x = y)"

definition suffix_duration :: "num_env \<Rightarrow> string \<Rightarrow> string \<times> nat \<Rightarrow> i64 option" where
  "suffix_duration N s x =
     Option.bind (cutSuffix s (fst x)) (\<lambda>num. Option.bind (neParseFloat N num)
       (\<lambda>v. if f64_pos v then Some (neScale N v (snd x)) else None))"

lemma parsePromDuration_cons:
  "parsePromDuration N s (x # sfx) = (case suffix_duration N s x of None \<Rightarrow> parsePromDuration N s sfx | Some d \<Rightarrow> Some d)"
  by (cases x) (auto simp: suffix_duration_def split: option.split)

lemma parsePromDuration_iff:
  assumes "one_suffix s sfx"
  shows "parsePromDuration N s sfx = Some d \<longleftrightarrow> (\<exists>x \<in> set sfx. suffix_duration N s x = Some d)"
  using assms
proof (induction sfx)
  case (Cons x sfx)
  have sub: "one_suffix s sfx" using Cons.prems by (simp add: one_suffix_def)
  have "suffix_duration N s y = suffix_duration N s x" if "y \<in> set sfx" "suffix_duration N s y \<noteq> None" "suffix_duration N s x \<noteq> None" for y
  proof -
    have "cutSuffix s (fst x) \<noteq> None" "cutSuffix s (fst y) \<noteq> None"
      using that by (auto simp: suffix_duration_def split: bind_splits)
    then have "x = y" using Cons.prems that(1) by (simp add: one_suffix_def)
    then show ?thesis by simp
  qed
  then have "suffix_duration N s y = Some d' \<Longrightarrow> y \<in> set sfx \<Longrightarrow> suffix_duration N s x \<noteq> None \<Longrightarrow> suffix_duration N s x = Some d'" for y d'
    by (metis option.distinct(1))
  with Cons.IH [OF sub] show ?case
    by (cases "suffix_duration N s x") (auto simp: parsePromDuration_cons simp del: parsePromDuration.simps)
qed simp

lemma one_suffix_prom: "set sfx = set promSuffixes \<Longrightarrow> one_suffix s sfx"
  unfolding one_suffix_def using promSuffixes_one by (metis prod.collapse)

lemma parsePromDuration_perm:
  assumes "set sfx = set promSuffixes"
  shows "parsePromDuration N s sfx = parsePromDuration N s promSuffixes"
  using parsePromDuration_iff [OF one_suffix_prom [OF assms]] parsePromDuration_iff [OF one_suffix_prom [OF refl]] assms
  by (intro option_ext) simp

section \<open>The persistent store behind the API\<close>

text \<open>\<open>NewQueryable\<close> over the persistent store.\<close>

definition fs_storeQuery ::
  "'l labels_api \<Rightarrow> ('l series list \<Rightarrow> 'l series list) \<Rightarrow> ('l fsStore \<Rightarrow> u64 list) \<Rightarrow> ('l fsStore, 'l sliceSeriesSet, 'l) storeQuery" where
  "fs_storeQuery L srt ks =
     \<lparr>sqSelect = fsSelectIt L srt ks, sqNext = ssNext, sqAt = ssAt, sqErr = ssErr,
      sqLabelNames = (\<lambda>s. fsLabelNames L (ks s) s), sqLabelValues = (\<lambda>s. fsLabelValues L (ks s) s)\<rparr>"

lemma fs_storeQuery: "storeQuery_of (fsSelectIt L srt ks) ssNext ssAt (fs_storeQuery L srt ks)"
  by (simp add: storeQuery_of_def fs_storeQuery_def ssErr_def)

text \<open>The contract of the persistent store, for use with the lemmas above.\<close>

lemma fs_query_store: "query_store L (fsSelectIt L srt ks) ssNext ssAt (fs_samples L) (fs_qinv L srt ks)"
  by (rule fsq.query_store_axioms)

lemma seriesHandler_fs:
  assumes inv: "fs_qinv L srt ks s" and form: "aqFormErr r = None" "formValues r ''match[]'' \<noteq> []"
    and parse: "map (qeParseSelector E) (formValues r ''match[]'') = map Inr mss"
  shows "\<exists>ls. seriesHandler E L (fs_storeQuery L srt ks) s r = Some (Success (sliceJson (map (labelsEntry L) ls)) []) \<and>
    (\<forall>l \<in> set ls. in_selection L (rangeQuerier E r) (fs_samples L s) mss l) \<and>
    (\<forall>l. in_selection L (rangeQuerier E r) (fs_samples L s) mss l \<longrightarrow> (\<exists>l' \<in> set ls. lequal L l' l))"
proof -
  have "labels_ok L" using inv by (simp add: fs_qinv_def)
  from query_store.seriesLoop_select [OF fs_query_store this inv fs_storeQuery parse, of "rangeQuerier E r" "[]"]
  show ?thesis using form by (simp add: seriesHandler_def)
qed

lemma export_fs_ok:
  assumes "labels_ok L" and "fs_ok L s"
    and "export (translator_of E (fs_appender_ops L outs) cfg) (fs_metrics_store L outs) (Some rms) (tr, s) = (r, (tr', s'))"
  shows "fs_ok L s'"
proof (rule fsm.export_preserves [where P = "fs_ok L", OF _ assms(2) assms(3) [unfolded fs_metrics_store_def]])
  fix a :: "'a fsAppender"
  assume ok: "fs_ok L (fst a)"
  obtain s1 ps e s2 qs where a: "a = (s1, ps)" "fsCommit L outs (s1, ps) = (e, (s2, qs))" by (metis prod.exhaust)
  from fsCommit_grows [OF assms(1) a(2)] ok a(1) have "fs_ok L s2" by (simp add: fs_ok_def)
  then show "fs_ok L (fst (snd (apCommit (fs_appender_ops L outs) a)))"
    using a by (simp add: fs_appender_ops_def)
qed

section \<open>Properties\<close>

text \<open>C2: What is acknowledged can be read. After an acknowledged export, and whatever the range, the hints and
  the matchers of the query, the query engine is given for every matching label set exactly the samples
  the store held before and those of the request, as far as they are in the range.\<close>

theorem export_then_query:
  assumes "labels_ok L" and "is_sort (series_less L) srt" and "fs_ok L s"
    and "export (translator_of E (fs_appender_ops L outs) cfg) (fs_metrics_store L outs) (Some rms) (tr, s) = (Inr partial, (tr', s'))"
    and "ranges (ks s') (memSeriesOf (fsMem s'))"
  shows "\<exists>R. promRead ssNext ssAt (querierSelect (fsSelectIt L srt ks) q s' sortSeries hints ms)
      = Some (map (\<lambda>r. Some (srLabels r, map (\<lambda>x. (sT x, sV x)) (srSamples r))) R) \<and>
    (\<forall>l. matchesAll L l ms \<longrightarrow> mset (answer_samples L R l) =
       filter_mset (in_range (fst (hintRange q hints)) (snd (hintRange q hints)))
         (mset (fs_samples L s l) + mset (batch_samples L (fst (run_jobs E (request_jobs E cfg rms) tr)) l)))"
proof -
  have "fs_qinv L srt ks s'"
    using assms export_fs_ok [OF assms(1,3,4)] by (simp add: fs_qinv_def)
  from fsq.promRead_select [OF this, of q sortSeries hints ms] obtain R where
    "promRead ssNext ssAt (querierSelect (fsSelectIt L srt ks) q s' sortSeries hints ms)
      = Some (map (\<lambda>r. Some (srLabels r, map (\<lambda>x. (sT x, sV x)) (srSamples r))) R)"
    "\<forall>l. matchesAll L l ms \<longrightarrow> mset (answer_samples L R l) =
       mset (filter (in_range (fst (hintRange q hints)) (snd (hintRange q hints))) (fs_samples L s' l))"
    by blast
  moreover have "mset (fs_samples L s' l) = mset (fs_samples L s l) +
      mset (batch_samples L (fst (run_jobs E (request_jobs E cfg rms) tr)) l)" for l
    using fsm.export_outcome [OF assms(1) assms(4) [unfolded fs_metrics_store_def]] unfolding fsm.taken_def by simp
  ultimately show ?thesis by (intro exI [of _ R]) (simp only: mset_filter simp_thms)
qed

text \<open>C23: \<open>/api/v1/series\<close> lists exactly the label sets that match one of the selectors and have a sample in
  the time range of the request; no such label set at all is answered with \<open>null\<close>, not an empty list.\<close>

theorem query_series:
  assumes "fs_qinv L srt ks s" and "aqFormErr r = None" and "formValues r ''match[]'' \<noteq> []"
    and "map (qeParseSelector E) (formValues r ''match[]'') = map Inr mss"
  shows "\<exists>ls. seriesHandler E L (fs_storeQuery L srt ks) s r =
      Some (Success (if ls = [] then JNull else JArray (map (labelsEntry L) ls)) []) \<and>
    (\<forall>l \<in> set ls. in_selection L (rangeQuerier E r) (fs_samples L s) mss l) \<and>
    (\<forall>l. in_selection L (rangeQuerier E r) (fs_samples L s) mss l \<longrightarrow> (\<exists>l' \<in> set ls. lequal L l' l))"
  using seriesHandler_fs [OF assms] by (simp add: sliceJson_def)

text \<open>An end time that does not parse is not reported by \<open>/api/v1/series\<close>: it counts as the year 1, so that
  the answer is a success without any series, whatever the store holds after that.\<close>

theorem query_bad_end:
  assumes "fs_qinv L srt ks s" and "aqFormErr r = None" and "formValues r ''match[]'' \<noteq> []"
    and "map (qeParseSelector E) (formValues r ''match[]'') = map Inr mss"
    and "parseTimeParam E r ''end'' (qeNow E) = Inl e"
    and "\<And>l x. x \<in> set (fs_samples L s l) \<Longrightarrow> - 62135596800000 < sint (sT x)"
  shows "seriesHandler E L (fs_storeQuery L srt ks) s r = Some (Success JNull [])"
proof -
  have "sint (qMaxt (rangeQuerier E r)) = - 62135596800000"
    by (simp add: rangeQuerier_def newQuerier_def assms(5) orZeroTime_def milliOf_def zeroTime_def)
  then have none: "\<not> in_selection L (rangeQuerier E r) (fs_samples L s) mss l" for l
    using assms(6) by (fastforce simp: in_selection_def in_range_def)
  obtain ls where "seriesHandler E L (fs_storeQuery L srt ks) s r = Some (Success (sliceJson (map (labelsEntry L) ls)) [])"
    "\<forall>l \<in> set ls. in_selection L (rangeQuerier E r) (fs_samples L s) mss l"
    using seriesHandler_fs [OF assms(1-4)] by blast
  with none show ?thesis by (cases ls) (auto simp: sliceJson_def)
qed

text \<open>The step of a range query does not depend on the order in which the map of suffixes is visited, at
  most one of which can fit. Whatever \<open>time.ParseDuration\<close> accepts is the step, negative durations and
  zero included; only plain numbers are checked to be positive.\<close>

theorem query_step:
  assumes "set sfx = set promSuffixes"
  shows "parseStep N sfx s = parseStep N promSuffixes s \<and>
    (\<forall>d. s \<noteq> '''' \<and> goParseDuration N s = Some d \<longrightarrow> parseStep N sfx s = Inr d)"
  by (simp add: parseStep_def parsePromDuration_perm [OF assms] split: option.split)

text \<open>The two query endpoints answer with \<open>bad_data\<close>, or with the outcome of a query that the engine
  accepted for the parameters as they were parsed; a failed execution is reported with one of four
  error types. The HTTP status of each of these answers is 200.\<close>

theorem query_outcomes:
  "((\<exists>msg. query E a s r = Failure ''bad_data'' msg) \<or>
     (\<exists>ts q. parseTimeParam E r ''time'' (qeNow E) = Inr ts \<and>
        qeInstant E s (apiLookback a) (formValue r ''query'') ts = Inr q \<and> query E a s r = writeQueryResult (qeExec E q))) \<and>
   ((\<exists>msg. queryRange E sfx a s r = Failure ''bad_data'' msg) \<or>
     (\<exists>start end step q. parseTimeParam E r ''start'' zeroTime = Inr start \<and> parseTimeParam E r ''end'' zeroTime = Inr end \<and>
        start \<noteq> zeroTime \<and> end \<noteq> zeroTime \<and> parseStep (qeNum E) sfx (formValue r ''step'') = Inr step \<and>
        qeRange E s (apiLookback a) (formValue r ''query'') start end step = Inr q \<and>
        queryRange E sfx a s r = writeQueryResult (qeExec E q))) \<and>
   (\<exists>data ws. writeQueryResult x = Success data ws \<or>
     (\<exists>t \<in> {''canceled'', ''timeout'', ''internal'', ''execution''}. \<exists>msg. writeQueryResult x = Failure t msg)) \<and>
   replyStatus (Answer (responseJson (query E a s r))) = Some 200"
proof (intro conjI)
  show "(\<exists>msg. query E a s r = Failure ''bad_data'' msg) \<or>
     (\<exists>ts q. parseTimeParam E r ''time'' (qeNow E) = Inr ts \<and>
        qeInstant E s (apiLookback a) (formValue r ''query'') ts = Inr q \<and> query E a s r = writeQueryResult (qeExec E q))"
    by (simp add: query_def Let_def split: option.split sum.split)
  show "(\<exists>msg. queryRange E sfx a s r = Failure ''bad_data'' msg) \<or>
     (\<exists>start end step q. parseTimeParam E r ''start'' zeroTime = Inr start \<and> parseTimeParam E r ''end'' zeroTime = Inr end \<and>
        start \<noteq> zeroTime \<and> end \<noteq> zeroTime \<and> parseStep (qeNum E) sfx (formValue r ''step'') = Inr step \<and>
        qeRange E s (apiLookback a) (formValue r ''query'') start end step = Inr q \<and>
        queryRange E sfx a s r = writeQueryResult (qeExec E q))"
    by (simp add: queryRange_def orZeroTime_def Let_def split: option.split sum.split)
  show "\<exists>data ws. writeQueryResult x = Success data ws \<or>
     (\<exists>t \<in> {''canceled'', ''timeout'', ''internal'', ''execution''}. \<exists>msg. writeQueryResult x = Failure t msg)"
    by (cases x) (auto simp: writeQueryResult_def errorTypeFromErr_def split: execError.split)
qed (simp add: replyStatus_def)

end
