(* ===== verification/QueryDemo.thy ===== *)
theory QueryDemo
  imports QuerySpec ClientDemo
begin

text \<open>Concrete instances of the properties of the query API, over the stores of \<open>FsDemo\<close>.\<close>

theorem export_then_query_witness:
  "\<exists>s' R. promRead ssNext ssAt (querierSelect (fsSelectIt demo_api (isort (series_less demo_api)) (\<lambda>_. [1])) (newQuerier 0 10) s' True None [])
      = Some (map (\<lambda>r. Some (srLabels r, map (\<lambda>x. (sT x, sV x)) (srSamples r))) R) \<and>
    mset (answer_samples demo_api R [(''__name__'', ''up'')]) =
      filter_mset (in_range 0 10) (add_mset \<lparr>sT = 5, sV = 9\<rparr> (mset (fs_samples demo_api (demo_fs []) [(''__name__'', ''up'')])))"
proof -
  let ?up = "[(''__name__'', ''up'')]"
  obtain tr' s' where run: "export (translator_of demo_env (fs_appender_ops demo_api []) plain_cfg) (fs_metrics_store demo_api [])
     (Some demo_request) (newTranslator (), demo_fs []) = (Inr None, (tr', s'))"
    and mem: "fsMem s' = appendSamples demo_api (fsMem (demo_fs [])) [pending ?up 5 9]"
    using demo_export by blast
  have "fs_ok demo_api (demo_fs [])" by (rule demo_fs_ok) simp
  moreover have "ranges [1] (memSeriesOf (fsMem s'))"
    unfolding mem demo_fs_def fsStore.simps
    by (simp add: appendSamples_def appendSample_def list_labels_def newMemStore_def Let_def ranges_def)
  ultimately obtain R where R: "promRead ssNext ssAt (querierSelect (fsSelectIt demo_api (isort (series_less demo_api)) (\<lambda>_. [1])) (newQuerier 0 10) s' True None [])
      = Some (map (\<lambda>r. Some (srLabels r, map (\<lambda>x. (sT x, sV x)) (srSamples r))) R)"
    and held: "\<forall>l. mset (answer_samples demo_api R l) = filter_mset (in_range 0 10)
       (mset (fs_samples demo_api (demo_fs []) l) + mset (batch_samples demo_api [pending ?up 5 9] l))"
    using export_then_query [OF list_labels_ok demo_sort _ run, of "\<lambda>_. [1]" "newQuerier 0 10" True None "[]"]
    by (auto simp: demo_request_samples hintRange_def newQuerier_def)
  have "mset (batch_samples demo_api [pending ?up 5 9] ?up) = {#\<lparr>sT = 5, sV = 9\<rparr>#}"
    by (simp add: batch_samples_def list_labels_def)
  with held have "mset (answer_samples demo_api R ?up) =
      filter_mset (in_range 0 10) (add_mset \<lparr>sT = 5, sV = 9\<rparr> (mset (fs_samples demo_api (demo_fs []) ?up)))"
    by simp
  with R show ?thesis by (intro exI conjI)
qed

text \<open>An environment without times and with one selector, which every series matches.\<close>

definition demo_query_env :: "((string \<times> string) list fsStore, unit) query_env" where
  "demo_query_env =
     \<lparr>qeNum = plain_num, qeParseRFC3339 = \<lambda>_. None, qeUnixParts = \<lambda>f. (f, 0), qeNow = 10 ^ 10,
      qeParseSelector = \<lambda>_. Inr [], qeInstant = \<lambda>_ _ _ _. Inr (), qeRange = \<lambda>_ _ _ _ _ _. Inr (),
      qeExec = \<lambda>_. Inl (ErrOther '''')\<rparr>"

definition demo_series_request :: "string \<Rightarrow> apiRequest" where
  "demo_series_request end =
     \<lparr>aqMethod = ''GET'', aqPath = ''/api/v1/series'', aqFormErr = None,
      aqForm = [''match[]'' \<mapsto> [''{}''], ''end'' \<mapsto> [end]]\<rparr>"

lemma demo_query_inv: "fs_qinv demo_api (isort (series_less demo_api)) (\<lambda>_. [1]) (demo_fs [])"
  using demo_fs_ok [of "[]"] demo_fs_ranges demo_sort by (simp add: fs_qinv_def list_labels_ok)

lemma demo_samples: "fs_samples demo_api (demo_fs []) l = batch_samples demo_api demo_batch l"
  by (simp add: fs_samples_def blocks_samples_def demo_fs_def mem_samples_batch [OF list_labels_ok])

lemma demo_form:
  "aqFormErr (demo_series_request end) = None" "formValues (demo_series_request end) ''match[]'' = [''{}'']"
  by (simp_all add: demo_series_request_def formValues_def)

theorem query_series_witness:
  "\<exists>ls. seriesHandler demo_query_env demo_api (fs_storeQuery demo_api (isort (series_less demo_api)) (\<lambda>_. [1])) (demo_fs [])
      (demo_series_request ''10'') = Some (Success (JArray (map (labelsEntry demo_api) ls)) []) \<and>
    demoA \<in> set ls"
proof -
  have "map (qeParseSelector demo_query_env) (formValues (demo_series_request ''10'') ''match[]'') = map Inr [[]]"
    by (simp add: demo_form demo_query_env_def)
  from query_series [OF demo_query_inv demo_form(1) _ this] obtain ls where
    ls: "seriesHandler demo_query_env demo_api (fs_storeQuery demo_api (isort (series_less demo_api)) (\<lambda>_. [1])) (demo_fs [])
      (demo_series_request ''10'') = Some (Success (if ls = [] then JNull else JArray (map (labelsEntry demo_api) ls)) [])"
    "\<forall>l. in_selection demo_api (rangeQuerier demo_query_env (demo_series_request ''10'')) (fs_samples demo_api (demo_fs [])) [[]] l \<longrightarrow>
      (\<exists>l' \<in> set ls. lequal demo_api l' l)"
    by (auto simp: demo_form)
  have "atoi ''10'' = Some 10" by code_simp
  then have q: "qMint (rangeQuerier demo_query_env (demo_series_request ''10'')) = 0"
    "qMaxt (rangeQuerier demo_query_env (demo_series_request ''10'')) = 10000"
    by (simp_all add: rangeQuerier_def newQuerier_def parseTimeParam_def formValue_def demo_series_request_def demo_query_env_def
      plain_num_def orZeroTime_def milliOf_def unixTime_def)
  have "\<lparr>sT = 1000, sV = 7\<rparr> \<in> set (fs_samples demo_api (demo_fs []) demoA)"
    by (simp add: demo_samples) (simp add: batch_samples_def list_labels_def)
  then have "in_selection demo_api (rangeQuerier demo_query_env (demo_series_request ''10'')) (fs_samples demo_api (demo_fs [])) [[]] demoA"
    unfolding in_selection_def q by (intro conjI bexI [of _ "\<lparr>sT = 1000, sV = 7\<rparr>"]) (simp_all add: in_range_def)
  then have "demoA \<in> set ls" using ls(2) by (auto simp: list_labels_def)
  moreover from this have "ls \<noteq> []" by auto
  ultimately show ?thesis using ls(1) by (intro exI [of _ ls]) simp
qed

theorem query_bad_end_witness:
  "seriesHandler demo_query_env demo_api (fs_storeQuery demo_api (isort (series_less demo_api)) (\<lambda>_. [1])) (demo_fs [])
     (demo_series_request ''yesterday'') = Some (Success JNull [])"
proof -
  have "map (qeParseSelector demo_query_env) (formValues (demo_series_request ''yesterday'') ''match[]'') = map Inr [[]]"
    by (simp add: demo_form demo_query_env_def)
  moreover have "atoi ''yesterday'' = None" by code_simp
  then have "parseTimeParam demo_query_env (demo_series_request ''yesterday'') ''end'' (qeNow demo_query_env) =
      Inl (''invalid end parameter '' @ ''yesterday'' @ '': cannot parse as RFC3339 or unix timestamp'')"
    by (simp add: parseTimeParam_def formValue_def demo_series_request_def demo_query_env_def plain_num_def)
  moreover have "- 62135596800000 < sint (sT x)" if "x \<in> set (fs_samples demo_api (demo_fs []) l)" for x l
    using that unfolding demo_samples by (auto simp: batch_samples_def split: if_splits)
  moreover have "formValues (demo_series_request ''yesterday'') ''match[]'' \<noteq> []"
    unfolding demo_form by simp
  ultimately show ?thesis by (intro query_bad_end [OF demo_query_inv demo_form(1)])
qed

theorem query_step_witness: "parseStep plain_num (rev promSuffixes) ''-5m'' = Inr (- 300000000000)"
proof -
  have "goParseDuration plain_num ''-5m'' = Some (- 300000000000)"
    by (simp add: goParseDuration_def parseTerm_def is_digit_def char_digit_def digit_val_def takeUnit_def durationUnits_def
      minute_def second_def Let_def)
  with query_step [of "rev promSuffixes" plain_num "''-5m''"] show ?thesis by auto
qed

end
