(* ===== verification/Config.thy ===== *)
theory Config
  imports GoTime StoreApi
begin

text \<open>
  \<open>internal/config/config.go\<close>: defaults, environment overrides, validation, and the parsers of durations
  and byte sizes. The configuration is the tree that reflection sees: a struct is the list of its
  fields with their \<open>yaml\<close> tags, a leaf has its Go type and value.
\<close>

section \<open>The configuration tree\<close>

datatype field =
    FStr string | FInt i64 | FBool bool | FDur i64 | FSize i64
  | FMap "(string \<times> string) list" | FList "string list"
  | FStruct "(string \<times> field) list"

text \<open>The Go types of a tree, without its values.\<close>

datatype go_shape = Leaf string | Node "(string \<times> go_shape) list"

definition goString :: go_shape where "goString = Leaf ''string''"
definition goInt :: go_shape where "goInt = Leaf ''int''"
definition goBool :: go_shape where "goBool = Leaf ''bool''"
definition goDuration :: go_shape where "goDuration = Leaf ''Duration''"
definition goByteSize :: go_shape where "goByteSize = Leaf ''ByteSize''"

text \<open>The struct types of the configuration, each field by its tag.\<close>

definition basicAuth :: go_shape where
  "basicAuth = Node [(''username'', goString), (''password'', goString)]"

definition storageConfig :: go_shape where
  "storageConfig = Node
     [(''engine'', goString),
      (''fs'', Node
        [(''path'', goString),
         (''wal'', Node [(''enabled'', goBool), (''segment_size'', goByteSize)]),
         (''compaction'', Node
           [(''enabled'', goBool), (''min_block_duration'', goDuration), (''max_block_duration'', goDuration)])]),
      (''prometheus'', Node
        [(''write_url'', goString), (''read_url'', goString), (''timeout'', goDuration), (''basic_auth'', basicAuth),
         (''tls'', Node
           [(''cert_file'', goString), (''key_file'', goString), (''ca_file'', goString), (''insecure_skip_verify'', goBool)])]),
      (''victoriametrics'', Node
        [(''write_url'', goString), (''read_url'', goString), (''timeout'', goDuration), (''basic_auth'', basicAuth)])]"

definition configType :: go_shape where
  "configType = Node
     [(''server'', Node [(''log_level'', goString), (''log_format'', goString)]),
      (''otlp'', Node
        [(''grpc'', Node
           [(''enabled'', goBool), (''listen'', goString), (''max_recv_msg_size'', goInt), (''gzip'', goBool)]),
         (''http'', Node
           [(''enabled'', goBool), (''listen'', goString), (''max_body_size'', goInt), (''gzip'', goBool)]),
         (''logs'', Node [(''enabled'', goBool)])]),
      (''prometheus'', Node
        [(''listen'', goString), (''read_timeout'', goDuration), (''max_samples'', goInt), (''default_step'', goDuration),
         (''max_points_per_series'', goInt), (''lookback_delta'', goDuration)]),
      (''storage'', storageConfig),
      (''retention'', Node [(''duration'', goDuration), (''max_size'', goByteSize)]),
      (''translation'', Node
        [(''resource_attributes'', Node [(''label_map'', Leaf ''map''), (''promote'', Leaf ''slice'')]),
         (''sanitize_metric_names'', goBool), (''add_unit_suffix'', goBool), (''add_type_suffix'', goBool),
         (''delta_conversion'', goBool), (''schema_url'', goBool)]),
      (''logs'', Node
        [(''enabled'', goBool), (''path'', goString), (''retention'', goDuration), (''max_events_per_session'', goInt),
         (''capture_content'', goBool)])]"

text \<open>The value at a path of tags.\<close>

fun fieldAt :: "string list \<Rightarrow> field \<Rightarrow> field option" where
  "fieldAt [] f = Some f"
| "fieldAt (t # ts) f =
     (case f of FStruct fs \<Rightarrow> (case map_of fs t of None \<Rightarrow> None | Some g \<Rightarrow> fieldAt ts g) | _ \<Rightarrow> None)"

definition strAt :: "string list \<Rightarrow> field \<Rightarrow> string" where
  "strAt p c = (case fieldAt p c of Some (FStr s) \<Rightarrow> s | _ \<Rightarrow> '''')"

definition boolAt :: "string list \<Rightarrow> field \<Rightarrow> bool" where
  "boolAt p c = (case fieldAt p c of Some (FBool b) \<Rightarrow> b | _ \<Rightarrow> False)"

text \<open>Integers, durations and sizes, read as signed numbers.\<close>

definition intAt :: "string list \<Rightarrow> field \<Rightarrow> int" where
  "intAt p c = (case fieldAt p c of Some (FInt n) \<Rightarrow> sint n | Some (FDur n) \<Rightarrow> sint n | Some (FSize n) \<Rightarrow> sint n | _ \<Rightarrow> 0)"

definition KB :: nat where "KB = 1024"
definition MB :: nat where "MB = 1024 * KB"
definition GB :: nat where "GB = 1024 * MB"

definition dur :: "nat \<Rightarrow> field" where "dur ns = FDur (word_of_nat ns)"

definition newDefaults :: field where
  "newDefaults = FStruct
     [(''server'', FStruct [(''log_level'', FStr ''info''), (''log_format'', FStr ''json'')]),
      (''otlp'', FStruct
        [(''grpc'', FStruct
           [(''enabled'', FBool True), (''listen'', FStr '':4317''), (''max_recv_msg_size'', FInt 4194304), (''gzip'', FBool True)]),
         (''http'', FStruct
           [(''enabled'', FBool True), (''listen'', FStr '':4318''), (''max_body_size'', FInt 4194304), (''gzip'', FBool True)]),
         (''logs'', FStruct [(''enabled'', FBool False)])]),
      (''prometheus'', FStruct
        [(''listen'', FStr '':9090''), (''read_timeout'', dur (30 * second)), (''max_samples'', FInt 50000000),
         (''default_step'', dur (15 * second)), (''max_points_per_series'', FInt 11000), (''lookback_delta'', dur (5 * minute))]),
      (''storage'', FStruct
        [(''engine'', FStr ''fs''),
         (''fs'', FStruct
           [(''path'', FStr ''./data''),
            (''wal'', FStruct [(''enabled'', FBool True), (''segment_size'', FSize (word_of_nat (128 * MB)))]),
            (''compaction'', FStruct
              [(''enabled'', FBool True), (''min_block_duration'', dur (2 * hour)), (''max_block_duration'', dur (24 * hour))])]),
         (''prometheus'', FStruct
           [(''write_url'', FStr ''''), (''read_url'', FStr ''''), (''timeout'', dur (30 * second)),
            (''basic_auth'', FStruct [(''username'', FStr ''''), (''password'', FStr '''')]),
            (''tls'', FStruct
              [(''cert_file'', FStr ''''), (''key_file'', FStr ''''), (''ca_file'', FStr ''''), (''insecure_skip_verify'', FBool False)])]),
         (''victoriametrics'', FStruct
           [(''write_url'', FStr ''''), (''read_url'', FStr ''''), (''timeout'', dur (30 * second)),
            (''basic_auth'', FStruct [(''username'', FStr ''''), (''password'', FStr '''')])])]),
      (''retention'', FStruct [(''duration'', dur (15 * 24 * hour)), (''max_size'', FSize 0)]),
      (''translation'', FStruct
        [(''resource_attributes'', FStruct
           [(''label_map'', FMap [(''service.name'', ''job''), (''service.instance.id'', ''instance'')]), (''promote'', FList [])]),
         (''sanitize_metric_names'', FBool True), (''add_unit_suffix'', FBool True), (''add_type_suffix'', FBool True),
         (''delta_conversion'', FBool True), (''schema_url'', FBool True)]),
      (''logs'', FStruct
        [(''enabled'', FBool True), (''path'', FStr ''./data/sessions.db''), (''retention'', dur (24 * hour)),
         (''max_events_per_session'', FInt 5000), (''capture_content'', FBool False)])]"

section \<open>Parsers\<close>

definition parseDuration :: "num_env \<Rightarrow> string \<Rightarrow> string + i64" where
  "parseDuration N s =
     (case cutSuffix s ''d'' of
        Some numStr \<Rightarrow>
          (case atoi numStr of
             None \<Rightarrow> Inl (''invalid duration '' @ neQuote N s)
           | Some days \<Rightarrow> Inr (word_of_int days * 24 * word_of_nat hour))
      | None \<Rightarrow>
          (case goParseDuration N s of
             None \<Rightarrow> Inl (''time: invalid duration '' @ neQuote N s)
           | Some d \<Rightarrow> Inr d))"

definition sizeSuffixes :: "(string \<times> nat) list" where
  "sizeSuffixes = [(''GB'', GB), (''MB'', MB), (''KB'', KB)]"

fun parseSuffixed :: "num_env \<Rightarrow> string \<Rightarrow> (string \<times> nat) list \<Rightarrow> string + i64" where
  "parseSuffixed N s [] =
     (case atoi s of None \<Rightarrow> Inl (''invalid byte size '' @ neQuote N s) | Some n \<Rightarrow> Inr (word_of_int n))"
| "parseSuffixed N s ((suf, mul) # sfs) =
     (case cutSuffix s suf of
        Some numStr \<Rightarrow>
          (case neParseFloat N numStr of
             None \<Rightarrow> Inl (''invalid byte size '' @ neQuote N s)
           | Some n \<Rightarrow> Inr (neScale N n mul))
      | None \<Rightarrow> parseSuffixed N s sfs)"

definition parseByteSize :: "num_env \<Rightarrow> string \<Rightarrow> string + i64" where
  "parseByteSize N s =
     (let s = neTrimSpace N s in if s = ''0'' then Inr 0 else parseSuffixed N s sizeSuffixes)"

text \<open>
  \<open>UnmarshalYAML\<close> of the two types: the outcomes of decoding the node as a string and as an integer
  are arguments.
\<close>

definition unmarshalDuration :: "num_env \<Rightarrow> string + string \<Rightarrow> string + i64 \<Rightarrow> string + i64" where
  "unmarshalDuration N asString asInt =
     (case asString of
        Inl e \<Rightarrow> (case asInt of Inl _ \<Rightarrow> Inl e | Inr n \<Rightarrow> Inr n)
      | Inr s \<Rightarrow> parseDuration N s)"

definition unmarshalByteSize :: "num_env \<Rightarrow> string + string \<Rightarrow> string + i64 \<Rightarrow> string + i64" where
  "unmarshalByteSize N asString asInt =
     (case asString of
        Inl e \<Rightarrow> (case asInt of Inl _ \<Rightarrow> Inl e | Inr n \<Rightarrow> Inr n)
      | Inr s \<Rightarrow> parseByteSize N s)"

section \<open>Environment overrides\<close>

text \<open>\<open>strconv.ParseBool\<close>.\<close>

definition parseBool :: "string \<Rightarrow> bool option" where
  "parseBool s =
     (if s \<in> {''1'', ''t'', ''T'', ''true'', ''TRUE'', ''True''} then Some True
      else if s \<in> {''0'', ''f'', ''F'', ''false'', ''FALSE'', ''False''} then Some False
      else None)"

text \<open>\<open>strings.ToUpper\<close> of a tag; the tags are ASCII.\<close>

definition toUpper :: "string \<Rightarrow> string" where
  "toUpper s = map (\<lambda>c. if CHR ''a'' \<le> c \<and> c \<le> CHR ''z'' then char_of (of_char c - 32 :: nat) else c) s"

definition setFieldFromString :: "field \<Rightarrow> string \<Rightarrow> field" where
  "setFieldFromString fv val =
     (case fv of
        FStr _ \<Rightarrow> FStr val
      | FInt n \<Rightarrow> (case atoi val of Some z \<Rightarrow> FInt (word_of_int z) | None \<Rightarrow> fv)
      | FBool b \<Rightarrow> (case parseBool val of Some b \<Rightarrow> FBool b | None \<Rightarrow> fv)
      | _ \<Rightarrow> fv)"

text \<open>A leaf, given the value of its variable if that is set.\<close>

definition overrideLeaf :: "num_env \<Rightarrow> string option \<Rightarrow> field \<Rightarrow> field" where
  "overrideLeaf N v fv =
     (case v of
        None \<Rightarrow> fv
      | Some val \<Rightarrow>
          (case fv of
             FDur d \<Rightarrow> (case parseDuration N val of Inr d \<Rightarrow> FDur d | Inl _ \<Rightarrow> fv)
           | FSize b \<Rightarrow> (case parseByteSize N val of Inr b \<Rightarrow> FSize b | Inl _ \<Rightarrow> fv)
           | FMap m \<Rightarrow> fv
           | FList l \<Rightarrow> fv
           | _ \<Rightarrow> setFieldFromString fv val))"

definition envKey :: "string \<Rightarrow> string \<Rightarrow> string" where
  "envKey prefix tag = prefix @ ''_'' @ toUpper (takeWhile (\<lambda>c. c \<noteq> CHR '','') tag)"

fun applyEnvOverrides :: "num_env \<Rightarrow> (string \<rightharpoonup> string) \<Rightarrow> string \<Rightarrow> (string \<times> field) list \<Rightarrow> (string \<times> field) list" where
  "applyEnvOverrides N env prefix [] = []"
| "applyEnvOverrides N env prefix ((tag, fv) # fs) =
     (tag,
      if tag = '''' \<or> tag = ''-'' then fv
      else case fv of
        FStruct gs \<Rightarrow> FStruct (applyEnvOverrides N env (envKey prefix tag) gs)
      | _ \<Rightarrow> overrideLeaf N (env (envKey prefix tag)) fv)
     # applyEnvOverrides N env prefix fs"

section \<open>Validation\<close>

text \<open>\<open>strings.LastIndex(addr, ":")\<close> and the text after it.\<close>

definition afterLastColon :: "string \<Rightarrow> string option" where
  "afterLastColon addr =
     (if CHR '':'' \<in> set addr then Some (rev (takeWhile (\<lambda>c. c \<noteq> CHR '':'') (rev addr))) else None)"

definition validateListen :: "num_env \<Rightarrow> string \<Rightarrow> string \<Rightarrow> string list" where
  "validateListen N addr name =
     (if addr = '''' then [name @ '': must not be empty'']
      else case afterLastColon addr of
        None \<Rightarrow> [name @ '': must contain a port (e.g., :8080 or 0.0.0.0:8080)'']
      | Some portStr \<Rightarrow>
          (case atoi portStr of
             None \<Rightarrow> [name @ '': invalid port '' @ neQuote N portStr]
           | Some port \<Rightarrow>
               if port < 0 \<or> port > 65535 then [name @ '': port must be 0-65535, got '' @ fmt_int port] else []))"

definition check :: "bool \<Rightarrow> string \<Rightarrow> string list" where
  "check bad msg = (if bad then [msg] else [])"

definition validLogLevels :: "string list" where "validLogLevels = [''debug'', ''info'', ''warn'', ''error'']"
definition validLogFormats :: "string list" where "validLogFormats = [''json'', ''text'']"
definition validEngines :: "string list" where "validEngines = [''fs'', ''prometheus'', ''victoriametrics'']"

text \<open>The errors, in order; none means that the configuration is valid.\<close>

definition validate :: "num_env \<Rightarrow> field \<Rightarrow> string list" where
  "validate N c =
     (let level = strAt [''server'', ''log_level''] c; format = strAt [''server'', ''log_format''] c;
          engine = strAt [''storage'', ''engine''] c
      in check (level \<notin> set validLogLevels)
           (''server.log_level: invalid value '' @ neQuote N level @ '' (must be debug, info, warn, or error)'') @
         check (format \<notin> set validLogFormats)
           (''server.log_format: invalid value '' @ neQuote N format @ '' (must be json or text)'') @
         (if boolAt [''otlp'', ''grpc'', ''enabled''] c then
            validateListen N (strAt [''otlp'', ''grpc'', ''listen''] c) ''otlp.grpc.listen'' @
            check (intAt [''otlp'', ''grpc'', ''max_recv_msg_size''] c \<le> 0) ''otlp.grpc.max_recv_msg_size: must be positive''
          else []) @
         (if boolAt [''otlp'', ''http'', ''enabled''] c then
            validateListen N (strAt [''otlp'', ''http'', ''listen''] c) ''otlp.http.listen'' @
            check (intAt [''otlp'', ''http'', ''max_body_size''] c \<le> 0) ''otlp.http.max_body_size: must be positive''
          else []) @
         validateListen N (strAt [''prometheus'', ''listen''] c) ''prometheus.listen'' @
         check (intAt [''prometheus'', ''read_timeout''] c \<le> 0) ''prometheus.read_timeout: must be positive'' @
         check (intAt [''prometheus'', ''max_samples''] c \<le> 0) ''prometheus.max_samples: must be positive'' @
         check (engine \<notin> set validEngines)
           (''storage.engine: invalid value '' @ neQuote N engine @ '' (must be fs, prometheus, or victoriametrics)'') @
         (if engine = ''prometheus'' then
            check (strAt [''storage'', ''prometheus'', ''write_url''] c = '''')
              ''storage.prometheus.write_url: required when engine is prometheus'' @
            check (strAt [''storage'', ''prometheus'', ''read_url''] c = '''')
              ''storage.prometheus.read_url: required when engine is prometheus''
          else []) @
         (if engine = ''victoriametrics'' then
            check (strAt [''storage'', ''victoriametrics'', ''write_url''] c = '''')
              ''storage.victoriametrics.write_url: required when engine is victoriametrics'' @
            check (strAt [''storage'', ''victoriametrics'', ''read_url''] c = '''')
              ''storage.victoriametrics.read_url: required when engine is victoriametrics''
          else []) @
         check (intAt [''retention'', ''duration''] c < 0) ''retention.duration: must not be negative'' @
         check (intAt [''retention'', ''max_size''] c < 0) ''retention.max_size: must not be negative'' @
         check (boolAt [''otlp'', ''logs'', ''enabled''] c \<and> \<not> boolAt [''logs'', ''enabled''] c)
           ''otlp.logs.enabled requires logs.enabled to also be true'' @
         (if boolAt [''logs'', ''enabled''] c then
            check (strAt [''logs'', ''path''] c = '''') ''logs.path: must not be empty when logs.enabled is true'' @
            check (intAt [''logs'', ''max_events_per_session''] c \<le> 0) ''logs.max_events_per_session: must be positive'' @
            check (intAt [''logs'', ''retention''] c < 0) ''logs.retention: must not be negative''
          else []))"

section \<open>Loading\<close>

text \<open>
  \<open>readFile\<close> is the outcome of reading the file, \<open>yamlUnmarshal\<close> the YAML decoder, which writes into the
  struct it is given.
\<close>

definition loadYAML :: "string + byte list \<Rightarrow> (byte list \<Rightarrow> field \<Rightarrow> string + field) \<Rightarrow> field \<Rightarrow> string + field" where
  "loadYAML readFile yamlUnmarshal c = sbind readFile (\<lambda>data. yamlUnmarshal data c)"

definition overrideConfig :: "num_env \<Rightarrow> (string \<rightharpoonup> string) \<Rightarrow> field \<Rightarrow> field" where
  "overrideConfig N env c = (case c of FStruct fs \<Rightarrow> FStruct (applyEnvOverrides N env ''LOM'' fs) | _ \<Rightarrow> c)"

definition joinErrors :: "string list \<Rightarrow> string" where
  "joinErrors es = concat (map (\<lambda>(i, e). (if i = 0 then '''' else [CHR 0x0A]) @ e) (zip [0..<length es] es))"

definition load ::
  "num_env \<Rightarrow> (string \<rightharpoonup> string) \<Rightarrow> (string \<Rightarrow> string + byte list) \<Rightarrow> (byte list \<Rightarrow> field \<Rightarrow> string + field) \<Rightarrow> string \<Rightarrow>
     string + field" where
  "load N env readFile yamlUnmarshal path =
     (case (if path \<noteq> '''' then loadYAML (readFile path) yamlUnmarshal newDefaults else Inr newDefaults) of
        Inl e \<Rightarrow> Inl (''loading config file: '' @ e)
      | Inr c \<Rightarrow>
          let c = overrideConfig N env c; errs = validate N c
          in if errs \<noteq> [] then Inl (''validating config: '' @ joinErrors errs) else Inr c)"

section \<open>Overrides keep the shape\<close>

fun shape :: "field \<Rightarrow> go_shape" and shapes :: "(string \<times> field) list \<Rightarrow> (string \<times> go_shape) list" where
  "shape (FStr _) = Leaf ''string''"
| "shape (FInt _) = Leaf ''int''"
| "shape (FBool _) = Leaf ''bool''"
| "shape (FDur _) = Leaf ''Duration''"
| "shape (FSize _) = Leaf ''ByteSize''"
| "shape (FMap _) = Leaf ''map''"
| "shape (FList _) = Leaf ''slice''"
| "shape (FStruct fs) = Node (shapes fs)"
| "shapes [] = []"
| "shapes ((t, f) # fs) = (t, shape f) # shapes fs"

lemma shape_overrideLeaf: "shape (overrideLeaf N v f) = shape f"
  by (cases f) (auto simp: overrideLeaf_def setFieldFromString_def split: option.split sum.split)

lemma shapes_override: "shapes (applyEnvOverrides N env prefix fs) = shapes fs"
  by (induction N env prefix fs rule: applyEnvOverrides.induct) (auto simp: shape_overrideLeaf split: field.split)

section \<open>Overrides leaf by leaf\<close>

text \<open>Every struct has distinct tags, none of them empty or \<open>-\<close>.\<close>

fun tags_ok :: "(string \<times> field) list \<Rightarrow> bool" where
  "tags_ok [] = True"
| "tags_ok ((t, f) # fs) =
     (t \<noteq> '''' \<and> t \<noteq> ''-'' \<and> t \<notin> fst ` set fs \<and> (case f of FStruct gs \<Rightarrow> tags_ok gs | _ \<Rightarrow> True) \<and> tags_ok fs)"

definition is_leaf :: "field \<Rightarrow> bool" where
  "is_leaf f \<longleftrightarrow> (\<forall>gs. f \<noteq> FStruct gs)"

lemma map_of_override:
  "tags_ok fs \<Longrightarrow> map_of fs t = Some f \<Longrightarrow>
   map_of (applyEnvOverrides N env prefix fs) t =
     Some (case f of
       FStruct gs \<Rightarrow> FStruct (applyEnvOverrides N env (envKey prefix t) gs)
     | _ \<Rightarrow> overrideLeaf N (env (envKey prefix t)) f)"
  by (induction N env prefix fs rule: applyEnvOverrides.induct) (auto split: if_splits)

lemma tags_ok_sub: "tags_ok fs \<Longrightarrow> map_of fs t = Some (FStruct gs) \<Longrightarrow> tags_ok gs"
  by (induction fs rule: tags_ok.induct) (auto split: if_splits)

lemma fieldAt_override:
  "tags_ok fs \<Longrightarrow> p \<noteq> [] \<Longrightarrow> fieldAt p (FStruct fs) = Some f \<Longrightarrow> is_leaf f \<Longrightarrow>
   fieldAt p (FStruct (applyEnvOverrides N env prefix fs)) = Some (overrideLeaf N (env (foldl envKey prefix p)) f)"
proof (induction p arbitrary: fs prefix)
  case (Cons t p)
  then obtain g where g: "map_of fs t = Some g" "fieldAt p g = Some f" by (auto split: option.splits)
  note upd = map_of_override [OF Cons.prems(1) g(1), of N env prefix]
  show ?case
  proof (cases "p = []")
    case True
    with g Cons.prems(4) upd show ?thesis by (cases g) (auto simp: is_leaf_def)
  next
    case False
    then obtain gs where gs: "g = FStruct gs" using g(2) by (cases p; cases g) auto
    have "fieldAt p (FStruct (applyEnvOverrides N env (envKey prefix t) gs)) =
      Some (overrideLeaf N (env (foldl envKey (envKey prefix t) p)) f)"
      using tags_ok_sub Cons.prems g gs False by (intro Cons.IH) auto
    with upd gs show ?thesis by simp
  qed
qed simp

lemma overrideLeaf_None [simp]: "overrideLeaf N None f = f"
  by (simp add: overrideLeaf_def)

lemma override_none: "applyEnvOverrides N Map.empty prefix fs = fs"
  by (induction N "Map.empty :: string \<rightharpoonup> string" prefix fs rule: applyEnvOverrides.induct)
    (auto split: field.split)

section \<open>Addresses\<close>

text \<open>The address ends in a colon and a port number.\<close>

definition listens :: "string \<Rightarrow> bool" where
  "listens addr \<longleftrightarrow> (\<exists>host digits port. addr = host @ '':'' @ digits \<and> CHR '':'' \<notin> set digits \<and>
     atoi digits = Some port \<and> 0 \<le> port \<and> port \<le> 65535)"

lemma split_at_first: "c \<in> set xs \<Longrightarrow> \<exists>ys. xs = takeWhile (\<lambda>x. x \<noteq> c) xs @ c # ys"
  by (induction xs) auto

lemma validateListen_ok: "validateListen N addr name = [] \<Longrightarrow> listens addr"
proof -
  assume ok: "validateListen N addr name = []"
  then obtain digits port where d: "afterLastColon addr = Some digits" "atoi digits = Some port" "0 \<le> port" "port \<le> 65535"
    by (auto simp: validateListen_def split: if_splits option.splits)
  then have mem: "CHR '':'' \<in> set (rev addr)" and dig: "digits = rev (takeWhile (\<lambda>c. c \<noteq> CHR '':'') (rev addr))"
    by (auto simp: afterLastColon_def split: if_splits)
  obtain r where r: "rev addr = takeWhile (\<lambda>c. c \<noteq> CHR '':'') (rev addr) @ CHR '':'' # r"
    using split_at_first [OF mem] by blast
  have "addr = rev r @ '':'' @ digits"
    using arg_cong [OF r, of rev] by (simp add: dig)
  moreover have "CHR '':'' \<notin> set digits" unfolding dig by (auto dest: set_takeWhileD)
  ultimately show ?thesis using d(2-4) unfolding listens_def by blast
qed

lemma if_Nil: "(if b then xs else []) = [] \<longleftrightarrow> (b \<longrightarrow> xs = [])"
  by simp

lemma one_of_three: "e \<in> {a, b, c} \<Longrightarrow> e = b \<longrightarrow> P b \<Longrightarrow> e = c \<longrightarrow> P c \<Longrightarrow> e \<noteq> a \<longrightarrow> P e"
  by blast

lemma check_Nil [simp]: "check bad msg = [] \<longleftrightarrow> \<not> bad"
  by (simp add: check_def)

section \<open>The defaults are valid\<close>

lemma newDefaults_at:
  "strAt [''server'', ''log_level''] newDefaults = ''info''"
  "strAt [''server'', ''log_format''] newDefaults = ''json''"
  "strAt [''otlp'', ''grpc'', ''listen''] newDefaults = '':4317''"
  "strAt [''otlp'', ''http'', ''listen''] newDefaults = '':4318''"
  "strAt [''prometheus'', ''listen''] newDefaults = '':9090''"
  "strAt [''storage'', ''engine''] newDefaults = ''fs''"
  "strAt [''logs'', ''path''] newDefaults = ''./data/sessions.db''"
  "intAt [''otlp'', ''grpc'', ''max_recv_msg_size''] newDefaults = 4194304"
  "intAt [''otlp'', ''http'', ''max_body_size''] newDefaults = 4194304"
  "intAt [''prometheus'', ''read_timeout''] newDefaults = 30000000000"
  "intAt [''prometheus'', ''max_samples''] newDefaults = 50000000"
  "intAt [''retention'', ''duration''] newDefaults = 1296000000000000"
  "intAt [''retention'', ''max_size''] newDefaults = 0"
  "intAt [''logs'', ''max_events_per_session''] newDefaults = 5000"
  "intAt [''logs'', ''retention''] newDefaults = 86400000000000"
  "boolAt [''otlp'', ''logs'', ''enabled''] newDefaults = False"
  by (simp_all add: strAt_def intAt_def boolAt_def newDefaults_def dur_def hour_def minute_def second_def)

lemma listen_defaults:
  "validateListen N '':4317'' name = []" "validateListen N '':4318'' name = []" "validateListen N '':9090'' name = []"
  by (simp_all add: validateListen_def afterLastColon_def atoi_def atoi_nat_def char_digit_def)

lemma validate_defaults: "validate N newDefaults = []"
  unfolding validate_def Let_def newDefaults_at append_is_Nil_conv check_Nil if_Nil listen_defaults
    validLogLevels_def validLogFormats_def validEngines_def
  by simp


lemma newDefaults_tags: "newDefaults = FStruct fs \<Longrightarrow> tags_ok fs"
  by (auto simp: newDefaults_def dur_def)

lemma load_without: "load N Map.empty readFile yamlUnmarshal '''' = Inr newDefaults"
proof -
  have "overrideConfig N Map.empty c = c" for c
    by (cases c) (simp_all add: overrideConfig_def override_none)
  then show ?thesis using validate_defaults by (simp add: load_def)
qed

lemma sint_word_of_nat: "k < 2 ^ 63 \<Longrightarrow> sint (word_of_nat k :: i64) = int k"
  by (simp add: signed_of_nat signed_take_bit_int_eq_self)

lemma day_exact: "n \<le> 106751 \<Longrightarrow> sint (word_of_nat (n * 24 * hour) :: i64) = int n * 24 * int hour"
  by (subst sint_word_of_nat) (simp_all add: hour_def minute_def second_def)

lemma newDefaults_type: "shape newDefaults = configType"
  by (simp add: newDefaults_def configType_def storageConfig_def basicAuth_def dur_def
    goString_def goInt_def goBool_def goDuration_def goByteSize_def)

lemma shape_overrideConfig: "shape (overrideConfig N env c) = shape c"
  by (cases c) (simp_all add: overrideConfig_def shapes_override)

text \<open>What a successful validation says.\<close>

lemma load_safe:
  assumes "load N env readFile yamlUnmarshal path = Inr c"
  shows "listens (strAt [''prometheus'', ''listen''] c) \<and>
    (boolAt [''otlp'', ''grpc'', ''enabled''] c \<longrightarrow>
       listens (strAt [''otlp'', ''grpc'', ''listen''] c) \<and> 0 < intAt [''otlp'', ''grpc'', ''max_recv_msg_size''] c) \<and>
    (boolAt [''otlp'', ''http'', ''enabled''] c \<longrightarrow>
       listens (strAt [''otlp'', ''http'', ''listen''] c) \<and> 0 < intAt [''otlp'', ''http'', ''max_body_size''] c) \<and>
    0 < intAt [''prometheus'', ''read_timeout''] c \<and> 0 < intAt [''prometheus'', ''max_samples''] c \<and>
    strAt [''storage'', ''engine''] c \<in> {''fs'', ''prometheus'', ''victoriametrics''} \<and>
    (strAt [''storage'', ''engine''] c \<noteq> ''fs'' \<longrightarrow>
       strAt [''storage'', strAt [''storage'', ''engine''] c, ''write_url''] c \<noteq> '''' \<and>
       strAt [''storage'', strAt [''storage'', ''engine''] c, ''read_url''] c \<noteq> '''') \<and>
    0 \<le> intAt [''retention'', ''duration''] c \<and> 0 \<le> intAt [''retention'', ''max_size''] c \<and>
    (boolAt [''otlp'', ''logs'', ''enabled''] c \<longrightarrow> boolAt [''logs'', ''enabled''] c) \<and>
    (boolAt [''logs'', ''enabled''] c \<longrightarrow> strAt [''logs'', ''path''] c \<noteq> '''' \<and>
       0 < intAt [''logs'', ''max_events_per_session''] c \<and> 0 \<le> intAt [''logs'', ''retention''] c)"
proof -
  have "validate N c = []"
    using assms by (auto simp: load_def Let_def split: sum.splits if_splits)
  note ok = this [unfolded validate_def Let_def append_is_Nil_conv check_Nil if_Nil not_not not_le not_less]
  have engine: "strAt [''storage'', ''engine''] c \<in> {''fs'', ''prometheus'', ''victoriametrics''}"
    using ok unfolding validEngines_def by (simp only: list.set)
  have urls: "strAt [''storage'', ''engine''] c \<noteq> ''fs'' \<longrightarrow>
       strAt [''storage'', strAt [''storage'', ''engine''] c, ''write_url''] c \<noteq> '''' \<and>
       strAt [''storage'', strAt [''storage'', ''engine''] c, ''read_url''] c \<noteq> ''''"
    using ok by (intro one_of_three [OF engine]) blast+
  show ?thesis using ok engine urls by (blast dest: validateListen_ok)
qed

section \<open>Properties\<close>




text \<open>What the server starts from. A configuration that \<open>Load\<close> accepts has limits that are positive and
  retentions that are not negative, an engine that exists with the URLs it needs, and a port between 0
  and 65535 behind the last colon of every address it will listen on.\<close>

theorem config_load_safe:
  assumes "load N env readFile yamlUnmarshal path = Inr c"
  shows "listens (strAt [''prometheus'', ''listen''] c) \<and>
    (boolAt [''otlp'', ''grpc'', ''enabled''] c \<longrightarrow>
       listens (strAt [''otlp'', ''grpc'', ''listen''] c) \<and> 0 < intAt [''otlp'', ''grpc'', ''max_recv_msg_size''] c) \<and>
    (boolAt [''otlp'', ''http'', ''enabled''] c \<longrightarrow>
       listens (strAt [''otlp'', ''http'', ''listen''] c) \<and> 0 < intAt [''otlp'', ''http'', ''max_body_size''] c) \<and>
    0 < intAt [''prometheus'', ''read_timeout''] c \<and> 0 < intAt [''prometheus'', ''max_samples''] c \<and>
    strAt [''storage'', ''engine''] c \<in> {''fs'', ''prometheus'', ''victoriametrics''} \<and>
    (strAt [''storage'', ''engine''] c \<noteq> ''fs'' \<longrightarrow>
       strAt [''storage'', strAt [''storage'', ''engine''] c, ''write_url''] c \<noteq> '''' \<and>
       strAt [''storage'', strAt [''storage'', ''engine''] c, ''read_url''] c \<noteq> '''') \<and>
    0 \<le> intAt [''retention'', ''duration''] c \<and> 0 \<le> intAt [''retention'', ''max_size''] c \<and>
    (boolAt [''otlp'', ''logs'', ''enabled''] c \<longrightarrow> boolAt [''logs'', ''enabled''] c) \<and>
    (boolAt [''logs'', ''enabled''] c \<longrightarrow> strAt [''logs'', ''path''] c \<noteq> '''' \<and>
       0 < intAt [''logs'', ''max_events_per_session''] c \<and> 0 \<le> intAt [''logs'', ''retention''] c)"
  by (rule load_safe [OF assms])


theorem config_load_safe_witness:
  "listens (strAt [''prometheus'', ''listen''] newDefaults) \<and> strAt [''storage'', ''engine''] newDefaults = ''fs''"
  using config_load_safe [OF load_without [of plain_num "\<lambda>_. Inl ''''" "\<lambda>_. Inr"]] newDefaults_at by blast

text \<open>With no file and no variable set, the server starts from the defaults: they pass the validation.\<close>

theorem config_defaults: "load N Map.empty readFile yamlUnmarshal '''' = Inr newDefaults"
  by (rule load_without)

text \<open>A number of days, as in \<open>15d\<close>, is that many times 24 hours in nanoseconds as an \<open>int64\<close>: exact up to
  106751 days; beyond that it wraps around without an error, so that \<open>106752d\<close> is negative and \<open>213504d\<close> is
  less than a day.\<close>

theorem config_days:
  assumes "n < 2 ^ 63"
  shows "parseDuration N (fmt_nat n @ ''d'') = Inr (word_of_nat (n * 24 * hour)) \<and>
    (n \<le> 106751 \<longrightarrow> sint (word_of_nat (n * 24 * hour) :: i64) = int n * 24 * int hour) \<and>
    (n = 106752 \<longrightarrow> sint (word_of_nat (n * 24 * hour) :: i64) < 0) \<and>
    (n = 213504 \<longrightarrow> 0 < sint (word_of_nat (n * 24 * hour) :: i64) \<and> sint (word_of_nat (n * 24 * hour) :: i64) < 24 * int hour)"
proof (intro conjI impI)
  show "parseDuration N (fmt_nat n @ ''d'') = Inr (word_of_nat (n * 24 * hour))"
    using assms by (simp add: parseDuration_def atoi_fmt_nat)
qed (rule day_exact | simp add: hour_def minute_def second_def)+

theorem config_days_witness: "parseDuration plain_num ''15d'' = Inr (15 * 24 * word_of_nat hour)"
proof -
  have "fmt_nat 15 = ''15''" by code_simp
  then show ?thesis using config_days [of 15 plain_num] by simp
qed

end
