(* ===== verification/Server.thy ===== *)
theory Server
  imports Config Remote Query FsStore Translator
begin

text \<open>
  \<open>cmd/server/main.go\<close>: which store, limits and addresses the configuration gives, and the life of the
  process as the sequence of what it does with its store and its servers. The flags, the outcome of
  \<open>config.Load\<close>, of opening the store and of listening, and what ends the process are in \<open>run_env\<close>.
\<close>

section \<open>The store of a configuration\<close>

datatype storeChoice =
    ChooseFS string fsConfig
  | ChoosePrometheus remoteConfig
  | ChooseVM remoteConfig
  | ChooseMem int

definition fsStoreConfig :: "field \<Rightarrow> fsConfig" where
  "fsStoreConfig c =
     \<lparr>fcWALSegmentSize = intAt [''storage'', ''fs'', ''wal'', ''segment_size''] c,
      fcFlushAge = intAt [''storage'', ''fs'', ''compaction'', ''min_block_duration''] c,
      fcCompactionPeriod = intAt [''storage'', ''fs'', ''compaction'', ''min_block_duration''] c,
      fcRetentionAge = intAt [''retention'', ''duration''] c,
      fcRetentionMaxSize = intAt [''retention'', ''max_size''] c\<rparr>"

definition remoteStoreConfig :: "string \<Rightarrow> field \<Rightarrow> remoteConfig" where
  "remoteStoreConfig engine c =
     \<lparr>rcWriteURL = strAt [''storage'', engine, ''write_url''] c,
      rcReadURL = strAt [''storage'', engine, ''read_url''] c,
      rcTimeout = intAt [''storage'', engine, ''timeout''] c,
      rcUsername = strAt [''storage'', engine, ''basic_auth'', ''username''] c,
      rcPassword = strAt [''storage'', engine, ''basic_auth'', ''password''] c,
      rcBatchSize = 0, rcMaxRetries = 0\<rparr>"

definition createStore :: "field \<Rightarrow> storeChoice" where
  "createStore c =
     (let engine = strAt [''storage'', ''engine''] c
      in if engine = ''fs'' then ChooseFS (strAt [''storage'', ''fs'', ''path''] c) (fsStoreConfig c)
         else if engine = ''prometheus'' then ChoosePrometheus (newPrometheusRemote (remoteStoreConfig ''prometheus'' c))
         else if engine = ''victoriametrics'' then ChooseVM (newVMRemote (remoteStoreConfig ''victoriametrics'' c))
         else ChooseMem (intAt [''retention'', ''duration''] c))"

text \<open>The configuration of the translator.\<close>

definition translationOf :: "field \<Rightarrow> translationConfig" where
  "translationOf c =
     \<lparr>tcLabelMap = (case fieldAt [''translation'', ''resource_attributes'', ''label_map''] c of Some (FMap m) \<Rightarrow> m | _ \<Rightarrow> []),
      tcPromote = (case fieldAt [''translation'', ''resource_attributes'', ''promote''] c of Some (FList l) \<Rightarrow> l | _ \<Rightarrow> []),
      tcSanitizeMetricNames = boolAt [''translation'', ''sanitize_metric_names''] c,
      tcAddUnitSuffix = boolAt [''translation'', ''add_unit_suffix''] c,
      tcAddTypeSuffix = boolAt [''translation'', ''add_type_suffix''] c,
      tcDeltaConversion = boolAt [''translation'', ''delta_conversion''] c,
      tcSchemaURL = boolAt [''translation'', ''schema_url''] c\<rparr>"

section \<open>The logger\<close>

datatype logLevel = LevelDebug | LevelInfo | LevelWarn | LevelError

datatype logHandler = TextHandler logLevel | JSONHandler logLevel

definition buildLogger :: "field \<Rightarrow> logHandler" where
  "buildLogger c =
     (let l = strAt [''server'', ''log_level''] c;
          level = (if l = ''debug'' then LevelDebug else if l = ''warn'' then LevelWarn else if l = ''error'' then LevelError
                   else LevelInfo)
      in if strAt [''server'', ''log_format''] c = ''text'' then TextHandler level else JSONHandler level)"

section \<open>The servers\<close>

text \<open>The options of the query engine, and of the API in front of it.\<close>

record engineOpts =
  eoMaxSamples :: int
  eoTimeout :: int
  eoLookbackDelta :: int

definition engineOptsOf :: "field \<Rightarrow> engineOpts" where
  "engineOptsOf c =
     \<lparr>eoMaxSamples = intAt [''prometheus'', ''max_samples''] c, eoTimeout = intAt [''prometheus'', ''read_timeout''] c,
      eoLookbackDelta = intAt [''prometheus'', ''lookback_delta''] c\<rparr>"

definition newAPI :: "field \<Rightarrow> buildInfo \<Rightarrow> api" where
  "newAPI c info = \<lparr>apiLookback = word_of_int (intAt [''prometheus'', ''lookback_delta''] c), apiBuildInfo = info\<rparr>"

text \<open>
  What the process does. \<open>Limited\<close> is the limit a server is made with: the size of a message or a body,
  or the read timeout.
\<close>

datatype act =
    Printed string | UseLogger logHandler | UseEngine engineOpts | UseAPI api | OpenStore storeChoice
  | UseTranslation translationConfig
  | Limited string int | Listen string string | Serve string | ReportListen string
  | Stop string | CloseStore

definition listenAndServe :: "(string \<Rightarrow> err) \<Rightarrow> string \<Rightarrow> string \<Rightarrow> act list" where
  "listenAndServe listen name addr =
     [Listen name addr] @ (case listen addr of Some e \<Rightarrow> [ReportListen name] | None \<Rightarrow> [Serve name])"

definition startGRPC :: "(string \<Rightarrow> err) \<Rightarrow> field \<Rightarrow> act list" where
  "startGRPC listen c =
     [Limited ''otlp-grpc'' (intAt [''otlp'', ''grpc'', ''max_recv_msg_size''] c)] @
     listenAndServe listen ''otlp-grpc'' (strAt [''otlp'', ''grpc'', ''listen''] c)"

definition startOTLPHTTP :: "(string \<Rightarrow> err) \<Rightarrow> field \<Rightarrow> act list" where
  "startOTLPHTTP listen c =
     [Limited ''otlp-http'' (intAt [''otlp'', ''http'', ''max_body_size''] c)] @
     listenAndServe listen ''otlp-http'' (strAt [''otlp'', ''http'', ''listen''] c)"

definition startQueryAPI :: "(string \<Rightarrow> err) \<Rightarrow> buildInfo \<Rightarrow> field \<Rightarrow> act list" where
  "startQueryAPI listen info c =
     [UseEngine (engineOptsOf c), UseAPI (newAPI c info), Limited ''query-api'' (intAt [''prometheus'', ''read_timeout''] c)] @
     listenAndServe listen ''query-api'' (strAt [''prometheus'', ''listen''] c)"

text \<open>The outer mux of the query server: a health check, or the API (\<open>None\<close>).\<close>

definition queryMux :: "string \<Rightarrow> (nat \<times> string) option" where
  "queryMux path = (if path = ''/healthz'' then Some (200, ''ok'') else None)"

section \<open>The process\<close>

datatype stopEvent = Signal | ServerError string

record run_env =
  rnShowVersion :: bool
  rnBuild :: buildInfo        \<comment> \<open>\<open>version\<close>, \<open>commit\<close> and \<open>branch\<close>, set when the binary is linked\<close>
  rnLoad :: "string + field"
  rnOpenFS :: "string \<Rightarrow> fsConfig \<Rightarrow> err"     \<comment> \<open>\<open>NewFSStore\<close>\<close>
  rnListen :: "string \<Rightarrow> err"
  rnEvent :: stopEvent        \<comment> \<open>what the final \<open>select\<close> receives\<close>

definition startServers :: "(string \<Rightarrow> err) \<Rightarrow> buildInfo \<Rightarrow> field \<Rightarrow> act list" where
  "startServers listen info c =
     (if boolAt [''otlp'', ''grpc'', ''enabled''] c then startGRPC listen c else []) @
     (if boolAt [''otlp'', ''http'', ''enabled''] c then startOTLPHTTP listen c else []) @
     startQueryAPI listen info c"

text \<open>Only opening the persistent store can fail.\<close>

definition openStore :: "run_env \<Rightarrow> storeChoice \<Rightarrow> err" where
  "openStore E store = (case store of ChooseFS dir cfg \<Rightarrow> rnOpenFS E dir cfg | _ \<Rightarrow> None)"

text \<open>The orderly shutdown; an error of \<open>Shutdown\<close> is only logged.\<close>

definition stopServers :: "field \<Rightarrow> act list" where
  "stopServers c =
     (if boolAt [''otlp'', ''grpc'', ''enabled''] c then [Stop ''otlp-grpc''] else []) @
     (if boolAt [''otlp'', ''http'', ''enabled''] c then [Stop ''otlp-http''] else []) @
     [Stop ''query-api'']"

text \<open>The exit code and the trace. The deferred \<open>Close\<close> of the store runs last.\<close>

definition run :: "run_env \<Rightarrow> nat \<times> act list" where
  "run E =
     (if rnShowVersion E then
        (0, [Printed (''lil-olt-metrics '' @ biVersion (rnBuild E) @ '' (commit='' @ biRevision (rnBuild E) @
               '', branch='' @ biBranch (rnBuild E) @ '')'')])
      else case rnLoad E of
        Inl e \<Rightarrow> (1, [Printed (''error: loading config: '' @ e)])
      | Inr c \<Rightarrow>
          (case openStore E (createStore c) of
             Some e \<Rightarrow> (1, [UseLogger (buildLogger c)])
           | None \<Rightarrow>
               let started = [UseLogger (buildLogger c), OpenStore (createStore c), UseTranslation (translationOf c)] @
                     startServers (rnListen E) (rnBuild E) c
               in case rnEvent E of
                    ServerError e \<Rightarrow> (1, started @ [CloseStore])
                  | Signal \<Rightarrow> (0, started @ stopServers c @ [CloseStore])))"

section \<open>Facts about the trace\<close>

lemmas start_defs = startServers_def startGRPC_def startOTLPHTTP_def startQueryAPI_def listenAndServe_def

lemma start_no_stop: "Stop name \<notin> set (startServers listen info c)" "CloseStore \<notin> set (startServers listen info c)"
  by (auto simp: start_defs split: option.splits)

lemma start_stop: "Serve name \<in> set (startServers listen info c) \<Longrightarrow> Stop name \<in> set (stopServers c)"
  by (auto simp: start_defs stopServers_def split: option.splits if_splits)

lemma start_limited:
  "Limited name n \<in> set (startServers listen info c) \<Longrightarrow>
   (boolAt [''otlp'', ''grpc'', ''enabled''] c \<and> n = intAt [''otlp'', ''grpc'', ''max_recv_msg_size''] c) \<or>
   (boolAt [''otlp'', ''http'', ''enabled''] c \<and> n = intAt [''otlp'', ''http'', ''max_body_size''] c) \<or>
   n = intAt [''prometheus'', ''read_timeout''] c"
  by (auto simp: start_defs split: option.splits if_splits)

lemma start_listen:
  "Listen name addr \<in> set (startServers listen info c) \<Longrightarrow>
   (boolAt [''otlp'', ''grpc'', ''enabled''] c \<and> addr = strAt [''otlp'', ''grpc'', ''listen''] c) \<or>
   (boolAt [''otlp'', ''http'', ''enabled''] c \<and> addr = strAt [''otlp'', ''http'', ''listen''] c) \<or>
   addr = strAt [''prometheus'', ''listen''] c"
  by (auto simp: start_defs split: option.splits if_splits)

lemma run_cases:
  assumes "run E = (code, acts)"
  obtains (nothing) "set acts \<subseteq> range Printed \<union> range UseLogger"
  | (served) c where "rnLoad E = Inr c" "openStore E (createStore c) = None"
      "(code, acts) = (case rnEvent E of
         ServerError e \<Rightarrow> (1, UseLogger (buildLogger c) # OpenStore (createStore c) # (UseTranslation (translationOf c) # startServers (rnListen E) (rnBuild E) c) @ [CloseStore])
       | Signal \<Rightarrow> (0, UseLogger (buildLogger c) # OpenStore (createStore c) # (UseTranslation (translationOf c) # startServers (rnListen E) (rnBuild E) c @ stopServers c) @ [CloseStore]))"
  using assms by (auto simp: run_def Let_def split: if_splits sum.splits option.splits stopEvent.splits)

text \<open>The constructors of the remote stores fill in the fields that are 0.\<close>

lemma newRemote_positive:
  "0 < rcBatchSize (newPrometheusRemote cfg)" "0 < rcMaxRetries (newPrometheusRemote cfg)"
  "rcWriteURL (newPrometheusRemote cfg) = rcWriteURL cfg" "rcReadURL (newPrometheusRemote cfg) = rcReadURL cfg"
  "0 < rcBatchSize (newVMRemote cfg)" "0 < rcMaxRetries (newVMRemote cfg)"
  "rcWriteURL (newVMRemote cfg) = rcWriteURL cfg" "rcReadURL (newVMRemote cfg) = rcReadURL cfg"
  by (simp_all add: newPrometheusRemote_def newVMRemote_def Let_def)

lemma createStore_safe:
  assumes "strAt [''storage'', ''engine''] c \<in> {''fs'', ''prometheus'', ''victoriametrics''}"
    and "strAt [''storage'', ''engine''] c \<noteq> ''fs'' \<longrightarrow>
       strAt [''storage'', strAt [''storage'', ''engine''] c, ''write_url''] c \<noteq> '''' \<and>
       strAt [''storage'', strAt [''storage'', ''engine''] c, ''read_url''] c \<noteq> ''''"
    and "0 \<le> intAt [''retention'', ''duration''] c" and "0 \<le> intAt [''retention'', ''max_size''] c"
  shows "case createStore c of
       ChooseFS dir cfg \<Rightarrow> 0 \<le> fcRetentionAge cfg \<and> 0 \<le> fcRetentionMaxSize cfg
     | ChoosePrometheus cfg \<Rightarrow> rcWriteURL cfg \<noteq> '''' \<and> 0 < rcBatchSize cfg \<and> 0 < rcMaxRetries cfg
     | ChooseVM cfg \<Rightarrow> rcWriteURL cfg \<noteq> '''' \<and> rcReadURL cfg \<noteq> '''' \<and> 0 < rcBatchSize cfg \<and> 0 < rcMaxRetries cfg
     | ChooseMem d \<Rightarrow> False"
  using assms(1)
proof (elim insertE)
  assume "strAt [''storage'', ''engine''] c = ''fs''"
  then show ?thesis using assms(3,4) by (simp add: createStore_def fsStoreConfig_def Let_def)
next
  assume "strAt [''storage'', ''engine''] c = ''prometheus''"
  then show ?thesis using assms(2) by (simp add: createStore_def newRemote_positive remoteStoreConfig_def Let_def)
next
  assume "strAt [''storage'', ''engine''] c = ''victoriametrics''"
  then show ?thesis using assms(2) by (simp add: createStore_def newRemote_positive remoteStoreConfig_def Let_def)
qed simp

section \<open>Settings without effect\<close>

fun setAt :: "string list \<Rightarrow> field \<Rightarrow> field \<Rightarrow> field" where
  "setAt [] v f = v"
| "setAt (t # ts) v f =
     (case f of FStruct fs \<Rightarrow> FStruct (map (\<lambda>(k, g). (k, if k = t then setAt ts v g else g)) fs) | _ \<Rightarrow> f)"

text \<open>Two paths of which neither leads through the other.\<close>

fun diverge :: "string list \<Rightarrow> string list \<Rightarrow> bool" where
  "diverge (a # p) (b # q) \<longleftrightarrow> a \<noteq> b \<or> diverge p q"
| "diverge _ _ \<longleftrightarrow> False"

lemma fieldAt_setAt: "diverge p q \<Longrightarrow> fieldAt q (setAt p v c) = fieldAt q c"
proof (induction p q arbitrary: c rule: diverge.induct)
  case (1 a p b q)
  have "map_of (map (\<lambda>(k, g). (k, if k = a then setAt p v g else g)) fs) b =
      map_option (\<lambda>g. if b = a then setAt p v g else g) (map_of fs b)" for fs
    by (induction fs) auto
  with 1 show ?case by (auto split: field.split option.split)
qed simp_all

text \<open>The settings that the process reads.\<close>

definition usedSettings :: "string list list" where
  "usedSettings =
     [[''server'', ''log_level''], [''server'', ''log_format''],
      [''otlp'', ''grpc'', ''enabled''], [''otlp'', ''grpc'', ''listen''], [''otlp'', ''grpc'', ''max_recv_msg_size''],
      [''otlp'', ''http'', ''enabled''], [''otlp'', ''http'', ''listen''], [''otlp'', ''http'', ''max_body_size''],
      [''prometheus'', ''listen''], [''prometheus'', ''read_timeout''], [''prometheus'', ''max_samples''], [''prometheus'', ''lookback_delta''],
      [''storage'', ''engine''], [''storage'', ''fs'', ''path''], [''storage'', ''fs'', ''wal'', ''segment_size''],
      [''storage'', ''fs'', ''compaction'', ''min_block_duration''],
      [''storage'', ''prometheus'', ''write_url''], [''storage'', ''prometheus'', ''read_url''], [''storage'', ''prometheus'', ''timeout''],
      [''storage'', ''prometheus'', ''basic_auth'', ''username''], [''storage'', ''prometheus'', ''basic_auth'', ''password''],
      [''storage'', ''victoriametrics'', ''write_url''], [''storage'', ''victoriametrics'', ''read_url''],
      [''storage'', ''victoriametrics'', ''timeout''],
      [''storage'', ''victoriametrics'', ''basic_auth'', ''username''], [''storage'', ''victoriametrics'', ''basic_auth'', ''password''],
      [''retention'', ''duration''], [''retention'', ''max_size''],
      [''translation'', ''resource_attributes'', ''label_map''], [''translation'', ''resource_attributes'', ''promote''],
      [''translation'', ''sanitize_metric_names''], [''translation'', ''add_unit_suffix''], [''translation'', ''add_type_suffix''],
      [''translation'', ''delta_conversion''], [''translation'', ''schema_url'']]"

lemma openStore_load: "openStore (E\<lparr>rnLoad := x\<rparr>) = openStore E"
  by (simp add: fun_eq_iff openStore_def split: storeChoice.split)

lemma run_used:
  assumes "\<forall>q \<in> set usedSettings. fieldAt q c' = fieldAt q c"
  shows "run (E\<lparr>rnLoad := Inr c'\<rparr>) = run (E\<lparr>rnLoad := Inr c\<rparr>)"
proof -
  note eq = assms [unfolded usedSettings_def list.set ball_simps]
  have "createStore c' = createStore c"
    using eq by (simp only: createStore_def fsStoreConfig_def remoteStoreConfig_def strAt_def intAt_def)
  moreover have "translationOf c' = translationOf c" using eq by (simp only: translationOf_def boolAt_def)
  moreover have "buildLogger c' = buildLogger c" using eq by (simp only: buildLogger_def strAt_def)
  moreover have "startServers listen info c' = startServers listen info c" for listen info
    using eq by (simp only: start_defs engineOptsOf_def newAPI_def strAt_def intAt_def boolAt_def)
  moreover have "stopServers c' = stopServers c" using eq by (simp only: stopServers_def boolAt_def)
  ultimately show ?thesis by (simp add: run_def openStore_load Let_def split: option.split stopEvent.split)
qed

text \<open>The settings documented for storage, TLS, compression, range queries and logs that have no effect.\<close>

definition deadSettings :: "string list list" where
  "deadSettings =
     [[''storage'', ''fs'', ''wal'', ''enabled''], [''storage'', ''fs'', ''compaction'', ''enabled''],
      [''storage'', ''fs'', ''compaction'', ''max_block_duration''], [''storage'', ''prometheus'', ''tls''],
      [''otlp'', ''grpc'', ''gzip''], [''otlp'', ''http'', ''gzip''], [''otlp'', ''logs''],
      [''prometheus'', ''default_step''], [''prometheus'', ''max_points_per_series''], [''logs'']]"

lemma dead_diverge: "\<forall>p \<in> set deadSettings. \<forall>q \<in> set usedSettings. diverge p q"
  by code_simp

section \<open>Properties\<close>

text \<open>The life of the process. Whenever a server serves, the store was opened first and is
  closed as the very last step, once. On a signal every server that serves is stopped before that, and
  the exit code is 0. After a server error the exit code is 1, and the store is closed under the servers
  that still serve: none of them is stopped.\<close>

theorem server_lifecycle:
  assumes "run E = (code, acts)" and "Serve name \<in> set acts"
  shows "\<exists>c inner. rnLoad E = Inr c \<and> acts = UseLogger (buildLogger c) # OpenStore (createStore c) # inner @ [CloseStore] \<and> CloseStore \<notin> set inner \<and>
    (rnEvent E = Signal \<longrightarrow> code = 0 \<and> (\<exists>before after. inner = before @ after \<and> Serve name \<in> set before \<and> Stop name \<in> set after)) \<and>
    (\<forall>e. rnEvent E = ServerError e \<longrightarrow> code = 1 \<and> (\<forall>n. Stop n \<notin> set inner))"
  using assms(1)
proof (cases rule: run_cases)
  case nothing
  with assms(2) show ?thesis by auto
next
  case (served c)
  let ?before = "UseTranslation (translationOf c) # startServers (rnListen E) (rnBuild E) c"
  have close: "CloseStore \<notin> set (stopServers c)" "Serve name \<notin> set (stopServers c)"
    by (simp_all add: stopServers_def)
  show ?thesis
  proof (cases "rnEvent E")
    case Signal
    with served assms(2) close have "Serve name \<in> set ?before" by auto
    moreover from this have "Stop name \<in> set (stopServers c)" using start_stop by simp
    moreover have "acts = UseLogger (buildLogger c) # OpenStore (createStore c) # (?before @ stopServers c) @ [CloseStore]" "code = 0"
      using served(3) Signal by simp_all
    moreover have "CloseStore \<notin> set (?before @ stopServers c)" using close start_no_stop by simp
    ultimately show ?thesis using served(1) Signal
      by (intro exI [of _ c] exI [of _ "?before @ stopServers c"] conjI impI exI [of _ ?before] exI [of _ "stopServers c"]) simp_all
  next
    case (ServerError e)
    then have "acts = UseLogger (buildLogger c) # OpenStore (createStore c) # ?before @ [CloseStore]" "code = 1"
      using served(3) by simp_all
    moreover have "CloseStore \<notin> set ?before" "Stop n \<notin> set ?before" for n using start_no_stop by simp_all
    ultimately show ?thesis using served(1) ServerError
      by (intro exI [of _ c] exI [of _ ?before]) simp
  qed
qed

text \<open>C24: What the server runs with. Started from a configuration that \<open>Load\<close> accepts, it listens only on
  addresses with a port between 0 and 65535 and every limit it sets is positive. The store it opens is
  never the volatile in-memory one, and a remote store has the URL it writes to.\<close>

theorem server_config:
  assumes "rnLoad E = load N env readFile yamlUnmarshal path" and "run E = (code, acts)"
  shows "(\<forall>name addr. Listen name addr \<in> set acts \<longrightarrow> listens addr) \<and>
    (\<forall>name n. Limited name n \<in> set acts \<longrightarrow> 0 < n) \<and>
    (\<forall>store. OpenStore store \<in> set acts \<longrightarrow> (case store of
       ChooseFS dir cfg \<Rightarrow> 0 \<le> fcRetentionAge cfg \<and> 0 \<le> fcRetentionMaxSize cfg
     | ChoosePrometheus cfg \<Rightarrow> rcWriteURL cfg \<noteq> '''' \<and> 0 < rcBatchSize cfg \<and> 0 < rcMaxRetries cfg
     | ChooseVM cfg \<Rightarrow> rcWriteURL cfg \<noteq> '''' \<and> rcReadURL cfg \<noteq> '''' \<and> 0 < rcBatchSize cfg \<and> 0 < rcMaxRetries cfg
     | ChooseMem d \<Rightarrow> False))"
  using assms(2)
proof (cases rule: run_cases)
  case nothing
  then show ?thesis by auto
next
  case (served c)
  let ?servers = "startServers (rnListen E) (rnBuild E) c"
  note safe = load_safe [OF assms(1) [symmetric, unfolded served(1)]]
  have acts: "set acts \<subseteq> {UseLogger (buildLogger c), OpenStore (createStore c), UseTranslation (translationOf c), CloseStore} \<union>
      set ?servers \<union> range Stop"
    using served(3) by (auto simp: stopServers_def split: stopEvent.splits if_splits)
  have "listens addr" if "Listen name addr \<in> set acts" for name addr
  proof -
    have "Listen name addr \<in> set ?servers" using that acts by auto
    from start_listen [OF this] safe show ?thesis by blast
  qed
  moreover have "0 < n" if "Limited name n \<in> set acts" for name n
  proof -
    have "Limited name n \<in> set ?servers" using that acts by auto
    from start_limited [OF this] safe show ?thesis by blast
  qed
  moreover have "OpenStore store \<in> set acts \<Longrightarrow> store = createStore c" for store
    using acts by (auto simp: start_defs split: option.splits if_splits)
  moreover have "case createStore c of
       ChooseFS dir cfg \<Rightarrow> 0 \<le> fcRetentionAge cfg \<and> 0 \<le> fcRetentionMaxSize cfg
     | ChoosePrometheus cfg \<Rightarrow> rcWriteURL cfg \<noteq> '''' \<and> 0 < rcBatchSize cfg \<and> 0 < rcMaxRetries cfg
     | ChooseVM cfg \<Rightarrow> rcWriteURL cfg \<noteq> '''' \<and> rcReadURL cfg \<noteq> '''' \<and> 0 < rcBatchSize cfg \<and> 0 < rcMaxRetries cfg
     | ChooseMem d \<Rightarrow> False"
    using createStore_safe safe by simp
  ultimately show ?thesis by blast
qed

text \<open>Settings without effect. Whatever is set for the use of the log and of compaction, the largest block,
  TLS, compression, the default step, the points per series and the logs receiver, the process does the
  same.\<close>

theorem server_dead_settings:
  assumes "p \<in> set deadSettings"
  shows "run (E\<lparr>rnLoad := Inr (setAt p v c)\<rparr>) = run (E\<lparr>rnLoad := Inr c\<rparr>)"
  using assms dead_diverge by (intro run_used) (simp add: fieldAt_setAt)

section \<open>Witnesses\<close>

definition demo_run :: run_env where
  "demo_run =
     \<lparr>rnShowVersion = False, rnBuild = \<lparr>biVersion = ''dev'', biRevision = ''unknown'', biBranch = ''unknown''\<rparr>,
      rnLoad = Inr newDefaults, rnOpenFS = \<lambda>_ _. None, rnListen = \<lambda>_. None, rnEvent = Signal\<rparr>"

lemma demo_run_serves: "Serve ''query-api'' \<in> set (snd (run demo_run))"
  by (simp add: run_def demo_run_def start_defs openStore_def split: storeChoice.split)

theorem server_lifecycle_witness:
  "\<exists>inner. run demo_run = (0, UseLogger (buildLogger newDefaults) # OpenStore (createStore newDefaults) # inner @ [CloseStore]) \<and>
    Stop ''query-api'' \<in> set inner"
  using server_lifecycle [OF prod.collapse [symmetric] demo_run_serves] by (auto simp: demo_run_def prod_eq_iff)

theorem server_config_witness: "{n. \<exists>name. Limited name n \<in> set (snd (run demo_run))} \<subseteq> {0 <..}"
proof -
  have "rnLoad demo_run = load plain_num Map.empty (\<lambda>_. Inl '''') (\<lambda>_. Inr) ''''"
    by (simp add: demo_run_def load_without)
  from server_config [OF this prod.collapse [symmetric]] show ?thesis by blast
qed

theorem server_dead_settings_witness:
  "run (demo_run\<lparr>rnLoad := Inr (setAt [''storage'', ''fs'', ''wal'', ''enabled''] (FBool False) newDefaults)\<rparr>) = run demo_run"
  using server_dead_settings [where p = "[''storage'', ''fs'', ''wal'', ''enabled'']" and E = demo_run and v = "FBool False" and c = newDefaults]
  by (simp add: deadSettings_def demo_run_def)

end
