(* ===== verification/ServerProc.thy ===== *)
theory ServerProc
  imports Server "HOL-Library.Sublist"
begin

text \<open>
  The process of \<open>cmd/server/main.go\<close> as its goroutines run: the main function, one goroutine per server,
  which reports at most one error on the channel \<open>errCh\<close> of capacity 3, the handlers of gRPC calls, and the
  signal. The function \<open>run\<close> of theory \<open>Server\<close> is what this step relation is shown to refine.
\<close>

section \<open>The state\<close>

datatype srvPhase =
    Absent                \<comment> \<open>not started, or disabled\<close>
  | Serving
  | Reporting string      \<comment> \<open>its goroutine is about to send this error\<close>
  | Gone

text \<open>Where the main function is: starting the servers left, in the \<open>select\<close>, shutting down the servers
  left, returning (the deferred \<open>Close\<close> is still to run), or gone.\<close>

datatype mainPhase =
    Starting "(string \<times> string \<times> act list) list" | Selecting | Stopping "string list" | Returning nat | Exited nat

record proc =
  pcMain :: mainPhase
  pcServers :: "string \<Rightarrow> srvPhase"
  pcErrCh :: "string list"
  pcSignal :: bool
  pcCalls :: nat          \<comment> \<open>gRPC calls that are being handled\<close>
  pcTrace :: "act list"
  pcReported :: "string list"   \<comment> \<open>records the errors that were sent, in order\<close>

text \<open>The servers to start: name, address, and what starting each does.\<close>

definition serverStarts :: "(string \<Rightarrow> err) \<Rightarrow> buildInfo \<Rightarrow> field \<Rightarrow> (string \<times> string \<times> act list) list" where
  "serverStarts listen info c =
     (if boolAt [''otlp'', ''grpc'', ''enabled''] c
      then [(''otlp-grpc'', strAt [''otlp'', ''grpc'', ''listen''] c, startGRPC listen c)] else []) @
     (if boolAt [''otlp'', ''http'', ''enabled''] c
      then [(''otlp-http'', strAt [''otlp'', ''http'', ''listen''] c, startOTLPHTTP listen c)] else []) @
     [(''query-api'', strAt [''prometheus'', ''listen''] c, startQueryAPI listen info c)]"

text \<open>The prefix of the errors a server reports.\<close>

definition errorPrefix :: "string \<Rightarrow> string" where
  "errorPrefix name =
     (if name = ''otlp-grpc'' then ''gRPC'' else if name = ''otlp-http'' then ''OTLP HTTP'' else ''query API'')"

definition errChCapacity :: nat where "errChCapacity = 3"

definition proc_init :: "run_env \<Rightarrow> field \<Rightarrow> proc" where
  "proc_init E c =
     \<lparr>pcMain = Starting (serverStarts (rnListen E) (rnBuild E) c), pcServers = (\<lambda>_. Absent), pcErrCh = [],
      pcSignal = False, pcCalls = 0,
      pcTrace = [UseLogger (buildLogger c), OpenStore (createStore c), UseTranslation (translationOf c)],
      pcReported = []\<rparr>"

section \<open>The steps\<close>

text \<open>
  \<open>Serve\<close> returns an error of its own only while the server serves; after \<open>GracefulStop\<close> and \<open>Shutdown\<close> its
  error is not reported. \<open>GracefulStop\<close> waits for the calls under way and has no time limit; \<open>Shutdown\<close> has
  one, its error is only logged.
\<close>

inductive proc_step :: "run_env \<Rightarrow> field \<Rightarrow> proc \<Rightarrow> proc \<Rightarrow> bool" for E c where
  ps_start: "pcMain p = Starting ((name, addr, acts) # rest) \<Longrightarrow>
    proc_step E c p (p\<lparr>pcMain := Starting rest, pcTrace := pcTrace p @ acts,
      pcServers := (pcServers p)(name :=
        (case rnListen E addr of None \<Rightarrow> Serving | Some e \<Rightarrow> Reporting (errorPrefix name @ '' listen: '' @ e)))\<rparr>)"
| ps_started: "pcMain p = Starting [] \<Longrightarrow> proc_step E c p (p\<lparr>pcMain := Selecting\<rparr>)"
| ps_signalled: "pcMain p = Selecting \<Longrightarrow> pcSignal p \<Longrightarrow>
    proc_step E c p (p\<lparr>pcMain := Stopping (map fst (serverStarts (rnListen E) (rnBuild E) c))\<rparr>)"
| ps_received: "pcMain p = Selecting \<Longrightarrow> pcErrCh p = e # es \<Longrightarrow>
    proc_step E c p (p\<lparr>pcMain := Returning 1, pcErrCh := es\<rparr>)"
| ps_stop: "pcMain p = Stopping (name # rest) \<Longrightarrow> name = ''otlp-grpc'' \<longrightarrow> pcCalls p = 0 \<Longrightarrow>
    proc_step E c p (p\<lparr>pcMain := Stopping rest, pcTrace := pcTrace p @ [Stop name],
      pcServers := (if pcServers p name = Serving then (pcServers p)(name := Gone) else pcServers p)\<rparr>)"
| ps_stopped: "pcMain p = Stopping [] \<Longrightarrow> proc_step E c p (p\<lparr>pcMain := Returning 0\<rparr>)"
| ps_close: "pcMain p = Returning code \<Longrightarrow>
    proc_step E c p (p\<lparr>pcMain := Exited code, pcTrace := pcTrace p @ [CloseStore]\<rparr>)"
| ps_serve_error: "\<forall>code. pcMain p \<noteq> Exited code \<Longrightarrow> pcServers p name = Serving \<Longrightarrow>
    proc_step E c p (p\<lparr>pcServers := (pcServers p)(name := Reporting (errorPrefix name @ '' serve: '' @ e))\<rparr>)"
| ps_send: "\<forall>code. pcMain p \<noteq> Exited code \<Longrightarrow> pcServers p name = Reporting e \<Longrightarrow> length (pcErrCh p) < errChCapacity \<Longrightarrow>
    proc_step E c p (p\<lparr>pcErrCh := pcErrCh p @ [e], pcReported := pcReported p @ [e],
      pcServers := (pcServers p)(name := Gone)\<rparr>)"
| ps_signal: "\<forall>code. pcMain p \<noteq> Exited code \<Longrightarrow> proc_step E c p (p\<lparr>pcSignal := True\<rparr>)"
| ps_call: "\<forall>code. pcMain p \<noteq> Exited code \<Longrightarrow> pcServers p ''otlp-grpc'' = Serving \<Longrightarrow>
    \<forall>rest. pcMain p \<noteq> Stopping (''otlp-grpc'' # rest) \<Longrightarrow> proc_step E c p (p\<lparr>pcCalls := pcCalls p + 1\<rparr>)"
| ps_called: "\<forall>code. pcMain p \<noteq> Exited code \<Longrightarrow> pcCalls p = Suc n \<Longrightarrow> proc_step E c p (p\<lparr>pcCalls := n\<rparr>)"

inductive proc_run :: "run_env \<Rightarrow> field \<Rightarrow> proc \<Rightarrow> bool" for E c where
  pr_init: "proc_run E c (proc_init E c)"
| pr_step: "proc_run E c p \<Longrightarrow> proc_step E c p p' \<Longrightarrow> proc_run E c p'"

section \<open>The servers started\<close>

lemma startServers_starts: "startServers listen info c = concat (map (\<lambda>(name, addr, acts). acts) (serverStarts listen info c))"
  by (simp add: startServers_def serverStarts_def)

lemma stopServers_starts: "stopServers c = map Stop (map fst (serverStarts listen info c))"
  by (simp add: stopServers_def serverStarts_def)

lemma starts_names:
  "distinct (map fst (serverStarts listen info c))" "length (serverStarts listen info c) \<le> errChCapacity"
  "set (map fst (serverStarts listen info c)) \<subseteq> {''otlp-grpc'', ''otlp-http'', ''query-api''}"
  by (auto simp: serverStarts_def errChCapacity_def)

text \<open>An error that a server of this configuration can report.\<close>

definition server_error :: "run_env \<Rightarrow> field \<Rightarrow> string \<Rightarrow> bool" where
  "server_error E c e \<longleftrightarrow> (\<exists>(name, addr, acts) \<in> set (serverStarts (rnListen E) (rnBuild E) c). \<exists>m.
     e = errorPrefix name @ '' serve: '' @ m \<or> rnListen E addr = Some m \<and> e = errorPrefix name @ '' listen: '' @ m)"

section \<open>The channel\<close>

fun may_report :: "srvPhase \<Rightarrow> bool" where
  "may_report Serving = True"
| "may_report (Reporting e) = True"
| "may_report _ = False"

fun starts_left :: "mainPhase \<Rightarrow> (string \<times> string \<times> act list) list" where
  "starts_left (Starting rest) = rest"
| "starts_left _ = []"

text \<open>How many more errors can be in the channel: one for each server that has not reported.\<close>

definition reports :: "run_env \<Rightarrow> field \<Rightarrow> (string \<Rightarrow> srvPhase) \<Rightarrow> nat" where
  "reports E c S = length (filter (\<lambda>name. may_report (S name)) (map fst (serverStarts (rnListen E) (rnBuild E) c)))"

definition channel_inv :: "run_env \<Rightarrow> field \<Rightarrow> proc \<Rightarrow> bool" where
  "channel_inv E c p \<longleftrightarrow>
     suffix (starts_left (pcMain p)) (serverStarts (rnListen E) (rnBuild E) c) \<and>
     (\<forall>name \<in> set (map fst (starts_left (pcMain p))). pcServers p name = Absent) \<and>
     (\<forall>name. name \<notin> set (map fst (serverStarts (rnListen E) (rnBuild E) c)) \<longrightarrow> pcServers p name = Absent) \<and>
     length (pcErrCh p) + reports E c (pcServers p) + length (starts_left (pcMain p)) \<le> errChCapacity \<and>
     set (pcErrCh p) \<subseteq> set (pcReported p) \<and> (\<forall>e \<in> set (pcReported p). server_error E c e) \<and>
     (\<forall>name e. pcServers p name = Reporting e \<longrightarrow> server_error E c e)"

lemma length_filter_upd:
  assumes "distinct xs" and "x \<in> set xs"
  shows "length (filter (\<lambda>y. P ((f(x := v)) y)) xs) + of_bool (P (f x)) = length (filter (\<lambda>y. P (f y)) xs) + of_bool (P v)"
  using assms
proof (induction xs)
  case (Cons y xs)
  show ?case
  proof (cases "y = x")
    case True
    then have "filter (\<lambda>y. P ((f(x := v)) y)) xs = filter (\<lambda>y. P (f y)) xs"
      using Cons.prems(1) by (intro filter_cong) auto
    with True show ?thesis by simp
  qed (use Cons in simp)
qed simp

lemma reports_upd:
  assumes "name \<in> set (map fst (serverStarts (rnListen E) (rnBuild E) c))"
  shows "reports E c (S(name := v)) + of_bool (may_report (S name)) = reports E c S + of_bool (may_report v)"
  unfolding reports_def by (rule length_filter_upd [OF starts_names(1) assms])

lemma channel_inv_step:
  assumes "channel_inv E c p" and "proc_step E c p p'"
  shows "channel_inv E c p'"
  using assms(2)
proof (cases rule: proc_step.cases)
  case (ps_start name addr acts rest)
  let ?starts = "serverStarts (rnListen E) (rnBuild E) c"
  note left = ps_start(2)
  obtain before where starts: "?starts = before @ (name, addr, acts) # rest"
    using assms(1) left by (auto simp: channel_inv_def suffix_def)
  then have mem: "name \<in> set (map fst ?starts)" "(name, addr, acts) \<in> set ?starts" by (simp_all)
  have fresh: "name \<notin> set (map fst rest)" using starts_names(1) [of "rnListen E" "rnBuild E" c] starts by simp
  have absent: "pcServers p name = Absent" using assms(1) left by (simp add: channel_inv_def)
  let ?new = "case rnListen E addr of None \<Rightarrow> Serving | Some e \<Rightarrow> Reporting (errorPrefix name @ '' listen: '' @ e)"
  have "may_report ?new" by (simp split: option.split)
  then have "reports E c ((pcServers p)(name := ?new)) = reports E c (pcServers p) + 1"
    using reports_upd [OF mem(1), of "pcServers p" ?new] absent by simp
  moreover have "server_error E c e" if "?new = Reporting e" for e
    using that mem(2) by (force simp: server_error_def split: option.splits)
  ultimately show ?thesis
    using assms(1) left starts fresh mem(1) unfolding ps_start(1) channel_inv_def
    by (auto simp: suffix_def)
next
  case (ps_stop name rest)
  show ?thesis
  proof (cases "pcServers p name = Serving")
    case True
    then have "name \<in> set (map fst (serverStarts (rnListen E) (rnBuild E) c))"
      using assms(1) by (metis channel_inv_def srvPhase.distinct(1))
    from reports_upd [OF this, of "pcServers p" Gone] True ps_stop assms(1) this show ?thesis
      by (auto simp: channel_inv_def)
  qed (use ps_stop assms(1) in \<open>auto simp: channel_inv_def\<close>)
next
  case (ps_serve_error name e)
  then have mem: "name \<in> set (map fst (serverStarts (rnListen E) (rnBuild E) c))"
    using assms(1) by (metis channel_inv_def srvPhase.distinct(1))
  then have "server_error E c (errorPrefix name @ '' serve: '' @ e)" by (force simp: server_error_def)
  with reports_upd [OF mem, of "pcServers p" "Reporting (errorPrefix name @ '' serve: '' @ e)"] ps_serve_error assms(1) mem
  show ?thesis by (auto simp: channel_inv_def)
next
  case (ps_send name e)
  then have mem: "name \<in> set (map fst (serverStarts (rnListen E) (rnBuild E) c))"
    using assms(1) by (metis channel_inv_def srvPhase.distinct(3))
  from reports_upd [OF mem, of "pcServers p" Gone] ps_send assms(1) mem
  show ?thesis by (auto simp: channel_inv_def)
qed (use assms(1) in \<open>auto simp: channel_inv_def\<close>)

lemma channel_inv_init: "channel_inv E c (proc_init E c)"
proof -
  have "reports E c (\<lambda>_. Absent) = 0" by (simp add: reports_def)
  then show ?thesis using starts_names(2) [of "rnListen E" "rnBuild E" c] by (simp add: channel_inv_def proc_init_def)
qed

lemma proc_run_channel: "proc_run E c p \<Longrightarrow> channel_inv E c p"
  by (induction rule: proc_run.induct) (auto intro: channel_inv_init channel_inv_step)

section \<open>The trace\<close>

abbreviation (input) opened :: "field \<Rightarrow> act list" where
  "opened c \<equiv> [UseLogger (buildLogger c), OpenStore (createStore c), UseTranslation (translationOf c)]"

definition start_acts :: "(string \<times> string \<times> act list) list \<Rightarrow> act list" where
  "start_acts starts = concat (map (\<lambda>(name, addr, acts). acts) starts)"

text \<open>How the process ended: the event that the \<open>select\<close> received.\<close>

definition ended :: "run_env \<Rightarrow> field \<Rightarrow> proc \<Rightarrow> nat \<Rightarrow> act list \<Rightarrow> bool" where
  "ended E c p code tr \<longleftrightarrow>
     code = 0 \<and> pcSignal p \<and> tr = opened c @ startServers (rnListen E) (rnBuild E) c @ stopServers c \<or>
     code = 1 \<and> (\<exists>e. e \<in> set (pcReported p)) \<and> tr = opened c @ startServers (rnListen E) (rnBuild E) c"

definition trace_inv :: "run_env \<Rightarrow> field \<Rightarrow> proc \<Rightarrow> bool" where
  "trace_inv E c p \<longleftrightarrow>
     (let starts = serverStarts (rnListen E) (rnBuild E) c
      in case pcMain p of
           Starting rest \<Rightarrow> \<exists>before. starts = before @ rest \<and> pcTrace p = opened c @ start_acts before
         | Selecting \<Rightarrow> pcTrace p = opened c @ start_acts starts
         | Stopping rest \<Rightarrow> pcSignal p \<and>
             (\<exists>before. map fst starts = before @ rest \<and> pcTrace p = opened c @ start_acts starts @ map Stop before)
         | Returning code \<Rightarrow> ended E c p code (pcTrace p)
         | Exited code \<Rightarrow> \<exists>tr. pcTrace p = tr @ [CloseStore] \<and> ended E c p code tr)"

lemma start_acts_all: "start_acts (serverStarts listen info c) = startServers listen info c"
  by (simp add: start_acts_def startServers_starts)

lemma trace_inv_step:
  assumes "trace_inv E c p" and "channel_inv E c p" and "proc_step E c p p'"
  shows "trace_inv E c p'"
  using assms(3)
proof (cases rule: proc_step.cases)
  case (ps_start name addr acts rest)
  then obtain before where "serverStarts (rnListen E) (rnBuild E) c = before @ (name, addr, acts) # rest"
    "pcTrace p = opened c @ start_acts before" using assms(1) by (auto simp: trace_inv_def Let_def)
  with ps_start show ?thesis
    by (auto simp: trace_inv_def Let_def start_acts_def intro!: exI [of _ "before @ [(name, addr, acts)]"])
next
  case ps_signalled
  with assms(1) show ?thesis by (simp add: trace_inv_def Let_def)
next
  case (ps_received e es)
  then have "e \<in> set (pcReported p)" using assms(2) by (simp add: channel_inv_def)
  with ps_received assms(1) show ?thesis by (auto simp: trace_inv_def Let_def ended_def start_acts_all)
next
  case (ps_stop name rest)
  then obtain before where "map fst (serverStarts (rnListen E) (rnBuild E) c) = before @ name # rest"
    "pcSignal p" "pcTrace p = opened c @ start_acts (serverStarts (rnListen E) (rnBuild E) c) @ map Stop before"
    using assms(1) by (auto simp: trace_inv_def Let_def)
  with ps_stop show ?thesis by (auto simp: trace_inv_def Let_def intro!: exI [of _ "before @ [name]"])
next
  case ps_stopped
  with assms(1) show ?thesis
    by (simp add: trace_inv_def Let_def ended_def start_acts_all stopServers_starts [of c "rnListen E" "rnBuild E"])
next
  case (ps_close code)
  with assms(1) show ?thesis by (simp add: trace_inv_def Let_def ended_def)
qed (use assms(1) in \<open>auto simp: trace_inv_def ended_def Let_def split: mainPhase.splits\<close>)

lemma proc_run_trace: "proc_run E c p \<Longrightarrow> trace_inv E c p"
proof (induction rule: proc_run.induct)
  case pr_init
  show ?case by (simp add: trace_inv_def Let_def proc_init_def start_acts_def)
next
  case (pr_step p p')
  then show ?case using trace_inv_step proc_run_channel by blast
qed

section \<open>Properties\<close>


text \<open>C28: The channel is large enough. It never holds more than 3 errors, and a server that has an error to
  report finds room for it, so that no goroutine is left blocked on the channel, also when the main function
  does not receive any more. Every error in it is one of a server that was started.\<close>

theorem proc_channel_bounded:
  assumes "proc_run E c p"
  shows "length (pcErrCh p) \<le> errChCapacity \<and> (\<forall>e \<in> set (pcErrCh p). server_error E c e) \<and>
    (\<forall>name e. pcServers p name = Reporting e \<longrightarrow> length (pcErrCh p) < errChCapacity)"
proof -
  note inv = proc_run_channel [OF assms]
  have "length (pcErrCh p) < errChCapacity" if "pcServers p name = Reporting e" for name e
  proof -
    have "name \<in> set (map fst (serverStarts (rnListen E) (rnBuild E) c))"
      using inv that by (metis channel_inv_def srvPhase.distinct(3))
    then have "0 < reports E c (pcServers p)" using that by (force simp: reports_def filter_empty_conv)
    with inv show ?thesis by (simp add: channel_inv_def)
  qed
  with inv show ?thesis by (auto simp: channel_inv_def)
qed

section \<open>Shutting down\<close>

text \<open>What is left to do, by the main function and by the gRPC calls it waits for.\<close>

fun main_work :: "mainPhase \<Rightarrow> nat" where
  "main_work (Stopping rest) = length rest + 2"
| "main_work (Returning code) = 1"
| "main_work _ = 0"

definition shutdown_work :: "proc \<Rightarrow> nat" where
  "shutdown_work p = main_work (pcMain p) + pcCalls p"

text \<open>During the shutdown no call is accepted any more: gRPC is the server that is stopped first.\<close>

definition grpc_inv :: "run_env \<Rightarrow> field \<Rightarrow> proc \<Rightarrow> bool" where
  "grpc_inv E c p \<longleftrightarrow>
     (\<forall>rest. pcMain p = Stopping rest \<longrightarrow>
        suffix rest (map fst (serverStarts (rnListen E) (rnBuild E) c)) \<and>
        (pcServers p ''otlp-grpc'' = Serving \<longrightarrow> (\<exists>rest'. rest = ''otlp-grpc'' # rest')))"

lemma starts_grpc_first:
  "''otlp-grpc'' \<in> set (map fst (serverStarts listen info c)) \<Longrightarrow>
   \<exists>rest. map fst (serverStarts listen info c) = ''otlp-grpc'' # rest"
  by (auto simp: serverStarts_def split: if_splits)

lemma grpc_inv_step:
  assumes "grpc_inv E c p" and "channel_inv E c p" and "proc_step E c p p'"
  shows "grpc_inv E c p'"
  using assms(3)
proof (cases rule: proc_step.cases)
  case ps_signalled
  have "pcServers p ''otlp-grpc'' = Serving \<Longrightarrow> ''otlp-grpc'' \<in> set (map fst (serverStarts (rnListen E) (rnBuild E) c))"
    using assms(2) by (metis channel_inv_def srvPhase.distinct(1))
  with ps_signalled starts_grpc_first show ?thesis by (simp add: grpc_inv_def)
next
  case (ps_stop name rest)
  then have "suffix (name # rest) (map fst (serverStarts (rnListen E) (rnBuild E) c))"
    and first: "pcServers p ''otlp-grpc'' = Serving \<Longrightarrow> name = ''otlp-grpc''"
    using assms(1) by (simp_all add: grpc_inv_def)
  then have "suffix rest (map fst (serverStarts (rnListen E) (rnBuild E) c))" by (blast dest: suffix_ConsD)
  moreover have "pcServers p' ''otlp-grpc'' \<noteq> Serving"
    using first unfolding ps_stop(1) by (cases "pcServers p ''otlp-grpc'' = Serving") auto
  ultimately show ?thesis unfolding ps_stop(1) by (simp add: grpc_inv_def)
qed (use assms(1) in \<open>auto simp: grpc_inv_def\<close>)

lemma proc_run_grpc: "proc_run E c p \<Longrightarrow> grpc_inv E c p"
proof (induction rule: proc_run.induct)
  case pr_init
  show ?case by (simp add: grpc_inv_def proc_init_def)
next
  case (pr_step p p')
  then show ?case using grpc_inv_step proc_run_channel by blast
qed

lemma shutdown_work_decreases:
  assumes "grpc_inv E c p" and "pcMain p = Stopping rest" and "proc_step E c p p'"
  shows "shutdown_work p' \<le> shutdown_work p"
  using assms(3)
proof (cases rule: proc_step.cases)
  case ps_call
  then show ?thesis using assms(1,2) by (simp add: grpc_inv_def)
qed (simp_all add: shutdown_work_def assms(2))

lemma shutdown_progress:
  assumes "pcMain p = Stopping rest"
  shows "\<exists>p'. proc_step E c p p' \<and> shutdown_work p' < shutdown_work p \<and>
    ((\<exists>rest'. pcMain p' = Stopping rest') \<or> pcMain p' = Returning 0)"
proof (cases rest)
  case Nil
  then have "proc_step E c p (p\<lparr>pcMain := Returning 0\<rparr>)" using assms by (intro ps_stopped) simp
  moreover have "shutdown_work (p\<lparr>pcMain := Returning 0\<rparr>) < shutdown_work p" using assms Nil by (simp add: shutdown_work_def)
  ultimately show ?thesis by fastforce
next
  case (Cons name rest')
  show ?thesis
  proof (cases "name = ''otlp-grpc'' \<and> pcCalls p \<noteq> 0")
    case True
    then obtain n where n: "pcCalls p = Suc n" using not0_implies_Suc by blast
    then have "proc_step E c p (p\<lparr>pcCalls := n\<rparr>)" using assms by (intro ps_called) simp_all
    moreover have "shutdown_work (p\<lparr>pcCalls := n\<rparr>) < shutdown_work p" using n by (simp add: shutdown_work_def)
    ultimately show ?thesis using assms by fastforce
  next
    case False
    let ?p' = "p\<lparr>pcMain := Stopping rest', pcTrace := pcTrace p @ [Stop name],
      pcServers := (if pcServers p name = Serving then (pcServers p)(name := Gone) else pcServers p)\<rparr>"
    have "proc_step E c p ?p'" using assms Cons False by (intro ps_stop) auto
    moreover have "shutdown_work ?p' < shutdown_work p" using assms Cons by (simp add: shutdown_work_def)
    ultimately show ?thesis by fastforce
  qed
qed

lemma shutdown_ends:
  "pcMain p = Stopping rest \<Longrightarrow> \<exists>n \<le> shutdown_work p. \<exists>p'. (proc_step E c ^^ n) p p' \<and> pcMain p' = Exited 0"
proof (induction "shutdown_work p" arbitrary: p rest rule: less_induct)
  case less
  obtain p1 where p1: "proc_step E c p p1" "shutdown_work p1 < shutdown_work p"
    "(\<exists>rest'. pcMain p1 = Stopping rest') \<or> pcMain p1 = Returning 0"
    using shutdown_progress [OF less(2)] by blast
  from p1(3) show ?case
  proof
    assume "\<exists>rest'. pcMain p1 = Stopping rest'"
    then obtain n p2 where "n \<le> shutdown_work p1" "(proc_step E c ^^ n) p1 p2" "pcMain p2 = Exited 0"
      using less(1) [OF p1(2)] by blast
    then show ?thesis using p1(1,2) relpowp_Suc_I2 [of "proc_step E c" p p1 n p2]
      by (intro exI [of _ "Suc n"]) auto
  next
    assume "pcMain p1 = Returning 0"
    then have "proc_step E c p1 (p1\<lparr>pcMain := Exited 0, pcTrace := pcTrace p1 @ [CloseStore]\<rparr>)" by (rule ps_close)
    with p1(1) have "(proc_step E c ^^ 2) p (p1\<lparr>pcMain := Exited 0, pcTrace := pcTrace p1 @ [CloseStore]\<rparr>)"
      by (auto simp: numeral_2_eq_2)
    moreover have "2 \<le> shutdown_work p" using less(2) by (simp add: shutdown_work_def)
    ultimately show ?thesis by (intro exI [of _ 2]) auto
  qed
qed


text \<open>A gRPC call that does not return keeps the process alive: as long as no call ends, \<open>GracefulStop\<close> does not
  return, although the limit of 30 seconds for the shutdown is running.\<close>

theorem proc_graceful_stop_waits:
  assumes "pcMain p = Stopping (''otlp-grpc'' # rest)" and "0 < pcCalls p" and "proc_step E c p p'"
    and "pcCalls p \<le> pcCalls p'"
  shows "pcMain p' = pcMain p"
  using assms(3,1,2,4) by (cases rule: proc_step.cases) auto

section \<open>Witnesses\<close>

lemma proc_can_select:
  "(\<And>addr. rnListen E addr = None) \<Longrightarrow> proc_run E c p \<Longrightarrow> pcMain p = Starting rest \<Longrightarrow>
   \<exists>p'. proc_run E c p' \<and> pcMain p' = Selecting \<and> pcSignal p' = pcSignal p \<and>
     (\<forall>name \<in> fst ` set rest. pcServers p' name = Serving) \<and>
     (\<forall>name. name \<notin> fst ` set rest \<longrightarrow> pcServers p' name = pcServers p name)"
proof (induction rest arbitrary: p)
  case Nil
  show ?case using pr_step [OF Nil(2) ps_started [OF Nil(3)]]
    by (intro exI [of _ "p\<lparr>pcMain := Selecting\<rparr>"]) simp
next
  case (Cons start rest)
  obtain name addr acts where start: "start = (name, addr, acts)" by (cases start)
  let ?p = "p\<lparr>pcMain := Starting rest, pcTrace := pcTrace p @ acts, pcServers := (pcServers p)(name := Serving)\<rparr>"
  have "proc_step E c p ?p" using ps_start [OF Cons.prems(3) [unfolded start], of E c] Cons.prems(1) by simp
  from pr_step [OF Cons.prems(2) this] have "proc_run E c ?p" .
  with Cons.IH [OF Cons.prems(1), of ?p]
  obtain p' where "proc_run E c p'" "pcMain p' = Selecting" "pcSignal p' = pcSignal p"
    "\<forall>n \<in> fst ` set rest. pcServers p' n = Serving"
    "\<forall>n. n \<notin> fst ` set rest \<longrightarrow> pcServers p' n = ((pcServers p)(name := Serving)) n" by auto
  moreover from this(4,5) have "pcServers p' name = Serving" by (cases "name \<in> fst ` set rest") auto
  ultimately show ?case unfolding start by (intro exI [of _ p']) auto
qed

lemma proc_run_steps: "(proc_step E c ^^ n) p p' \<Longrightarrow> proc_run E c p \<Longrightarrow> proc_run E c p'"
  by (induction n arbitrary: p') (auto intro: pr_step)

lemma demo_selecting:
  "\<exists>p. proc_run demo_run newDefaults p \<and> pcMain p = Selecting \<and> pcSignal p \<and>
     (\<forall>name \<in> fst ` set (serverStarts (rnListen demo_run) (rnBuild demo_run) newDefaults). pcServers p name = Serving)"
proof -
  let ?p = "(proc_init demo_run newDefaults)\<lparr>pcSignal := True\<rparr>"
  have run: "proc_run demo_run newDefaults ?p" by (rule pr_step [OF pr_init ps_signal]) (simp add: proc_init_def)
  have main: "pcMain ?p = Starting (serverStarts (rnListen demo_run) (rnBuild demo_run) newDefaults)"
    by (simp add: proc_init_def)
  have "rnListen demo_run addr = None" for addr by (simp add: demo_run_def)
  with proc_can_select [OF _ run main] show ?thesis by fastforce
qed

lemma demo_stopping: "\<exists>p rest. proc_run demo_run newDefaults p \<and> pcMain p = Stopping rest"
proof -
  obtain p where p: "proc_run demo_run newDefaults p" "pcMain p = Selecting" "pcSignal p"
    using demo_selecting by blast
  from pr_step [OF p(1) ps_signalled [OF p(2,3)]] show ?thesis
    by (intro exI conjI) (assumption, simp)
qed

lemma demo_exited: "\<exists>p. proc_run demo_run newDefaults p \<and> pcMain p = Exited 0"
  using demo_stopping shutdown_ends proc_run_steps by meson



lemma starts_some: "serverStarts listen info c \<noteq> []"
  by (simp add: serverStarts_def)

text \<open>A process with a server that could not listen and reports it.\<close>

theorem proc_channel_bounded_witness:
  "\<exists>p name e. proc_run (demo_run\<lparr>rnListen := \<lambda>_. Some ''in use''\<rparr>) newDefaults p \<and> pcServers p name = Reporting e \<and>
    length (pcErrCh p) < errChCapacity"
proof -
  let ?E = "demo_run\<lparr>rnListen := \<lambda>_. Some ''in use''\<rparr>"
  obtain name addr acts rest where "serverStarts (rnListen ?E) (rnBuild ?E) newDefaults = (name, addr, acts) # rest"
    using prod_cases3 neq_Nil_conv starts_some by metis
  then have "pcMain (proc_init ?E newDefaults) = Starting ((name, addr, acts) # rest)" by (simp add: proc_init_def)
  from pr_step [OF pr_init ps_start [OF this]]
  obtain p where p: "proc_run ?E newDefaults p" "pcServers p name = Reporting (errorPrefix name @ '' listen: in use'')"
    by fastforce
  from proc_channel_bounded [OF p(1)] p show ?thesis by blast
qed

text \<open>The gRPC call starts before the signal is received; then a second signal arrives.\<close>

theorem proc_graceful_stop_waits_witness:
  "\<exists>p p' rest. proc_run demo_run newDefaults p \<and> pcMain p = Stopping (''otlp-grpc'' # rest) \<and> 0 < pcCalls p \<and>
     proc_step demo_run newDefaults p p' \<and> pcMain p' = pcMain p"
proof -
  let ?starts = "serverStarts (rnListen demo_run) (rnBuild demo_run) newDefaults"
  obtain p where p: "proc_run demo_run newDefaults p" "pcMain p = Selecting" "pcSignal p"
    "\<forall>name \<in> fst ` set ?starts. pcServers p name = Serving" using demo_selecting by blast
  have "boolAt [''otlp'', ''grpc'', ''enabled''] newDefaults" by (simp add: boolAt_def newDefaults_def)
  then obtain rest where rest: "map fst ?starts = ''otlp-grpc'' # rest" by (simp add: serverStarts_def)
  then have "''otlp-grpc'' \<in> fst ` set ?starts" by (metis list.set_intros(1) set_map)
  with p(4) have serving: "pcServers p ''otlp-grpc'' = Serving" by blast
  let ?p1 = "p\<lparr>pcCalls := pcCalls p + 1\<rparr>"
  let ?p2 = "?p1\<lparr>pcMain := Stopping (map fst ?starts)\<rparr>"
  have "proc_run demo_run newDefaults ?p1"
    by (rule pr_step [OF p(1) ps_call]) (simp_all add: p(2) serving)
  then have run: "proc_run demo_run newDefaults ?p2"
    by (rule pr_step [OF _ ps_signalled]) (simp_all add: p(2,3))
  have step: "proc_step demo_run newDefaults ?p2 (?p2\<lparr>pcSignal := True\<rparr>)" by (rule ps_signal) simp
  from proc_graceful_stop_waits [OF _ _ step] run step rest show ?thesis by fastforce
qed

end
