(* ===== verification/FsConcurrent.thy ===== *)
theory FsConcurrent
  imports FsMaintain
begin

text \<open>
  The persistent store under concurrent use (\<open>internal/store/fsstore.go\<close>). \<open>Commit\<close> and \<open>Select\<close> each hold two
  locks, one after the other: a commit first writes the log and then the head, a query first reads the
  head and then the blocks. Between the two parts anything else may happen: other commits, queries, the
  steps of a flush, a tick of the compaction loop, or the end of the process.
\<close>

section \<open>The parts of the operations\<close>

text \<open>\<open>Commit\<close>: the log under its lock, then the head under its own.\<close>

definition commitLog ::
  "'l labels_api \<Rightarrow> (write_outcome \<times> rotate_outcome) list \<Rightarrow> 'l pendingSample list \<Rightarrow> 'l fsStore \<Rightarrow> err \<times> 'l fsStore" where
  "commitLog L outs ps s =
     (case walLog L outs (fsWal s) (map pending_record ps) of
        (Some e, w) \<Rightarrow> (Some (''WAL log: '' @ e), s\<lparr>fsWal := w\<rparr>)
      | (None, w) \<Rightarrow> (None, s\<lparr>fsWal := w\<rparr>))"

definition commitApply :: "'l labels_api \<Rightarrow> 'l pendingSample list \<Rightarrow> 'l fsStore \<Rightarrow> 'l fsStore" where
  "commitApply L ps s = s\<lparr>fsMem := appendSamples L (fsMem s) ps\<rparr>"

lemma fsCommit_parts:
  "fsCommit L outs (s, ps) =
     (case commitLog L outs ps s of
        (Some e, s') \<Rightarrow> (Some e, (s', ps))
      | (None, s') \<Rightarrow> (None, (commitApply L ps s', [])))"
  by (simp add: fsCommit_def commitLog_def commitApply_def memCommit_def split: prod.split option.split)

text \<open>\<open>Select\<close>: the series of the head, then those of the blocks.\<close>

definition selectHead ::
  "'l labels_api \<Rightarrow> ('l series list \<Rightarrow> 'l series list) \<Rightarrow> u64 list \<Rightarrow> 'l fsStore \<Rightarrow> bool \<Rightarrow> i64 \<Rightarrow> i64 \<Rightarrow> matcher list \<Rightarrow>
     'l series list option" where
  "selectHead L srt ks s sortSeries mint maxt ms =
     drain ssNext ssAt (memSelect L srt ks (fsMem s) sortSeries mint maxt ms)"

definition selectRest ::
  "'l labels_api \<Rightarrow> ('l series list \<Rightarrow> 'l series list) \<Rightarrow> 'l fsStore \<Rightarrow> bool \<Rightarrow> i64 \<Rightarrow> i64 \<Rightarrow> matcher list \<Rightarrow>
     'l series list \<Rightarrow> 'l sliceSeriesSet" where
  "selectRest L srt s sortSeries mint maxt ms mem =
     (let allSeries = mem @ selectBlocks L (fsBlocks s) mint maxt ms
      in newSliceSeriesSet (if sortSeries then srt allSeries else allSeries))"

lemma fsSelect_parts:
  "fsSelect L srt ks s sortSeries mint maxt ms =
     map_option (selectRest L srt s sortSeries mint maxt ms) (selectHead L srt ks s sortSeries mint maxt ms)"
  by (simp add: fsSelect_def selectHead_def selectRest_def [abs_def] Let_def)

text \<open>What a query answers whose two parts see different states.\<close>

lemma select_parts_answer:
  assumes L: "labels_ok L" and srt: "is_sort (series_less L) srt"
    and s1: "fs_ok L s1" "ranges ks (memSeriesOf (fsMem s1))" and s2: "fs_ok L s2"
  shows "\<exists>mem. selectHead L srt ks s1 sortSeries mint maxt ms = Some mem \<and>
    (\<forall>l. matchesAll L l ms \<longrightarrow>
       mset (answer_samples L (ssSeries (selectRest L srt s2 sortSeries mint maxt ms mem)) l) =
       filter_mset (in_range mint maxt) (mset (mem_samples L (fsMem s1) l) + mset (blocks_samples L (fsBlocks s2) l)))"
proof -
  let ?M = "ssSeries (memSelect L srt ks (fsMem s1) sortSeries mint maxt ms)"
  let ?B = "selectBlocks L (fsBlocks s2) mint maxt ms"
  have head: "selectHead L srt ks s1 sortSeries mint maxt ms = Some ?M"
    by (simp add: selectHead_def memSelect_def Let_def)
  have spec: "select_spec L ms mint maxt (mem_samples L (fsMem s1)) ?M"
    using s1 by (intro memSelect_spec [OF L _ _ srt]) (simp_all add: fs_ok_def)
  have perm: "mset (if sortSeries then srt (?M @ ?B) else ?M @ ?B) = mset (?M @ ?B)"
    using is_sort_mset [OF srt] by simp
  have "mset (answer_samples L (ssSeries (selectRest L srt s2 sortSeries mint maxt ms ?M)) l) =
      filter_mset (in_range mint maxt) (mset (mem_samples L (fsMem s1) l) + mset (blocks_samples L (fsBlocks s2) l))"
    if m: "matchesAll L l ms" for l
  proof -
    have "answer_samples L ?M l = filter (in_range mint maxt) (mem_samples L (fsMem s1) l)"
      by (rule select_spec_answer [OF L spec m mem_samples_cong [OF L]])
    moreover have "answer_samples L ?B l = filter (in_range mint maxt) (blocks_samples L (fsBlocks s2) l)"
      using s2 by (intro answer_selectBlocks [OF L m]) (simp add: fs_ok_def)
    ultimately show ?thesis
      using answer_samples_perm [OF perm, of L l] by (simp add: selectRest_def Let_def ssSeries_new)
  qed
  with head show ?thesis by blast
qed

section \<open>A query while a flush runs\<close>

text \<open>Any number of steps of commits and of the flushing thread.\<close>

abbreviation flush_steps :: "'l labels_api \<Rightarrow> 'l labels_json \<Rightarrow> 'l fsStore \<times> 'l flushPhase \<Rightarrow> 'l fsStore \<times> 'l flushPhase \<Rightarrow> bool" where
  "flush_steps L J \<equiv> (flush_step L J)\<^sup>*\<^sup>*"

inductive_cases flush_stepE: "flush_step L J (s, ph) (s', ph')"

lemma flush_step_blocks:
  assumes "flush_step L J (s, ph) (s', ph')"
  shows "mset (blocks_samples L (fsBlocks s) l) \<subseteq># mset (blocks_samples L (fsBlocks s') l)"
  using assms
  by (elim flush_stepE)
    (auto dest!: flushWrite_same fsCommit_cases simp: flushPublish_def flushReset_def flushTruncate_def)

lemma flush_steps_blocks:
  assumes "flush_steps L J st st'"
  shows "mset (blocks_samples L (fsBlocks (fst st)) l) \<subseteq># mset (blocks_samples L (fsBlocks (fst st')) l)"
  using assms
proof (induction rule: rtranclp_induct)
  case (step st' st'')
  from flush_step_blocks [of L J "fst st'" "snd st'" "fst st''" "snd st''" l] step(2,3) show ?case
    by (auto intro: subset_mset.trans)
qed simp

lemma flush_steps_ok:
  assumes L: "labels_ok L" and "flush_steps L J st st'" and "fs_ok L (fst st)" and "phase_keeps L base st"
  shows "fs_ok L (fst st') \<and> phase_keeps L base st'"
  using assms(2-4) by (induction rule: rtranclp_induct) (auto dest: phase_keeps_step [OF L])

text \<open>C6: A query that runs while the head is flushed and batches are committed misses nothing. Whatever
  happens before, between and after the two parts of the query, its answer contains for every matching
  label set each sample in range that the store held when no flush was under way.\<close>

theorem fs_query_during_flush:
  assumes "labels_ok L" and "is_sort (series_less L) srt" and "fs_ok L s" and "flush_run L J s (s1, ph1)"
    and "flush_steps L J (s1, ph1) (s2, ph2)" and "ranges ks (memSeriesOf (fsMem s1))"
  shows "\<exists>mem. selectHead L srt ks s1 sortSeries mint maxt ms = Some mem \<and>
    (\<forall>l. matchesAll L l ms \<longrightarrow>
       filter_mset (in_range mint maxt) (mset (fs_samples L s l)) \<subseteq>#
       mset (answer_samples L (ssSeries (selectRest L srt s2 sortSeries mint maxt ms mem)) l))"
proof -
  have keeps: "fs_ok L s1" "phase_keeps L (\<lambda>l. mset (fs_samples L s l)) (s1, ph1)"
    using flush_run_keeps [OF assms(1,4,3)] by simp_all
  then have "fs_ok L s2" using flush_steps_ok [OF assms(1,5)] by simp
  from select_parts_answer [OF assms(1,2) keeps(1) assms(6) this]
  obtain mem where mem: "selectHead L srt ks s1 sortSeries mint maxt ms = Some mem"
    "\<forall>l. matchesAll L l ms \<longrightarrow>
       mset (answer_samples L (ssSeries (selectRest L srt s2 sortSeries mint maxt ms mem)) l) =
       filter_mset (in_range mint maxt) (mset (mem_samples L (fsMem s1) l) + mset (blocks_samples L (fsBlocks s2) l))"
    by blast
  have "mset (fs_samples L s l) \<subseteq># mset (mem_samples L (fsMem s1) l) + mset (blocks_samples L (fsBlocks s2) l)" for l
  proof -
    have "mset (fs_samples L s l) \<subseteq># mset (fs_samples L s1 l)" by (rule phase_keeps_total [OF keeps(2)])
    also have "\<dots> \<subseteq># mset (mem_samples L (fsMem s1) l) + mset (blocks_samples L (fsBlocks s2) l)"
      using flush_steps_blocks [OF assms(5), of l] by (simp add: fs_samples_def)
    finally show ?thesis .
  qed
  then have "filter_mset (in_range mint maxt) (mset (fs_samples L s l)) \<subseteq>#
      filter_mset (in_range mint maxt) (mset (mem_samples L (fsMem s1) l) + mset (blocks_samples L (fsBlocks s2) l))" for l
    by (rule multiset_filter_mono)
  then show ?thesis using mem by (intro exI [of _ mem]) simp
qed

text \<open>It may count twice, however: when the block of a flush is published between the two parts of a query,
  the flushed samples are answered from the head and again from the block.\<close>

theorem fs_query_twice:
  assumes "labels_ok L" and "is_sort (series_less L) srt" and "fs_ok L s" and "ranges ks (memSeriesOf (fsMem s))"
    and "flushWrite J io (snapshot ks (fsMem s)) s = (Inr b, s1)" and "snapshot ks (fsMem s) \<noteq> []"
  shows "let s2 = flushPublish b s1 in
    flush_steps L J (s, FIdle) (s2, FPublished) \<and>
    (\<exists>mem. selectHead L srt ks s sortSeries mint maxt ms = Some mem \<and>
      (\<forall>l. matchesAll L l ms \<longrightarrow>
        mset (answer_samples L (ssSeries (selectRest L srt s2 sortSeries mint maxt ms mem)) l) =
        filter_mset (in_range mint maxt) (mset (fs_samples L s l) + mset (mem_samples L (fsMem s) l))))"
proof -
  let ?ss = "snapshot ks (fsMem s)" and ?s2 = "flushPublish b s1"
  have ok: "mem_ok L (fsMem s)" using assms(3) by (simp add: fs_ok_def)
  have "flush_step L J (s, FIdle) (s, FSnapped ?ss)" by (rule fl_snap [OF assms(4) refl assms(6)])
  moreover have "flush_step L J (s, FSnapped ?ss) (s1, FWritten b)" by (rule fl_write [OF assms(5)])
  moreover have "flush_step L J (s1, FWritten b) (?s2, FPublished)" by (rule fl_publish)
  ultimately have run: "flush_steps L J (s, FIdle) (?s2, FPublished)" by (metis rtranclp.simps)
  have "phase_keeps L (\<lambda>_. {#}) (s, FIdle)" by simp
  from flush_steps_ok [OF assms(1) run _ this] have "fs_ok L ?s2" using assms(3) by simp
  moreover have "blSeries b = ?ss" "fsBlocks s1 = fsBlocks s"
    using flushWrite_block [OF assms(5) distinct_snapshot [OF assms(1) ok assms(4)]] by simp_all
  then have "blocks_samples L (fsBlocks ?s2) l = blocks_samples L (fsBlocks s) l @ mem_samples L (fsMem s) l" for l
    using series_samples_snapshot [OF assms(1) ok assms(4)] by (simp add: flushPublish_def)
  ultimately show ?thesis
    using run select_parts_answer [OF assms(1-4), of ?s2 sortSeries mint maxt ms]
    by (simp add: Let_def fs_samples_def ac_simps)
qed

section \<open>The store in the running server\<close>

text \<open>
  The server never calls \<open>FlushHead\<close>. What happens to its store is: parts of commits, ticks of the
  compaction loop, and the end of the process followed by a new start. \<open>lvFlight\<close> are the batches that are
  in the log and not yet in the head, each that of a commit under way. \<open>lvLogged\<close> and \<open>lvAcked\<close> only record
  the past: the samples of the batches logged, and of the commits that have returned without an error.
\<close>

record 'l liveStore =
  lvStore :: "'l fsStore"
  lvFlight :: "'l pendingSample list list"
  lvLogged :: "'l pendingSample list"
  lvAcked :: "'l pendingSample list"

inductive live_step ::
  "'l labels_api \<Rightarrow> 'l labels_json \<Rightarrow> ('l block list \<Rightarrow> 'l block list) \<Rightarrow> 'l liveStore \<Rightarrow> 'l liveStore \<Rightarrow> bool"
  for L J bsrt where
  lv_log: "commitLog L [] ps (lvStore v) = (None, s) \<Longrightarrow> \<forall>p \<in> set ps. rec_fits L (pending_record p) \<Longrightarrow>
    walSegmentSeq (fsWal (lvStore v)) + length ps < 10 ^ 8 \<Longrightarrow>
    live_step L J bsrt v (v\<lparr>lvStore := s, lvFlight := ps # lvFlight v, lvLogged := lvLogged v @ ps\<rparr>)"
| lv_apply: "lvFlight v = before @ ps # after \<Longrightarrow>
    live_step L J bsrt v
      (v\<lparr>lvStore := commitApply L ps (lvStore v), lvFlight := before @ after, lvAcked := lvAcked v @ ps\<rparr>)"
| lv_tick: "live_step L J bsrt v (v\<lparr>lvStore := compactionTick L J srt ks io stuck info now (lvStore v)\<rparr>)"
| lv_restart: "newFSStore L J bsrt (OpenOk, DirOk) cfg (walFiles (fsWal (lvStore v))) (fsDisk (lvStore v)) = Inr s \<Longrightarrow>
    live_step L J bsrt v (v\<lparr>lvStore := s, lvFlight := []\<rparr>)"

inductive live_run ::
  "'l labels_api \<Rightarrow> 'l labels_json \<Rightarrow> ('l block list \<Rightarrow> 'l block list) \<Rightarrow> 'l fsStore \<Rightarrow> 'l liveStore \<Rightarrow> bool"
  for L J bsrt s where
  live_start: "live_run L J bsrt s \<lparr>lvStore = s, lvFlight = [], lvLogged = [], lvAcked = []\<rparr>"
| live_next: "live_run L J bsrt s v \<Longrightarrow> live_step L J bsrt v v' \<Longrightarrow> live_run L J bsrt s v'"

text \<open>
  The invariant, over a store \<open>s0\<close> opened on a data directory without blocks: the log holds what it held and
  all that was logged since; the head holds the same, but for the commits under way.
\<close>

definition live_inv ::
  "'l labels_api \<Rightarrow> 'l labels_json \<Rightarrow> ('l \<Rightarrow> sample multiset) \<Rightarrow> 'l liveStore \<Rightarrow> bool" where
  "live_inv L J base v \<longleftrightarrow>
     mem_ok L (fsMem (lvStore v)) \<and> fsBlocks (lvStore v) = [] \<and> openEntries J (readDir (fsDisk (lvStore v))) = [] \<and>
     (\<exists>segs. wal_inv L (fsWal (lvStore v)) segs \<and>
        (\<forall>l. mset (log_samples L (segRecords segs) l) = base l + mset (batch_samples L (lvLogged v) l))) \<and>
     (\<forall>l. mset (mem_samples L (fsMem (lvStore v)) l) + mset (batch_samples L (concat (lvFlight v)) l) =
        base l + mset (batch_samples L (lvLogged v) l)) \<and>
     (\<forall>l. base l + mset (batch_samples L (lvAcked v) l) \<subseteq># mset (mem_samples L (fsMem (lvStore v)) l))"

lemma compactionTick_no_blocks:
  "fsBlocks s = [] \<Longrightarrow> compactionTick L J srt ks io stuck info now s = s"
  by (simp add: compactionTick_def compact_def applyRetention_def Let_def)

lemma live_inv_log:
  assumes L: "labels_ok L" and inv: "live_inv L J base v"
    and run: "commitLog L [] ps (lvStore v) = (None, s)" and fits: "\<forall>p \<in> set ps. rec_fits L (pending_record p)"
    and room: "walSegmentSeq (fsWal (lvStore v)) + length ps < 10 ^ 8"
  shows "live_inv L J base (v\<lparr>lvStore := s, lvFlight := ps # lvFlight v, lvLogged := lvLogged v @ ps\<rparr>)"
proof -
  obtain segs where segs: "wal_inv L (fsWal (lvStore v)) segs"
    "\<forall>l. mset (log_samples L (segRecords segs) l) = base l + mset (batch_samples L (lvLogged v) l)"
    using inv by (auto simp: live_inv_def)
  have "\<forall>r \<in> set (map pending_record ps). rec_fits L r" using fits by simp
  from walLog_ok [OF segs(1) this] room obtain w segs' where
    "walLog L [] (fsWal (lvStore v)) (map pending_record ps) = (None, w)" "wal_inv L w segs'"
    "segRecords segs' = segRecords segs @ map pending_record ps" by auto
  moreover from this(1) have "s = (lvStore v)\<lparr>fsWal := w\<rparr>" using run by (simp add: commitLog_def)
  ultimately show ?thesis
    using inv segs(2) unfolding live_inv_def
    by (intro conjI exI [of _ segs']) (simp_all add: batch_samples_append ac_simps)
qed

lemma live_inv_apply:
  assumes L: "labels_ok L" and inv: "live_inv L J base v" and flight: "lvFlight v = before @ ps # after"
  shows "live_inv L J base
    (v\<lparr>lvStore := commitApply L ps (lvStore v), lvFlight := before @ after, lvAcked := lvAcked v @ ps\<rparr>)"
proof -
  have "mset (mem_samples L (appendSamples L (fsMem (lvStore v)) ps) l) + mset (batch_samples L (concat (before @ after)) l)
      = base l + mset (batch_samples L (lvLogged v) l)" for l
  proof -
    have "mset (mem_samples L (fsMem (lvStore v)) l) + mset (batch_samples L (concat (lvFlight v)) l)
        = base l + mset (batch_samples L (lvLogged v) l)" using inv by (simp add: live_inv_def)
    then show ?thesis by (simp add: flight mem_samples_batch [OF L] batch_samples_append ac_simps)
  qed
  moreover have "base l + mset (batch_samples L (lvAcked v @ ps) l)
      \<subseteq># mset (mem_samples L (appendSamples L (fsMem (lvStore v)) ps) l)" for l
  proof -
    have "base l + mset (batch_samples L (lvAcked v) l) \<subseteq># mset (mem_samples L (fsMem (lvStore v)) l)"
      using inv by (simp add: live_inv_def)
    then show ?thesis
      by (simp add: mem_samples_batch [OF L] batch_samples_append subset_mset.add_right_mono flip: add.assoc)
  qed
  ultimately show ?thesis using inv mem_ok_batch [OF L] by (simp add: live_inv_def commitApply_def)
qed

lemma live_inv_restart:
  assumes L: "labels_ok L" and bsrt: "\<And>bs. mset (bsrt bs) = mset bs" and inv: "live_inv L J base v"
    and run: "newFSStore L J bsrt (OpenOk, DirOk) cfg (walFiles (fsWal (lvStore v))) (fsDisk (lvStore v)) = Inr s"
  shows "live_inv L J base (v\<lparr>lvStore := s, lvFlight := []\<rparr>)"
proof -
  obtain segs where segs: "wal_inv L (fsWal (lvStore v)) segs"
    "\<forall>l. mset (log_samples L (segRecords segs) l) = base l + mset (batch_samples L (lvLogged v) l)"
    using inv by (auto simp: live_inv_def)
  then have dir: "wal_dir L (walFiles (fsWal (lvStore v))) segs" "segs \<noteq> []" by (simp_all add: wal_inv_def)
  from newFSStore_ok [OF L dir(1), of J bsrt cfg "fsDisk (lvStore v)"] dir(2) run
  have s: "durable L s segs" "fsDisk s = fsDisk (lvStore v)" "fsBlocks s = bsrt (openEntries J (readDir (fsDisk s)))"
    by auto
  moreover have "openEntries J (readDir (fsDisk (lvStore v))) = []" using inv by (simp add: live_inv_def)
  moreover have "bsrt [] = []" using bsrt [of "[]"] by simp
  moreover have "base l + mset (batch_samples L (lvAcked v) l) \<subseteq># mset (log_samples L (segRecords segs) l)" for l
  proof -
    have "base l + mset (batch_samples L (lvAcked v) l) \<subseteq># mset (mem_samples L (fsMem (lvStore v)) l)"
      using inv by (simp add: live_inv_def)
    also have "\<dots> \<subseteq># mset (mem_samples L (fsMem (lvStore v)) l) + mset (batch_samples L (concat (lvFlight v)) l)" by simp
    also have "\<dots> = mset (log_samples L (segRecords segs) l)" using inv segs(2) by (simp add: live_inv_def)
    finally show ?thesis .
  qed
  ultimately show ?thesis
    using segs unfolding live_inv_def durable_def by (intro conjI exI [of _ segs]) simp_all
qed

lemma live_inv_step:
  assumes L: "labels_ok L" and bsrt: "\<And>bs. mset (bsrt bs) = mset bs" and "live_step L J bsrt v v'" and "live_inv L J base v"
  shows "live_inv L J base v'"
  using assms(3,4)
proof (cases rule: live_step.cases)
  case (lv_log ps s)
  then show ?thesis using live_inv_log [OF L assms(4)] by simp
next
  case (lv_apply before ps after)
  then show ?thesis using live_inv_apply [OF L assms(4)] by simp
next
  case (lv_tick ks io stuck info now)
  have "fsBlocks (lvStore v) = []" using assms(4) by (simp add: live_inv_def)
  then show ?thesis using assms(4) by (simp add: lv_tick compactionTick_no_blocks)
next
  case (lv_restart cfg s)
  then show ?thesis using live_inv_restart [OF L bsrt assms(4)] by simp
qed

lemma live_run_inv:
  assumes L: "labels_ok L" and bsrt: "\<And>bs. mset (bsrt bs) = mset bs" and dir: "wal_dir L d segs"
    and bd: "openEntries J (readDir bd) = []" and start: "newFSStore L J bsrt (OpenOk, DirOk) cfg d bd = Inr s"
    and run: "live_run L J bsrt s v"
  shows "live_inv L J (\<lambda>l. mset (mem_samples L (fsMem s) l)) v"
  using run
proof (induction rule: live_run.induct)
  case live_start
  from newFSStore_ok [OF L dir, of J bsrt cfg bd] start
  have "durable L s (if segs = [] then [(0, [])] else segs)" "fsBlocks s = bsrt (openEntries J (readDir bd))" "fsDisk s = bd"
    by auto
  then show ?case
    using bd bsrt [of "[]"] unfolding live_inv_def durable_def
    by (intro conjI exI [of _ "if segs = [] then [(0, [])] else segs"]) simp_all
next
  case (live_next v v')
  then show ?case using live_inv_step [OF L bsrt] by blast
qed

text \<open>What has been acknowledged is in the store.\<close>

lemma live_run_acked:
  assumes L: "labels_ok L" and block_sort: "is_sort block_less bsrt"
    and open0: "wal_dir L d segs" "openEntries J (readDir bd) = []" "newFSStore L J bsrt (OpenOk, DirOk) cfg d bd = Inr s"
    and run: "live_run L J bsrt s v"
  shows "mset (fs_samples L s l) + mset (batch_samples L (lvAcked v) l) \<subseteq># mset (fs_samples L (lvStore v) l)"
proof -
  note bsrt = is_sort_mset [OF block_sort]
  have "fsBlocks s = []" using newFSStore_ok [OF L open0(1), of J bsrt cfg bd] bsrt [of "[]"] open0(2,3) by auto
  then show ?thesis
    using live_run_inv [OF L bsrt open0 run] by (simp add: live_inv_def fs_samples_def blocks_samples_def)
qed


text \<open>A query of the running server, its two parts at different moments, is answered the samples in range of
  every commit that had returned, and none that is not completely in the log.\<close>

theorem fs_acknowledged_queried:
  assumes L: "labels_ok L" and block_sort: "is_sort block_less bsrt" and srt: "is_sort (series_less L) srt"
    and open0: "wal_dir L d segs" "openEntries J (readDir bd) = []" "newFSStore L J bsrt (OpenOk, DirOk) cfg d bd = Inr s"
    and run: "live_run L J bsrt s v1" "(live_step L J bsrt)\<^sup>*\<^sup>* v1 v2"
    and ks: "ranges ks (memSeriesOf (fsMem (lvStore v1)))"
  shows "\<exists>mem. selectHead L srt ks (lvStore v1) sortSeries mint maxt ms = Some mem \<and>
    (\<forall>l. matchesAll L l ms \<longrightarrow>
      (let answer = mset (answer_samples L (ssSeries (selectRest L srt (lvStore v2) sortSeries mint maxt ms mem)) l)
       in filter_mset (in_range mint maxt) (mset (fs_samples L s l) + mset (batch_samples L (lvAcked v1) l)) \<subseteq># answer \<and>
          answer \<subseteq># filter_mset (in_range mint maxt) (mset (fs_samples L s l) + mset (batch_samples L (lvLogged v1) l))))"
proof -
  note bsrt = is_sort_mset [OF block_sort]
  let ?base = "\<lambda>l. mset (mem_samples L (fsMem s) l)"
  have inv1: "live_inv L J ?base v1" by (rule live_run_inv [OF L bsrt open0 run(1)])
  have inv2: "live_inv L J ?base v2"
    using run(2) by (induction rule: rtranclp_induct) (auto intro: inv1 live_inv_step [OF L bsrt])
  have ok: "fs_ok L (lvStore v1)" "fs_ok L (lvStore v2)" "fsBlocks (lvStore v2) = []"
    using inv1 inv2 by (simp_all add: live_inv_def fs_ok_def)
  have base: "mset (fs_samples L s l) = ?base l" for l
    using newFSStore_ok [OF L open0(1), of J bsrt cfg bd] bsrt [of "[]"] open0(2,3)
    by (auto simp: fs_samples_def blocks_samples_def)
  have "?base l + mset (batch_samples L (lvAcked v1) l) \<subseteq># mset (mem_samples L (fsMem (lvStore v1)) l)"
    "mset (mem_samples L (fsMem (lvStore v1)) l) \<subseteq># ?base l + mset (batch_samples L (lvLogged v1) l)" for l
    using inv1 unfolding live_inv_def by (metis, metis mset_subset_eq_add_left)
  from this [THEN multiset_filter_mono, of "in_range mint maxt"]
  show ?thesis
    using select_parts_answer [OF L srt ok(1) ks ok(2), of sortSeries mint maxt ms] ok(3)
    unfolding base Let_def by (auto simp: blocks_samples_def)
qed

text \<open>That a log write fails is worse than \<open>fs_commit_failure\<close> tells: the torn record stays in the segment, and
  the next commit writes behind it. That commit is acknowledged and its samples are served, but when the
  store is opened again the replay takes them for the missing bytes of the torn record and fails.\<close>

theorem fs_commit_behind_tear:
  assumes "labels_ok L" and "durable L s segs" and "rec_fits L (pending_record p)"
    and "4 \<le> k" and "k + length (encodeWALRecord L (pending_record p2)) < length (encodeWALRecord L (pending_record p))"
    and "walSegmentSize (fsWal s) + int (length (encodeWALRecord L (pending_record p2))) < walMaxSegSize (fsWal s)"
  shows "\<exists>e s1 s2. fsCommit L [(WriteErr k, o2)] (s, [p]) = (Some e, (s1, [p])) \<and>
    fsCommit L [] (s1, [p2]) = (None, (s2, [])) \<and>
    (\<forall>l. mem_samples L (fsMem s2) l = mem_samples L (fsMem s) l @ batch_samples L [p2] l) \<and>
    isl (newFSStore L J bsrt (OpenOk, DirOk) cfg (walFiles (fsWal s2)) (fsDisk s2))"
proof -
  have "wal_inv L (fsWal s) segs" using assms(2) by (simp add: durable_def)
  from wal_write_behind_tear [OF this assms(3-6)] obtain w1 w2 where
    w1: "walLog L [(WriteErr k, o2)] (fsWal s) [pending_record p] = (Some ''writing WAL record: write'', w1)"
    and w2: "walLog L [] w1 [pending_record p2] = (None, w2)"
    and replay: "walReplay L w2 = (map (wal_norm L) (segRecords segs), Some (segmentName (walSegmentSeq (fsWal s)), UnexpectedEOF))"
    and reopen: "newWAL OpenOk (walFiles w2) (fcWALSegmentSize cfg) = Inr (w2\<lparr>walMaxSegSize := fcWALSegmentSize cfg,
      walSegmentSize := int (fileSize (segmentName (walSegmentSeq (fsWal s))) (walFiles w2))\<rparr>)"
    by blast
  let ?s1 = "s\<lparr>fsWal := w1\<rparr>" and ?s2 = "s\<lparr>fsWal := w2, fsMem := appendSamples L (fsMem s) [p2]\<rparr>"
  have "fsCommit L [(WriteErr k, o2)] (s, [p]) = (Some (''WAL log: '' @ ''writing WAL record: write''), (?s1, [p]))"
    by (simp add: fsCommit_def w1 del: walLog.simps)
  moreover have "fsCommit L [] (?s1, [p2]) = (None, (?s2, []))"
    by (simp add: fsCommit_def memCommit_def w2 del: walLog.simps)
  moreover have "isl (newFSStore L J bsrt (OpenOk, DirOk) cfg (walFiles (fsWal ?s2)) (fsDisk ?s2))"
    using replay by (simp add: newFSStore_def reopen openBlocks_def walReplay_def)
  ultimately show ?thesis
    by - (rule exI, rule exI [of _ ?s1], rule exI [of _ ?s2], simp add: mem_samples_batch [OF assms(1)])
qed

end
