(* ===== verification/ExportConcurrent.thy ===== *)
theory ExportConcurrent
  imports FsConcurrent Ingest
begin

text \<open>
  Concurrent exports (\<open>internal/ingest/grpc.go\<close>, \<open>http.go\<close>): every call of \<open>Export\<close> has an appender of its own,
  but all share the accumulator of the translator, which is locked for one sample at a time, and the store,
  whose commit has the two parts of theory \<open>FsConcurrent\<close>. What the calls do is interleaved sample by
  sample with each other, with ticks of the compaction loop and with restarts of the process.
\<close>

section \<open>The calls\<close>

text \<open>A call: the samples of its request that are still to be written, the batch of its appender, and where it is.\<close>

datatype callPhase = Translating | InLog | Acknowledged

record 'l exportCall =
  ecReq :: exportRequest
  ecTodo :: "'l job list"
  ecBatch :: "'l pendingSample list"
  ecPhase :: callPhase

definition startCall :: "'l translator_env \<Rightarrow> translationConfig \<Rightarrow> exportRequest \<Rightarrow> 'l exportCall" where
  "startCall E cfg rms = \<lparr>ecReq = rms, ecTodo = request_jobs E cfg rms, ecBatch = [], ecPhase = Translating\<rparr>"

text \<open>The next sample of a call: the step of the translator, on the shared accumulator and the call's own appender.\<close>

definition callEmit ::
  "'l translator_env \<Rightarrow> 'l labels_api \<Rightarrow> 'l fsStore \<Rightarrow> 'l job \<Rightarrow> 'l pendingSample list \<Rightarrow> unit trState \<Rightarrow>
     'l pendingSample list \<times> unit trState" where
  "callEmit E L s j batch tr =
     (case emit E (fs_appender_ops L []) (jDelta j) (jT j) (jLabels j, jV j)
             \<lparr>trDelta = trDelta tr, trClock = trClock tr, trApp = (s, batch)\<rparr> of
        (r, st) \<Rightarrow> (snd (trApp st), \<lparr>trDelta = trDelta st, trClock = trClock st, trApp = ()\<rparr>))"

lemma callEmit_job:
  "callEmit E L s j batch tr =
     (batch @ [pending (jLabels j) (jT j) (fst (job_value E j tr))], snd (job_value E j tr))"
proof -
  let ?st = "\<lparr>trDelta = trDelta tr, trClock = trClock tr, trApp = (s, batch)\<rparr>"
  have "fst (accumulateDelta E (jLabels j) (jV j) ?st) = fst (accumulateDelta E (jLabels j) (jV j) tr) \<and>
    trDelta (snd (accumulateDelta E (jLabels j) (jV j) ?st)) = trDelta (snd (accumulateDelta E (jLabels j) (jV j) tr)) \<and>
    trClock (snd (accumulateDelta E (jLabels j) (jV j) ?st)) = trClock (snd (accumulateDelta E (jLabels j) (jV j) tr))"
    by (rule accumulateDelta_slot) simp_all
  moreover have "snd (job_value E j tr) = \<lparr>trDelta = trDelta (snd (job_value E j tr)), trClock = trClock (snd (job_value E j tr)), trApp = ()\<rparr>"
    by simp
  ultimately show ?thesis
    using accumulateDelta_trApp [of E "jLabels j" "jV j" ?st]
    by (cases "accumulateDelta E (jLabels j) (jV j) ?st")
      (auto simp: callEmit_def emit_def job_value_def fs_appender_ops_def fsAppend_def memAppend_def)
qed

text \<open>A call that is not interleaved with others does what \<open>Translate\<close> does.\<close>

fun callEmits ::
  "'l translator_env \<Rightarrow> 'l labels_api \<Rightarrow> 'l fsStore \<Rightarrow> 'l job list \<Rightarrow> 'l pendingSample list \<Rightarrow> unit trState \<Rightarrow>
     'l pendingSample list \<times> unit trState" where
  "callEmits E L s [] batch tr = (batch, tr)"
| "callEmits E L s (j # js) batch tr =
     (case callEmit E L s j batch tr of (batch', tr') \<Rightarrow> callEmits E L s js batch' tr')"

lemma callEmits_jobs:
  "callEmits E L s js batch tr = (batch @ fst (run_jobs E js tr), snd (run_jobs E js tr))"
  by (induction js arbitrary: batch tr) (simp_all add: callEmit_job split: prod.split)

lemma callEmits_translate:
  "translator_of E (fs_appender_ops L []) cfg (Some rms) tr (fsAppender s) =
     ((length (request_jobs E cfg rms), None),
      case callEmits E L s (request_jobs E cfg rms) [] tr of (batch, tr') \<Rightarrow> (tr', (s, batch)))"
proof -
  obtain a where "translator_of E (fs_appender_ops L []) cfg (Some rms) tr (fsAppender s) =
      ((length (request_jobs E cfg rms), None), snd (run_jobs E (request_jobs E cfg rms) tr), a)"
    "snd a = fst (run_jobs E (request_jobs E cfg rms) tr)" "fst a = s"
    by (rule fsm.translator_runs)
  then show ?thesis by (cases a) (simp add: callEmits_jobs split: prod.split)
qed

section \<open>The steps\<close>

text \<open>\<open>rcOrder\<close> records the order in which the samples went through the accumulator, each with the number of its call.\<close>

record 'l receivers =
  rcLive :: "'l liveStore"
  rcDelta :: "unit trState"
  rcCalls :: "'l exportCall list"
  rcOrder :: "(nat \<times> 'l job) list"

definition rc_init :: "'l fsStore \<Rightarrow> 'l receivers" where
  "rc_init s =
     \<lparr>rcLive = \<lparr>lvStore = s, lvFlight = [], lvLogged = [], lvAcked = []\<rparr>, rcDelta = newTranslator (), rcCalls = [], rcOrder = []\<rparr>"

inductive rc_step ::
  "'l translator_env \<Rightarrow> 'l labels_api \<Rightarrow> 'l labels_json \<Rightarrow> ('l block list \<Rightarrow> 'l block list) \<Rightarrow> translationConfig \<Rightarrow>
     'l receivers \<Rightarrow> 'l receivers \<Rightarrow> bool"
  for E L J bsrt cfg where
  rc_start: "rms \<noteq> [] \<Longrightarrow> rc_step E L J bsrt cfg r (r\<lparr>rcCalls := rcCalls r @ [startCall E cfg rms]\<rparr>)"
| rc_emit: "rcCalls r = before @ c # after \<Longrightarrow> ecPhase c = Translating \<Longrightarrow> ecTodo c = j # js \<Longrightarrow>
    callEmit E L (lvStore (rcLive r)) j (ecBatch c) (rcDelta r) = (batch, tr) \<Longrightarrow>
    rc_step E L J bsrt cfg r
      (r\<lparr>rcCalls := before @ c\<lparr>ecTodo := js, ecBatch := batch\<rparr> # after, rcDelta := tr, rcOrder := rcOrder r @ [(length before, j)]\<rparr>)"
| rc_log: "rcCalls r = before @ c # after \<Longrightarrow> ecPhase c = Translating \<Longrightarrow> ecTodo c = [] \<Longrightarrow>
    commitLog L [] (ecBatch c) (lvStore (rcLive r)) = (None, s) \<Longrightarrow>
    \<forall>p \<in> set (ecBatch c). rec_fits L (pending_record p) \<Longrightarrow>
    walSegmentSeq (fsWal (lvStore (rcLive r))) + length (ecBatch c) < 10 ^ 8 \<Longrightarrow>
    rc_step E L J bsrt cfg r
      (r\<lparr>rcCalls := before @ c\<lparr>ecPhase := InLog\<rparr> # after,
         rcLive := (rcLive r)\<lparr>lvStore := s, lvFlight := ecBatch c # lvFlight (rcLive r),
                             lvLogged := lvLogged (rcLive r) @ ecBatch c\<rparr>\<rparr>)"
| rc_apply: "rcCalls r = before @ c # after \<Longrightarrow> ecPhase c = InLog \<Longrightarrow> lvFlight (rcLive r) = fl @ ecBatch c # fl' \<Longrightarrow>
    rc_step E L J bsrt cfg r
      (r\<lparr>rcCalls := before @ c\<lparr>ecPhase := Acknowledged\<rparr> # after,
         rcLive := (rcLive r)\<lparr>lvStore := commitApply L (ecBatch c) (lvStore (rcLive r)), lvFlight := fl @ fl',
                             lvAcked := lvAcked (rcLive r) @ ecBatch c\<rparr>\<rparr>)"
| rc_tick: "rc_step E L J bsrt cfg r
      (r\<lparr>rcLive := (rcLive r)\<lparr>lvStore := compactionTick L J srt ks io stuck info now (lvStore (rcLive r))\<rparr>\<rparr>)"
| rc_restart:
    "newFSStore L J bsrt (OpenOk, DirOk) fcfg (walFiles (fsWal (lvStore (rcLive r)))) (fsDisk (lvStore (rcLive r))) = Inr s \<Longrightarrow>
    rc_step E L J bsrt cfg r ((rc_init s)\<lparr>rcLive := (rcLive r)\<lparr>lvStore := s, lvFlight := []\<rparr>\<rparr>)"

inductive rc_run ::
  "'l translator_env \<Rightarrow> 'l labels_api \<Rightarrow> 'l labels_json \<Rightarrow> ('l block list \<Rightarrow> 'l block list) \<Rightarrow> translationConfig \<Rightarrow>
     'l fsStore \<Rightarrow> 'l receivers \<Rightarrow> bool"
  for E L J bsrt cfg s where
  rcr_init: "rc_run E L J bsrt cfg s (rc_init s)"
| rcr_step: "rc_run E L J bsrt cfg s r \<Longrightarrow> rc_step E L J bsrt cfg r r' \<Longrightarrow> rc_run E L J bsrt cfg s r'"

text \<open>The store of the receivers is the store of the running server.\<close>

lemma rc_step_live: "rc_step E L J bsrt cfg r r' \<Longrightarrow> rcLive r' = rcLive r \<or> live_step L J bsrt (rcLive r) (rcLive r')"
proof (induction rule: rc_step.induct)
  case (rc_log r before c after s)
  show ?case using lv_log [OF rc_log(4-6)] by simp
next
  case (rc_apply r before c after fl fl')
  show ?case using lv_apply [OF rc_apply(3)] by simp
next
  case (rc_restart fcfg r s)
  show ?case using lv_restart [OF rc_restart] by simp
qed (auto intro: lv_tick)

lemma rc_run_live: "rc_run E L J bsrt cfg s r \<Longrightarrow> live_run L J bsrt s (rcLive r)"
proof (induction rule: rc_run.induct)
  case rcr_init
  show ?case by (simp add: rc_init_def live_start)
next
  case (rcr_step r r')
  then show ?case using rc_step_live by (metis live_next)
qed

section \<open>The order of the samples\<close>

text \<open>The samples of the call with number \<open>i\<close>, in the order of the accumulator.\<close>

definition of_call :: "nat \<Rightarrow> (nat \<times> 'x) list \<Rightarrow> 'x list" where
  "of_call i xs = map snd (filter (\<lambda>x. fst x = i) xs)"

lemma of_call_append [simp]: "of_call i (xs @ ys) = of_call i xs @ of_call i ys"
  by (simp add: of_call_def)

lemma of_call_single [simp]: "of_call i [(k, x)] = (if k = i then [x] else [])"
  by (simp add: of_call_def)

lemma of_call_none: "\<forall>x \<in> set xs. fst x \<noteq> i \<Longrightarrow> of_call i xs = []"
  by (auto simp: of_call_def filter_empty_conv)

lemma of_call_Nil [simp]: "of_call i [] = []"
  by (simp add: of_call_def)

lemma of_call_zip: "\<forall>x \<in> set xs. fst x \<noteq> i \<Longrightarrow> of_call i (zip (map fst xs) ys) = []"
  by (rule of_call_none) (fastforce dest: set_zip_leftD)

definition order_values :: "'l translator_env \<Rightarrow> (nat \<times> 'l job) list \<Rightarrow> 'l pendingSample list" where
  "order_values E ord = fst (run_jobs E (map snd ord) (newTranslator ()))"

definition order_inv :: "'l translator_env \<Rightarrow> translationConfig \<Rightarrow> 'l receivers \<Rightarrow> bool" where
  "order_inv E cfg r \<longleftrightarrow>
     rcDelta r = snd (run_jobs E (map snd (rcOrder r)) (newTranslator ())) \<and>
     (\<forall>x \<in> set (rcOrder r). fst x < length (rcCalls r)) \<and>
     (\<forall>i < length (rcCalls r). let c = rcCalls r ! i in
        of_call i (rcOrder r) @ ecTodo c = request_jobs E cfg (ecReq c) \<and>
        ecBatch c = of_call i (zip (map fst (rcOrder r)) (order_values E (rcOrder r))) \<and>
        (ecPhase c \<noteq> Translating \<longrightarrow> ecTodo c = []))"

lemma length_order_values [simp]: "length (order_values E ord) = length ord"
  by (simp add: order_values_def)

lemma order_values_snoc:
  "order_values E (ord @ [(k, j)]) =
     order_values E ord @ [pending (jLabels j) (jT j) (fst (job_value E j (snd (run_jobs E (map snd ord) (newTranslator ())))))]"
  by (simp add: order_values_def run_jobs_append split: prod.split)

lemma order_inv_step:
  assumes "order_inv E cfg r" and "rc_step E L J bsrt cfg r r'"
  shows "order_inv E cfg r'"
  using assms(2)
proof (cases rule: rc_step.cases)
  case (rc_start rms)
  have "of_call (length (rcCalls r)) (rcOrder r) = []"
    "of_call (length (rcCalls r)) (zip (map fst (rcOrder r)) (order_values E (rcOrder r))) = []"
    using assms(1) by (auto simp: order_inv_def intro!: of_call_none of_call_zip)
  with rc_start assms(1) show ?thesis
    by (auto simp: order_inv_def startCall_def Let_def nth_append less_Suc_eq)
next
  case (rc_emit before c after j js batch tr)
  have emitted: "batch = ecBatch c @ [pending (jLabels j) (jT j) (fst (job_value E j (rcDelta r)))]"
    "tr = snd (job_value E j (rcDelta r))" using rc_emit(5) by (simp_all add: callEmit_job)
  have old: "rcCalls r ! i = (before @ c # after) ! i" for i by (simp add: rc_emit(2))
  have delta: "rcDelta r = snd (run_jobs E (map snd (rcOrder r)) (newTranslator ()))"
    using assms(1) by (simp add: order_inv_def)
  have "snd (run_jobs E (map snd (rcOrder r) @ [j]) (newTranslator ())) = tr"
    by (simp add: run_jobs_append emitted(2) delta split: prod.split)
  then show ?thesis
    using assms(1) rc_emit(2-4) unfolding rc_emit(1) order_inv_def Let_def
    by (auto simp: order_values_snoc emitted(1) delta nth_append nth_Cons' split: if_splits)
next
  case (rc_log before c after s)
  then show ?thesis using assms(1) unfolding order_inv_def Let_def rc_log(1)
    by (auto simp: nth_append nth_Cons' split: if_splits)
next
  case (rc_apply before c after fl fl')
  then show ?thesis using assms(1) unfolding order_inv_def Let_def rc_apply(1)
    by (auto simp: nth_append nth_Cons' split: if_splits)
next
  case (rc_tick srt ks io stuck info now)
  then show ?thesis using assms(1) by (simp add: order_inv_def)
next
  case (rc_restart fcfg s)
  then show ?thesis by (simp add: order_inv_def rc_init_def)
qed

lemma rc_run_order: "rc_run E L J bsrt cfg s r \<Longrightarrow> order_inv E cfg r"
proof (induction rule: rc_run.induct)
  case rcr_init
  show ?case by (simp add: order_inv_def rc_init_def)
qed (rule order_inv_step)


section \<open>What the deltas add up to\<close>

lemma mset_order:
  assumes "rc_run E L J bsrt cfg s r"
  shows "mset (map snd (rcOrder r)) + (\<Sum>c\<leftarrow>rcCalls r. mset (ecTodo c)) =
    (\<Sum>c\<leftarrow>rcCalls r. mset (request_jobs E cfg (ecReq c)))"
  using assms
proof (induction rule: rc_run.induct)
  case rcr_init
  show ?case by (simp add: rc_init_def)
next
  case (rcr_step r r')
  from rcr_step(2,3) show ?case
  proof (cases rule: rc_step.cases)
    case (rc_start rms)
    with rcr_step(3) show ?thesis by (simp add: startCall_def)
  qed (auto simp: rc_init_def)
qed

lemma sum_list_filter_perm:
  fixes g :: "'x \<Rightarrow> int"
  assumes "mset xs = mset ys"
  shows "(\<Sum>x\<leftarrow>filter P xs. g x) = (\<Sum>x\<leftarrow>filter P ys. g x)"
proof -
  have "mset (map g (filter P xs)) = mset (map g (filter P ys))" using assms by (metis mset_filter mset_map)
  then show ?thesis by (metis sum_mset_sum_list)
qed

lemma sum_list_filter_concat:
  fixes g :: "'x \<Rightarrow> int"
  shows "(\<Sum>x\<leftarrow>filter P (concat xss). g x) = (\<Sum>xs\<leftarrow>xss. \<Sum>x\<leftarrow>filter P xs. g x)"
  by (induction xss) simp_all

text \<open>The value of the entry of a series, while it is at most \<open>deltaTTL\<close> since the first reading of the clock.\<close>

definition entry_is :: "'l translator_env \<Rightarrow> deltaEntry option \<Rightarrow> bool \<Rightarrow> int \<Rightarrow> bool" where
  "entry_is E e there k \<longleftrightarrow>
     (case e of None \<Rightarrow> \<not> there \<and> k = 0 | Some e \<Rightarrow> there \<and> f64_is_int (deValue e) k \<and> teNow E 0 \<le> deLastSeen e)"

lemma run_jobs_clock: "trClock st \<le> trClock (snd (run_jobs E js st))"
proof (induction js arbitrary: st)
  case (Cons j js)
  obtain v st' where v: "job_value E j st = (v, st')" by fastforce
  then have "trClock st \<le> trClock st'"
    using accumulate_clock [of E "jLabels j" "jV j" st] by (auto simp: job_value_def split: if_splits)
  with Cons [of st'] v show ?case by (cases "run_jobs E js st'") simp
qed simp

definition young :: "'l translator_env \<Rightarrow> nat \<Rightarrow> bool" where
  "young E N \<longleftrightarrow> (\<forall>n < N. teNow E 0 \<le> teNow E n \<and> teNow E n \<le> teNow E 0 + deltaTTL)"

lemma job_entry:
  fixes st :: "'a trState"
  assumes young: "young E N" and clock: "trClock (snd (job_value E j st)) \<le> N"
    and entry: "entry_is E (trDelta st fp) there k"
    and jval: "series_job E fp j \<Longrightarrow> f64_is_int (jV j) d \<and> \<bar>k + d\<bar> < 2 ^ 53"
  shows "entry_is E (trDelta (snd (job_value E j st)) fp) (there \<or> series_job E fp j) (k + (if series_job E fp j then d else 0))"
proof -
  have live: "live_entry E (trClock st) (trDelta st fp) = trDelta st fp" "teNow E 0 \<le> teNow E (Suc (trClock st))" if "jDelta j"
  proof -
    have "Suc (trClock st) < N" using clock that accumulate_clock [of E "jLabels j" "jV j" st] by (simp add: job_value_def)
    then have "teNow E (trClock st) - deltaTTL \<le> teNow E 0" "teNow E 0 \<le> teNow E (Suc (trClock st))"
      using young by (simp_all add: young_def diff_le_eq)
    with entry show "live_entry E (trClock st) (trDelta st fp) = trDelta st fp" "teNow E 0 \<le> teNow E (Suc (trClock st))"
      by (force simp: live_entry_def entry_is_def split: option.splits)+
  qed
  consider "\<not> jDelta j" | "jDelta j" "lhash (teLabels E) (jLabels j) \<noteq> fp" | "jDelta j" "lhash (teLabels E) (jLabels j) = fp" by blast
  then show ?thesis
  proof cases
    case 1
    then show ?thesis using entry by (simp add: job_value_def series_job_def)
  next
    case 2
    then show ?thesis using entry accumulate_other [OF 2(2), of "jV j" st] live by (simp add: job_value_def series_job_def)
  next
    case 3
    then have "f64_is_int (jV j) d" "\<bar>k + d\<bar> < 2 ^ 53" using jval by (simp_all add: series_job_def)
    then show ?thesis
      using 3 entry accumulate_same [OF 3(2), where v = "jV j" and st = st] live f64_add_int
      by (auto simp: job_value_def series_job_def entry_is_def split: option.splits)
  qed
qed

lemma run_jobs_entry:
  fixes st :: "'a trState"
  assumes young: "young E N"
  shows "trClock (snd (run_jobs E js st)) \<le> N \<Longrightarrow> entry_is E (trDelta st fp) there k \<Longrightarrow>
    \<forall>j \<in> set js. series_job E fp j \<longrightarrow> f64_is_int (jV j) (d j) \<Longrightarrow>
    \<bar>k\<bar> + (\<Sum>j\<leftarrow>filter (series_job E fp) js. \<bar>d j\<bar>) < 2 ^ 53 \<Longrightarrow>
    entry_is E (trDelta (snd (run_jobs E js st)) fp) (there \<or> (\<exists>j \<in> set js. series_job E fp j))
      (k + (\<Sum>j\<leftarrow>filter (series_job E fp) js. d j))"
proof (induction js arbitrary: st there k)
  case (Cons j js)
  let ?k = "k + (if series_job E fp j then d j else 0)"
  have pos: "0 \<le> (\<Sum>j\<leftarrow>filter (series_job E fp) js. \<bar>d j\<bar>)" by (rule sum_list_nonneg) auto
  obtain v st' where v: "job_value E j st = (v, st')" by fastforce
  have small: "series_job E fp j \<Longrightarrow> f64_is_int (jV j) (d j) \<and> \<bar>k + d j\<bar> < 2 ^ 53"
    using Cons.prems(3,4) pos by simp
  have clock: "trClock (snd (run_jobs E js st')) \<le> N"
    using Cons.prems(1) v by (cases "run_jobs E js st'") simp
  then have "trClock (snd (job_value E j st)) \<le> N" using run_jobs_clock [of st' E js] v by simp
  from job_entry [OF young this Cons.prems(2) small] v
  have "entry_is E (trDelta st' fp) (there \<or> series_job E fp j) ?k" by simp
  moreover have "\<bar>?k\<bar> + (\<Sum>j\<leftarrow>filter (series_job E fp) js. \<bar>d j\<bar>) < 2 ^ 53"
    using Cons.prems(4) by (simp split: if_splits)
  ultimately have "entry_is E (trDelta (snd (run_jobs E js st')) fp)
      ((there \<or> series_job E fp j) \<or> (\<exists>j \<in> set js. series_job E fp j)) (?k + (\<Sum>j\<leftarrow>filter (series_job E fp) js. d j))"
    using Cons.prems(3) clock by (intro Cons.IH) simp_all
  then show ?case using v by (cases "run_jobs E js st'") (simp add: disj_assoc add.assoc split: if_splits)
qed simp


section \<open>What has been acknowledged\<close>

text \<open>The samples of the calls that have returned with success since the process started.\<close>

definition acked_samples :: "'l labels_api \<Rightarrow> 'l exportCall list \<Rightarrow> 'l \<Rightarrow> sample multiset" where
  "acked_samples L cs l = (\<Sum>c\<leftarrow>filter (\<lambda>c. ecPhase c = Acknowledged) cs. mset (batch_samples L (ecBatch c) l))"

lemma acked_samples_step:
  assumes "rc_step E L J bsrt cfg r r'"
    and "acked_samples L (rcCalls r) l \<subseteq># mset (batch_samples L (lvAcked (rcLive r)) l)"
  shows "acked_samples L (rcCalls r') l \<subseteq># mset (batch_samples L (lvAcked (rcLive r')) l)"
  using assms
proof (cases rule: rc_step.cases)
  case (rc_apply before c after fl fl')
  with assms(2) show ?thesis
    by (simp add: acked_samples_def batch_samples_append ac_simps)
qed (auto simp: acked_samples_def startCall_def rc_init_def)

lemma rc_run_acked:
  "rc_run E L J bsrt cfg s r \<Longrightarrow> acked_samples L (rcCalls r) l \<subseteq># mset (batch_samples L (lvAcked (rcLive r)) l)"
proof (induction rule: rc_run.induct)
  case rcr_init
  show ?case by (simp add: acked_samples_def rc_init_def)
qed (rule acked_samples_step)

text \<open>The batch of a call has the labels and the times of its request.\<close>

lemma run_jobs_heads: "map (\<lambda>p. (pLabels p, pT p)) (fst (run_jobs E js st)) = map (\<lambda>j. (jLabels j, jT j)) js"
proof (induction js arbitrary: st)
  case (Cons j js)
  obtain v st' where v: "job_value E j st = (v, st')" by fastforce
  with Cons [of st'] show ?case by (cases "run_jobs E js st'") simp
qed simp

lemma map_of_call_zip:
  "length ys = length ord \<Longrightarrow> map f ys = map g (map snd ord) \<Longrightarrow>
   map f (of_call i (zip (map fst ord) ys)) = map g (of_call i ord)"
proof (induction ord arbitrary: ys)
  case (Cons x ord)
  then show ?case by (cases ys) (simp_all add: of_call_def)
qed simp

lemma exportCall_heads:
  assumes "rc_run E L J bsrt cfg s r" and "c \<in> set (rcCalls r)" and "ecPhase c \<noteq> Translating"
  shows "map (\<lambda>p. (pLabels p, pT p)) (ecBatch c) = map (\<lambda>j. (jLabels j, jT j)) (request_jobs E cfg (ecReq c))"
proof -
  obtain i where "i < length (rcCalls r)" "rcCalls r ! i = c" using assms(2) by (auto simp: in_set_conv_nth)
  with rc_run_order [OF assms(1)] assms(3)
  have "of_call i (rcOrder r) = request_jobs E cfg (ecReq c)"
    "ecBatch c = of_call i (zip (map fst (rcOrder r)) (order_values E (rcOrder r)))"
    by (auto simp: order_inv_def Let_def)
  moreover have "map (\<lambda>p. (pLabels p, pT p)) (order_values E (rcOrder r)) = map (\<lambda>j. (jLabels j, jT j)) (map snd (rcOrder r))"
    unfolding order_values_def by (rule run_jobs_heads)
  from map_of_call_zip [OF length_order_values this]
  have "map (\<lambda>p. (pLabels p, pT p)) (of_call i (zip (map fst (rcOrder r)) (order_values E (rcOrder r)))) =
      map (\<lambda>j. (jLabels j, jT j)) (of_call i (rcOrder r))" .
  ultimately show ?thesis by simp
qed


end
