(* ===== verification/ConcurrentDemo.thy ===== *)
theory ConcurrentDemo
  imports FsConcurrent FsDemo
begin

text \<open>Concrete runs of the persistent store under concurrent use, over the stores of \<open>FsDemo\<close>.\<close>

section \<open>A query and a flush\<close>

lemma demo_written:
  obtains b s where "flushWrite list_json BlockOk (snapshot [1] (fsMem (demo_fs []))) (demo_fs []) = (Inr b, s)"
proof -
  have "block_target (fsDisk (demo_fs [])) (flush_dir (snapshot [1] (fsMem (demo_fs []))))" by (simp add: block_target_def)
  then show thesis by (rule flushWrite_ok [OF _ demo_finite [unfolded head_finite_def]]) (rule that)
qed

theorem fs_query_twice_witness:
  "\<exists>b s1 mem. flushWrite list_json BlockOk (snapshot [1] (fsMem (demo_fs []))) (demo_fs []) = (Inr b, s1) \<and>
    selectHead demo_api (isort (series_less demo_api)) [1] (demo_fs []) False 0 1600 [] = Some mem \<and>
    size (mset (answer_samples demo_api
      (ssSeries (selectRest demo_api (isort (series_less demo_api)) (flushPublish b s1) False 0 1600 [] mem)) demoA)) = 2"
proof -
  obtain b s1 where w: "flushWrite list_json BlockOk (snapshot [1] (fsMem (demo_fs []))) (demo_fs []) = (Inr b, s1)"
    by (rule demo_written)
  have "fs_ok demo_api (demo_fs [])" by (rule demo_fs_ok) simp
  from fs_query_twice [OF list_labels_ok demo_sort this demo_fs_ranges w demo_snapshot_ne, of False 0 1600 "[]"]
  obtain mem where mem: "selectHead demo_api (isort (series_less demo_api)) [1] (demo_fs []) False 0 1600 [] = Some mem"
    "mset (answer_samples demo_api
      (ssSeries (selectRest demo_api (isort (series_less demo_api)) (flushPublish b s1) False 0 1600 [] mem)) demoA) =
     filter_mset (in_range 0 1600) (mset (fs_samples demo_api (demo_fs []) demoA) + mset (mem_samples demo_api (fsMem (demo_fs [])) demoA))"
    by (auto simp: Let_def)
  have "mem_samples demo_api (fsMem (demo_fs [])) demoA = batch_samples demo_api demo_batch demoA"
    using demo_durable [of "[]"] by (simp only: durable_def segRecords_single log_samples_pending)
  then have "size (filter_mset (in_range 0 1600)
      (mset (fs_samples demo_api (demo_fs []) demoA) + mset (mem_samples demo_api (fsMem (demo_fs [])) demoA))) = 2"
    by (simp add: fs_samples_def blocks_samples_def series_samples_def batch_samples_def list_labels_def in_range_def)
  with w mem show ?thesis by metis
qed

theorem fs_query_during_flush_witness:
  "\<exists>b s1 mem. flush_steps demo_api list_json (demo_fs [], FIdle) (s1, FWritten b) \<and>
    selectHead demo_api (isort (series_less demo_api)) [1] (demo_fs []) False 0 1600 [] = Some mem \<and>
    filter_mset (in_range 0 1600) (mset (fs_samples demo_api (demo_fs []) demoA)) \<subseteq>#
      mset (answer_samples demo_api (ssSeries (selectRest demo_api (isort (series_less demo_api)) s1 False 0 1600 [] mem)) demoA)"
proof -
  obtain b s1 where w: "flushWrite list_json BlockOk (snapshot [1] (fsMem (demo_fs []))) (demo_fs []) = (Inr b, s1)"
    by (rule demo_written)
  have run: "flush_steps demo_api list_json (demo_fs [], FIdle) (s1, FWritten b)"
    using fl_snap [OF demo_fs_ranges refl demo_snapshot_ne] fl_write [OF w] by (meson r_into_rtranclp rtranclp.simps)
  have "fs_ok demo_api (demo_fs [])" by (rule demo_fs_ok) simp
  from fs_query_during_flush [OF list_labels_ok demo_sort this run_start run demo_fs_ranges, of False 0 1600 "[]"]
  show ?thesis using run by auto
qed

section \<open>A server that dies\<close>

lemma demo_opened:
  obtains s where
    "newFSStore demo_api list_json (isort block_less) (OpenOk, DirOk) demo_cfg [] [] = Inr s" "durable demo_api s [(0, [])]"
  using newFSStore_ok [OF list_labels_ok wal_dir_empty, where J = list_json and srt = "isort block_less" and cfg = demo_cfg
      and bd = "[]"] by auto

lemma demo_live:
  obtains s v where
    "newFSStore demo_api list_json (isort block_less) (OpenOk, DirOk) demo_cfg [] [] = Inr s"
    "live_run demo_api list_json (isort block_less) s v" "lvAcked v = demo_batch" "lvFlight v = []"
proof -
  obtain s where s: "newFSStore demo_api list_json (isort block_less) (OpenOk, DirOk) demo_cfg [] [] = Inr s"
    "durable demo_api s [(0, [])]" by (rule demo_opened)
  let ?v0 = "\<lparr>lvStore = s, lvFlight = [], lvLogged = [], lvAcked = []\<rparr>"
  have inv: "wal_inv demo_api (fsWal s) [(0, [])]" using s(2) by (simp add: durable_def)
  then have seq: "walSegmentSeq (fsWal s) + length demo_batch < 10 ^ 8" by (simp add: wal_inv_def)
  have "\<forall>r \<in> set (map pending_record demo_batch). rec_fits demo_api r" using demo_batch_fits by simp
  from walLog_ok [OF inv this] seq obtain w where
    "walLog demo_api [] (fsWal s) (map pending_record demo_batch) = (None, w)" by auto
  then have "commitLog demo_api [] demo_batch (lvStore ?v0) = (None, s\<lparr>fsWal := w\<rparr>)" by (simp add: commitLog_def)
  from lv_log [OF this demo_batch_fits]
  have "live_run demo_api list_json (isort block_less) s
      (?v0\<lparr>lvStore := s\<lparr>fsWal := w\<rparr>, lvFlight := demo_batch # [], lvLogged := [] @ demo_batch\<rparr>)"
    using seq by (intro live_next [OF live_start]) simp
  then have "live_run demo_api list_json (isort block_less) s
      (?v0\<lparr>lvStore := commitApply demo_api demo_batch (s\<lparr>fsWal := w\<rparr>), lvFlight := [], lvLogged := demo_batch, lvAcked := demo_batch\<rparr>)"
    using lv_apply [of "?v0\<lparr>lvStore := s\<lparr>fsWal := w\<rparr>, lvFlight := [demo_batch], lvLogged := demo_batch\<rparr>" "[]" demo_batch "[]"
        demo_api list_json "isort block_less"]
    by (auto intro: live_next)
  with s(1) show thesis by (rule that) simp_all
qed


theorem fs_acknowledged_queried_witness:
  "\<exists>(v :: (string \<times> string) list liveStore) ks mem. lvAcked v = demo_batch \<and>
    selectHead demo_api (isort (series_less demo_api)) ks (lvStore v) True 0 1600 [] = Some mem \<and>
    filter_mset (in_range 0 1600) (mset (batch_samples demo_api demo_batch demoA)) \<subseteq>#
      mset (answer_samples demo_api (ssSeries (selectRest demo_api (isort (series_less demo_api)) (lvStore v) True 0 1600 [] mem)) demoA)"
proof -
  obtain s v where v: "newFSStore demo_api list_json (isort block_less) (OpenOk, DirOk) demo_cfg [] [] = Inr s"
    "live_run demo_api list_json (isort block_less) s v" "lvAcked v = demo_batch" by (rule demo_live)
  obtain ks where ks: "ranges ks (memSeriesOf (fsMem (lvStore v)))" using ranges_exist by blast
  have "openEntries list_json (readDir []) = []" by (simp add: readDir_def)
  from fs_acknowledged_queried [OF list_labels_ok block_sort demo_sort wal_dir_empty this v(1,2) rtranclp.rtrancl_refl ks,
      of True 0 1600 "[]"]
  obtain mem where mem: "selectHead demo_api (isort (series_less demo_api)) ks (lvStore v) True 0 1600 [] = Some mem"
    "filter_mset (in_range 0 1600) (mset (fs_samples demo_api s demoA) + mset (batch_samples demo_api demo_batch demoA))
      \<subseteq># mset (answer_samples demo_api (ssSeries (selectRest demo_api (isort (series_less demo_api)) (lvStore v) True 0 1600 [] mem)) demoA)"
    unfolding v(3) by (auto simp: Let_def)
  then have "filter_mset (in_range 0 1600) (mset (batch_samples demo_api demo_batch demoA)) \<subseteq>#
      mset (answer_samples demo_api (ssSeries (selectRest demo_api (isort (series_less demo_api)) (lvStore v) True 0 1600 [] mem)) demoA)"
    by (meson mset_subset_eq_add_right multiset_filter_mono subset_mset.order_trans)
  with v(3) mem(1) show ?thesis by - (rule exI [of _ v], rule exI [of _ ks], rule exI [of _ mem], intro conjI)
qed

definition demo_long :: "(string \<times> string) list pendingSample" where
  "demo_long = pending [(''a'', replicate 100 CHR ''x'')] 3000 7"

theorem fs_commit_behind_tear_witness:
  "\<exists>e s1 s2. fsCommit demo_api [(WriteErr 10, Rotated)] (demo_fs [], [demo_long]) = (Some e, (s1, [demo_long])) \<and>
    fsCommit demo_api [] (s1, [pending [(''b'', ''2'')] 4000 8]) = (None, (s2, [])) \<and>
    isl (newFSStore demo_api list_json (isort block_less) (OpenOk, DirOk) demo_cfg (walFiles (fsWal s2)) (fsDisk s2))"
proof -
  have fits: "rec_fits demo_api (pending_record demo_long)"
    by (simp add: demo_long_def rec_fits_def rec_body_size_def pending_record_def list_labels_def Let_def)
  have len: "length (encodeWALRecord demo_api (pending_record demo_long)) = 127"
    "length (encodeWALRecord demo_api (pending_record (pending [(''b'', ''2'')] 4000 8))) = 28"
    by (simp_all add: demo_long_def length_encodeWALRecord rec_body_size_def pending_record_def list_labels_def)
  have room: "walSegmentSize (fsWal (demo_fs [])) + int (length (encodeWALRecord demo_api (pending_record (pending [(''b'', ''2'')] 4000 8))))
      < walMaxSegSize (fsWal (demo_fs []))" unfolding len by (simp add: demo_fs_def)
  have k: "(4::nat) \<le> 10" "10 + length (encodeWALRecord demo_api (pending_record (pending [(''b'', ''2'')] 4000 8)))
      < length (encodeWALRecord demo_api (pending_record demo_long))" unfolding len by simp_all
  from fs_commit_behind_tear [OF list_labels_ok demo_durable fits k room, of Rotated list_json "isort block_less" demo_cfg]
  show ?thesis by blast
qed

end
