(* ===== verification/ExportDemo.thy ===== *)
theory ExportDemo
  imports ExportConcurrent ClientDemo ConcurrentDemo
begin

text \<open>A concrete run of two concurrent exports, each with one delta of the same series.\<close>

definition demo_delta :: "f64 \<Rightarrow> exportRequest" where
  "demo_delta v =
     [\<lparr>rmAttributes = [], rmSchemaUrl = '''',
       rmScopeMetrics = [\<lparr>smScope = None, smSchemaUrl = '''',
         smMetrics = [\<lparr>mtName = ''hits'', mtUnit = '''',
           mtData = Sum Delta True [\<lparr>ndAttributes = [], ndTimeUnixNano = 5000000, ndValue = AsDouble v\<rparr>]\<rparr>]\<rparr>]\<rparr>]"

definition demo_job :: "f64 \<Rightarrow> (string \<times> string) list job" where
  "demo_job v = \<lparr>jDelta = True, jT = 5, jLabels = [(''__name__'', ''hits'')], jV = v\<rparr>"

lemma demo_delta_jobs: "request_jobs demo_env plain_cfg (demo_delta v) = [demo_job v]"
proof -
  have "unixMillis 5000000 = 5" by (simp add: unixMillis_def)
  then show ?thesis
    by (simp add: demo_delta_def request_jobs_def resource_jobs_def scope_jobs_def metric_jobs_def points_def
      demo_job_def metricName_def plain_cfg_def buildLabels_def resourceLabels_def scopeLabels_def schema_in_force_def
      demo_env_def list_labels_def put_label_def numberValue_def converted_def)
qed

lemma rc_emit_job:
  assumes "rc_run E L J bsrt cfg s r" and "rcCalls r = before @ c # after" and "ecPhase c = Translating" and "ecTodo c = j # js"
  shows "rc_run E L J bsrt cfg s
    (r\<lparr>rcCalls := before @ c\<lparr>ecTodo := js, ecBatch := ecBatch c @ [pending (jLabels j) (jT j) (fst (job_value E j (rcDelta r)))]\<rparr> # after,
       rcDelta := snd (job_value E j (rcDelta r)), rcOrder := rcOrder r @ [(length before, j)]\<rparr>)"
  by (rule rcr_step [OF assms(1) rc_emit [OF assms(2-4) callEmit_job]])

lemma demo_two_exports:
  fixes s :: "(string \<times> string) list fsStore"
  obtains r where "rc_run demo_env demo_api J bsrt plain_cfg s r" "map ecTodo (rcCalls r) = [[], []]"
    "map ecReq (rcCalls r) = [demo_delta u, demo_delta v]" "rcOrder r = [(1, demo_job v), (0, demo_job u)]"
    "trClock (rcDelta r) = 4"
proof -
  let ?run = "rc_run demo_env demo_api J bsrt plain_cfg s"
  let ?c0 = "startCall demo_env plain_cfg (demo_delta u)" and ?c1 = "startCall demo_env plain_cfg (demo_delta v)"
  let ?r0 = "rc_init s"
  let ?r1 = "?r0\<lparr>rcCalls := rcCalls ?r0 @ [?c0]\<rparr>"
  let ?r2 = "?r1\<lparr>rcCalls := rcCalls ?r1 @ [?c1]\<rparr>"
  have todo: "ecTodo ?c0 = [demo_job u]" "ecTodo ?c1 = [demo_job v]" "ecPhase ?c0 = Translating" "ecPhase ?c1 = Translating"
    by (simp_all add: startCall_def demo_delta_jobs)
  have calls: "rcCalls ?r2 = [?c0] @ ?c1 # []" by (simp add: rc_init_def)
  have "?run ?r2" by (rule rcr_step [OF rcr_step [OF rcr_init rc_start] rc_start]) (simp_all add: demo_delta_def)
  from rc_emit_job [OF this calls todo(4,2)] obtain r3 where r3: "?run r3"
    "rcCalls r3 = [] @ ?c0 # [?c1\<lparr>ecTodo := [], ecBatch := ecBatch ?c1 @ [pending (jLabels (demo_job v)) (jT (demo_job v))
       (fst (job_value demo_env (demo_job v) (rcDelta ?r2)))]\<rparr>]"
    "rcOrder r3 = [(1, demo_job v)]" "rcDelta r3 = snd (job_value demo_env (demo_job v) (rcDelta ?r2))"
    by (simp add: rc_init_def)
  have c3: "trClock (rcDelta r3) = 2"
    unfolding r3(4) by (simp add: job_value_def demo_job_def accumulate_clock rc_init_def newTranslator_def)
  from rc_emit_job [OF r3(1,2) todo(3,1)] show thesis
    by (rule that) (use r3(3) c3 in \<open>simp_all add: startCall_def job_value_def demo_job_def accumulate_clock\<close>)
qed




end
