(* ===== verification/AccessLog.thy ===== *)
theory AccessLog
  imports Query
begin

text \<open>
  The access log of the query API (\<open>loggingMiddleware\<close> and \<open>responseWriter\<close> of \<open>internal/query/api.go\<close>): a writer
  around the connection that remembers the status and counts the bytes. A handler is the list of its calls
  of the writer; none of the handlers looks at their results.
\<close>

section \<open>The connection\<close>

text \<open>
  The writer of \<open>net/http\<close>: only the first status counts, informational ones are not final, and a write without a
  status sends 200. A body is not allowed with 204 and 304. \<open>room\<close> is the number of bytes that the
  connection still takes, when it breaks.
\<close>

record conn =
  cnStatus :: "nat option"
  cnBody :: "byte list"

definition connWriteHeader :: "nat \<Rightarrow> conn \<Rightarrow> conn" where
  "connWriteHeader code c =
     (if cnStatus c \<noteq> None \<or> 100 \<le> code \<and> code < 200 \<and> code \<noteq> 101 then c else c\<lparr>cnStatus := Some code\<rparr>)"

definition connWrite :: "nat option \<Rightarrow> byte list \<Rightarrow> conn \<Rightarrow> (nat \<times> err) \<times> conn" where
  "connWrite room b c =
     (let c = connWriteHeader 200 c
      in if cnStatus c = Some 204 \<or> cnStatus c = Some 304 then ((0, Some ''http: response status code does not allow body''), c)
         else case room of
           None \<Rightarrow> ((length b, None), c\<lparr>cnBody := cnBody c @ b\<rparr>)
         | Some k \<Rightarrow>
             if k < length b then ((k, Some ''write: broken pipe''), c\<lparr>cnBody := cnBody c @ take k b\<rparr>)
             else ((length b, None), c\<lparr>cnBody := cnBody c @ b\<rparr>))"

section \<open>The writer of the log\<close>

record responseWriter =
  rwInner :: conn
  rwStatusCode :: nat
  rwBytesWritten :: nat

definition rwWriteHeader :: "nat \<Rightarrow> responseWriter \<Rightarrow> responseWriter" where
  "rwWriteHeader code rw = rw\<lparr>rwStatusCode := code, rwInner := connWriteHeader code (rwInner rw)\<rparr>"

definition rwWrite :: "nat option \<Rightarrow> byte list \<Rightarrow> responseWriter \<Rightarrow> (nat \<times> err) \<times> responseWriter" where
  "rwWrite room b rw =
     (case connWrite room b (rwInner rw) of
        ((n, e), c) \<Rightarrow> ((n, e), rw\<lparr>rwInner := c, rwBytesWritten := rwBytesWritten rw + n\<rparr>))"

datatype writerCall = CallWriteHeader nat | CallWrite "nat option" "byte list"

fun serve_conn :: "writerCall list \<Rightarrow> conn \<Rightarrow> conn" where
  "serve_conn [] c = c"
| "serve_conn (CallWriteHeader code # calls) c = serve_conn calls (connWriteHeader code c)"
| "serve_conn (CallWrite room b # calls) c = serve_conn calls (snd (connWrite room b c))"

fun serve_rw :: "writerCall list \<Rightarrow> responseWriter \<Rightarrow> responseWriter" where
  "serve_rw [] rw = rw"
| "serve_rw (CallWriteHeader code # calls) rw = serve_rw calls (rwWriteHeader code rw)"
| "serve_rw (CallWrite room b # calls) rw = serve_rw calls (snd (rwWrite room b rw))"

record logEntry =
  leMethod :: string
  lePath :: string
  leStatus :: nat
  leBytes :: nat

definition loggingMiddleware :: "(apiRequest \<Rightarrow> writerCall list) \<Rightarrow> apiRequest \<Rightarrow> conn \<Rightarrow> logEntry \<times> conn" where
  "loggingMiddleware next r c =
     (let rw = serve_rw (next r) \<lparr>rwInner = c, rwStatusCode = 200, rwBytesWritten = 0\<rparr>
      in (\<lparr>leMethod = aqMethod r, lePath = aqPath r, leStatus = rwStatusCode rw, leBytes = rwBytesWritten rw\<rparr>, rwInner rw))"

text \<open>The calls for a reply: \<open>body\<close> is what the JSON encoder, \<open>http.Redirect\<close> or \<open>http.NotFound\<close> write. A success sets
  no status.\<close>

definition replyCalls :: "bool \<Rightarrow> nat option \<Rightarrow> byte list \<Rightarrow> httpReply \<Rightarrow> writerCall list" where
  "replyCalls failed room body x =
     (case x of
        Preflight \<Rightarrow> [CallWriteHeader 204]
      | Answer j \<Rightarrow> (if failed then [CallWriteHeader 200] else []) @ [CallWrite room body]
      | Redirect to \<Rightarrow> [CallWriteHeader 301, CallWrite room body]
      | Dashboard p \<Rightarrow> []
      | NotFound \<Rightarrow> [CallWriteHeader 404, CallWrite room body])"

section \<open>Properties\<close>

lemma connWriteHeader_body [simp]: "cnBody (connWriteHeader code c) = cnBody c"
  by (simp add: connWriteHeader_def)

lemma rwWrite_connWrite: "rwInner (snd (rwWrite room b rw)) = snd (connWrite room b (rwInner rw))"
  by (simp add: rwWrite_def split: prod.split)

lemma connWrite_length:
  "length (cnBody (snd (connWrite room b c))) = length (cnBody c) + fst (fst (connWrite room b c))"
  by (auto simp: connWrite_def connWriteHeader_def Let_def split: option.split)

lemma serve_rw_inner: "rwInner (serve_rw calls rw) = serve_conn calls (rwInner rw)"
  by (induction calls rw rule: serve_rw.induct) (simp_all add: rwWrite_connWrite rwWriteHeader_def)

lemma serve_rw_bytes:
  "rwBytesWritten (serve_rw calls rw) + length (cnBody (rwInner rw)) =
   rwBytesWritten rw + length (cnBody (serve_conn calls (rwInner rw)))"
proof (induction calls rw rule: serve_rw.induct)
  case (2 code calls rw)
  then show ?case by (simp add: rwWriteHeader_def)
next
  case (3 room b calls rw)
  moreover have "rwBytesWritten (snd (rwWrite room b rw)) = rwBytesWritten rw + fst (fst (connWrite room b (rwInner rw)))"
    by (simp add: rwWrite_def split: prod.split)
  ultimately show ?case by (simp add: rwWrite_connWrite connWrite_length)
qed simp

text \<open>The middleware does not change what the client gets, and the number it logs is that of the bytes sent.\<close>

theorem log_transparent:
  assumes "cnBody c = []"
  shows "snd (loggingMiddleware next r c) = serve_conn (next r) c \<and>
    leBytes (fst (loggingMiddleware next r c)) = length (cnBody (serve_conn (next r) c))"
  using assms serve_rw_bytes [of "next r" "\<lparr>rwInner = c, rwStatusCode = 200, rwBytesWritten = 0\<rparr>"]
  by (simp add: loggingMiddleware_def Let_def serve_rw_inner)

text \<open>For every reply of the API the status in the log is the one that the client gets, 200 where none is set.\<close>

theorem log_status:
  assumes "replyStatus (x r) = Some code"
  shows "leStatus (fst (loggingMiddleware (\<lambda>r. replyCalls failed room body (x r)) r \<lparr>cnStatus = None, cnBody = []\<rparr>)) = code \<and>
    cnStatus (snd (loggingMiddleware (\<lambda>r. replyCalls failed room body (x r)) r \<lparr>cnStatus = None, cnBody = []\<rparr>)) = Some code"
  using assms
  by (cases "x r")
    (auto simp: loggingMiddleware_def replyCalls_def replyStatus_def Let_def rwWriteHeader_def rwWrite_def connWrite_def
      connWriteHeader_def split: option.splits)

theorem log_transparent_witness:
  "leBytes (fst (loggingMiddleware (\<lambda>r. [CallWriteHeader 404, CallWrite (Some 2) [1, 2, 3]]) r \<lparr>cnStatus = None, cnBody = []\<rparr>)) = 2"
  using log_transparent [of "\<lparr>cnStatus = None, cnBody = []\<rparr>" "\<lambda>r. [CallWriteHeader 404, CallWrite (Some 2) [1, 2, 3]]" r]
  by (simp add: connWrite_def connWriteHeader_def)

theorem log_status_witness:
  "leStatus (fst (loggingMiddleware (\<lambda>r. replyCalls False None [7] NotFound) r \<lparr>cnStatus = None, cnBody = []\<rparr>)) = 404"
  using log_status [of "\<lambda>_. NotFound" r 404 False None "[7]"] by (simp add: replyStatus_def)

end
